(* ===== verification/AAF_Prelude.thy ===== *)
theory AAF_Prelude
  imports Complex_Main "HOL-Library.Word" "HOL-Library.Monad_Syntax" "HOL-Library.Char_ord"
    "HOL-Library.List_Lexorder" "HOL-Library.Multiset" "HOL-Library.AList"
begin

text \<open>
  Shared vocabulary of the development: the types that stand for Rust's machine integers,
  strings, timestamps and hash maps, the string operations of the standard library the sources
  call, and the generic lemmas the component theories use.

  Conventions. A Rust \<open>u8\<close>/\<open>u32\<close>/\<open>u64\<close>/\<open>usize\<close> whose arithmetic matters is a word of that
  width; a counter that is only compared is a \<open>nat\<close>. A \<open>String\<close> is a list of characters; the
  operations below treat a character as one unit, which agrees with Rust on ASCII text. A
  \<open>DateTime<Utc>\<close> is an \<open>int\<close> (nanoseconds since the epoch), and every \<open>Utc::now()\<close> of the sources
  is an argument of the model. A \<open>HashMap\<close> is a map \<open>'k \<rightharpoonup> 'v\<close> where no iteration order is
  observed, and an association list where it is iterated. An identifier the sources draw from
  \<open>uuid\<close> is an argument of the model.
\<close>

named_theorems contract_simps "definitions and simplification rules of the contract types"
named_theorems policy_simps "definitions of the policy rules"
named_theorems float_simps "evaluation rules of the floating-point operations"

type_synonym u8 = "8 word"
type_synonym u32 = "32 word"
type_synonym u64 = "64 word"
type_synonym usize = "64 word"
type_synonym timestamp = int
type_synonym 'v hashmap = "string \<rightharpoonup> 'v"

section \<open>Saturating and checked machine arithmetic\<close>

definition saturating_sub :: "'a::len word \<Rightarrow> 'a word \<Rightarrow> 'a word" where
  "saturating_sub a b = (if a < b then 0 else a - b)"

definition saturating_add :: "'a::len word \<Rightarrow> 'a word \<Rightarrow> 'a word" where
  "saturating_add a b = (if a + b < a then - 1 else a + b)"

definition checked_add :: "'a::len word \<Rightarrow> 'a word \<Rightarrow> 'a word option" where
  "checked_add a b = (if a + b < a then None else Some (a + b))"

lemma word_add_overflow_iff:
  "(a + b < a) \<longleftrightarrow> 2 ^ LENGTH('a) \<le> unat a + unat (b :: 'a::len word)"
proof (cases "unat a + unat b < 2 ^ LENGTH('a)")
  case True
  then have "unat (a + b) = unat a + unat b"
    by (simp add: unat_word_ariths)
  with True show ?thesis by (simp add: word_less_nat_alt)
next
  case False
  have "unat a < 2 ^ LENGTH('a)" "unat b < 2 ^ LENGTH('a)" by simp_all
  with False have small: "unat a + unat b - 2 ^ LENGTH('a) < 2 ^ LENGTH('a)" by linarith
  have "(unat a + unat b) mod 2 ^ LENGTH('a) = (unat a + unat b - 2 ^ LENGTH('a)) mod 2 ^ LENGTH('a)"
    using False by (subst le_mod_geq) simp_all
  with small have "unat (a + b) = unat a + unat b - 2 ^ LENGTH('a)"
    by (simp add: unat_word_ariths)
  moreover have "unat b < 2 ^ LENGTH('a)" by simp
  ultimately show ?thesis using False
    unfolding word_less_nat_alt by linarith
qed

lemma unat_of_nat_small: "n < 2 ^ LENGTH('a) \<Longrightarrow> unat (of_nat n :: 'a::len word) = n"
  by (simp add: unat_of_nat take_bit_nat_eq_self)

lemma unat_saturating_sub: "unat (saturating_sub a b) = unat a - unat b"
  by (auto simp: saturating_sub_def word_less_nat_alt unat_sub word_le_nat_alt)

lemma saturating_sub_le: "saturating_sub a b \<le> a"
  by (simp add: word_le_nat_alt unat_saturating_sub)

lemma unat_saturating_add:
  "unat (saturating_add a b) = min (unat a + unat b) (2 ^ LENGTH('a) - 1)"
  for a b :: "'a::len word"
proof (cases "a + b < a")
  case True
  then have "2 ^ LENGTH('a) \<le> unat a + unat b" by (simp add: word_add_overflow_iff)
  with True show ?thesis by (simp add: saturating_add_def unsigned_minus_1_eq_mask mask_eq_exp_minus_1)
next
  case False
  then have "unat a + unat b < 2 ^ LENGTH('a)" by (simp add: word_add_overflow_iff)
  with False show ?thesis by (simp add: saturating_add_def unat_word_ariths)
qed

lemma checked_add_Some: "checked_add a b = Some c \<Longrightarrow> unat c = unat a + unat b"
  by (auto simp: checked_add_def word_add_overflow_iff unat_word_ariths split: if_splits)

section \<open>Strings\<close>

definition is_whitespace :: "char \<Rightarrow> bool" where
  "is_whitespace c \<longleftrightarrow> c = CHR '' '' \<or> (CHR 0x09 \<le> c \<and> c \<le> CHR 0x0D)"

definition trim :: "string \<Rightarrow> string" where
  "trim s = rev (dropWhile is_whitespace (rev (dropWhile is_whitespace s)))"

fun starts_with :: "string \<Rightarrow> string \<Rightarrow> bool" where
  "starts_with s [] = True"
| "starts_with [] (p # ps) = False"
| "starts_with (c # cs) (p # ps) = (c = p \<and> starts_with cs ps)"

definition ends_with :: "string \<Rightarrow> string \<Rightarrow> bool" where
  "ends_with s suf = starts_with (rev s) (rev suf)"

definition strip_prefix :: "string \<Rightarrow> string \<Rightarrow> string option" where
  "strip_prefix s p = (if starts_with s p then Some (drop (length p) s) else None)"

definition strip_suffix :: "string \<Rightarrow> string \<Rightarrow> string option" where
  "strip_suffix s p = (if ends_with s p then Some (take (length s - length p) s) else None)"

fun contains_str :: "string \<Rightarrow> string \<Rightarrow> bool" where
  "contains_str [] p = (p = [])"
| "contains_str (c # cs) p = (starts_with (c # cs) p \<or> contains_str cs p)"

fun split_on_aux :: "char \<Rightarrow> string \<Rightarrow> string \<Rightarrow> string list" where
  "split_on_aux d [] acc = [rev acc]"
| "split_on_aux d (c # cs) acc =
     (if c = d then rev acc # split_on_aux d cs [] else split_on_aux d cs (c # acc))"

definition split_on :: "char \<Rightarrow> string \<Rightarrow> string list" where
  "split_on d s = split_on_aux d s []"

fun split_whitespace_aux :: "string \<Rightarrow> string \<Rightarrow> string list" where
  "split_whitespace_aux [] acc = (if acc = [] then [] else [rev acc])"
| "split_whitespace_aux (c # cs) acc =
     (if is_whitespace c
      then (if acc = [] then [] else [rev acc]) @ split_whitespace_aux cs []
      else split_whitespace_aux cs (c # acc))"

definition split_whitespace :: "string \<Rightarrow> string list" where
  "split_whitespace s = split_whitespace_aux s []"

fun join_with :: "string \<Rightarrow> string list \<Rightarrow> string" where
  "join_with sep [] = []"
| "join_with sep [s] = s"
| "join_with sep (s # t # ss) = s @ sep @ join_with sep (t # ss)"

definition to_lower_char :: "char \<Rightarrow> char" where
  "to_lower_char c = (if CHR ''A'' \<le> c \<and> c \<le> CHR ''Z'' then char_of (of_char c + 32 :: nat) else c)"

text \<open>Code equations on the bits of a character: the conversions between characters and numbers are
  costly to evaluate in the kernel.\<close>

lemma of_char_plus_32:
  "of_char (Char b0 b1 b2 b3 b4 False b6 b7) + 32 = (of_char (Char b0 b1 b2 b3 b4 True b6 b7) :: nat)"
  by (simp add: of_char_def)

lemma to_lower_char_bits [code]:
  "to_lower_char (Char b0 b1 b2 b3 b4 b5 b6 b7) =
     (if CHR ''A'' \<le> Char b0 b1 b2 b3 b4 b5 b6 b7 \<and> Char b0 b1 b2 b3 b4 b5 b6 b7 \<le> CHR ''Z''
      then Char b0 b1 b2 b3 b4 True b6 b7 else Char b0 b1 b2 b3 b4 b5 b6 b7)"
proof (cases b5)
  case True
  then show ?thesis by (auto simp: to_lower_char_def)
next
  case False
  then show ?thesis unfolding to_lower_char_def by (simp only: of_char_plus_32 char_of_char simp_thms)
qed

definition to_lowercase :: "string \<Rightarrow> string" where
  "to_lowercase s = map to_lower_char s"

fun digit_char :: "nat \<Rightarrow> char" where
  "digit_char n = char_of (48 + n mod 10)"

lemma digit_char_code [code]: "digit_char n = ''0123456789'' ! (n mod 10)"
proof -
  have "\<forall>k \<in> set [0..<10]. char_of (48 + k) = ''0123456789'' ! k"
    by (simp add: upt_conv_Cons char_of_def bit_0 del: set_upt)
  moreover have "n mod 10 \<in> set [0..<10]" by simp
  ultimately show ?thesis by simp
qed

fun show_nat :: "nat \<Rightarrow> string" where
  "show_nat n = (if n < 10 then [digit_char n] else show_nat (n div 10) @ [digit_char n])"

declare show_nat.simps [simp del]

text \<open>Decimal numerals are injective and hold only digits, so a numeral followed by another character
  can be read back.\<close>

lemma of_char_digit_char [simp]: "of_char (digit_char n) = 48 + n mod (10::nat)"
  by simp

lemma show_nat_digits: "c \<in> set (show_nat n) \<Longrightarrow> 48 \<le> (of_char c :: nat) \<and> (of_char c :: nat) \<le> 57"
proof (induction n rule: show_nat.induct)
  case (1 n)
  have "of_char (digit_char n) = 48 + n mod (10::nat)" "n mod 10 < 10" by simp_all
  with 1 show ?case unfolding show_nat.simps[of n] by (auto simp del: digit_char.simps split: if_splits)
qed

lemma show_nat_not_Nil [simp]: "show_nat n \<noteq> []"
  by (subst show_nat.simps) simp

lemma show_nat_inj: "show_nat m = show_nat n \<longleftrightarrow> m = n"
proof (induction m arbitrary: n rule: show_nat.induct)
  case (1 m)
  have len: "show_nat k = [c] \<longleftrightarrow> k < 10 \<and> c = digit_char k" for k c
    by (subst show_nat.simps) (auto simp del: digit_char.simps)
  have dc: "digit_char a = digit_char b \<longleftrightarrow> a mod 10 = b mod 10" for a b
    using of_char_digit_char[of a] of_char_digit_char[of b] by (metis add_left_cancel digit_char.simps)
  show ?case
  proof (cases "m < 10 \<or> n < 10")
    case True
    then show ?thesis
      using len[of m] len[of n] show_nat.simps[of m] show_nat.simps[of n] dc[of m n] by (metis mod_less)
  next
    case False
    with 1 have "show_nat m = show_nat n \<longleftrightarrow> m div 10 = n div 10 \<and> m mod 10 = n mod 10"
      unfolding show_nat.simps[of m] show_nat.simps[of n] by (simp add: dc del: digit_char.simps)
    then show ?thesis by (metis div_mult_mod_eq)
  qed
qed

lemma show_nat_followed:
  assumes "show_nat m @ c # s = show_nat n @ c # t" "(of_char c :: nat) < 48"
  shows "m = n"
proof -
  have "takeWhile (\<lambda>x. x \<noteq> c) (show_nat k @ c # r) = show_nat k" for k r
    using show_nat_digits[of _ k] assms(2) by (subst takeWhile_append2) fastforce+
  with assms(1) show ?thesis using show_nat_inj by metis
qed

lemma starts_with_iff: "starts_with s p \<longleftrightarrow> (\<exists>r. s = p @ r)"
  by (induction s p rule: starts_with.induct) auto

lemma ends_with_iff: "ends_with s p \<longleftrightarrow> (\<exists>r. s = r @ p)"
proof -
  have "ends_with s p \<longleftrightarrow> (\<exists>r. rev s = rev p @ r)"
    by (simp add: ends_with_def starts_with_iff)
  also have "\<dots> \<longleftrightarrow> (\<exists>r. s = r @ p)"
    by (metis rev_append rev_rev_ident)
  finally show ?thesis .
qed

lemma strip_prefix_Some_iff: "strip_prefix s p = Some r \<longleftrightarrow> s = p @ r"
  by (auto simp: strip_prefix_def starts_with_iff)

lemma strip_suffix_Some_iff: "strip_suffix s p = Some r \<longleftrightarrow> s = r @ p"
  by (auto simp: strip_suffix_def ends_with_iff)

lemma contains_str_iff: "contains_str s p \<longleftrightarrow> (\<exists>a b. s = a @ p @ b)"
proof (induction s)
  case Nil
  then show ?case by simp
next
  case (Cons c s)
  have "(\<exists>a b. c # s = a @ p @ b) \<longleftrightarrow> (\<exists>b. c # s = p @ b) \<or> (\<exists>a b. s = a @ p @ b)"
    by (metis append_eq_Cons_conv append_self_conv2)
  with Cons show ?case by (simp add: starts_with_iff)
qed

section \<open>Results\<close>

text \<open>A Rust \<open>Result<T, E>\<close> is \<open>'e + 'a\<close> with the error on the left.\<close>

type_synonym ('a, 'e) result = "'e + 'a"

abbreviation Ok :: "'a \<Rightarrow> ('a, 'e) result" where
  "Ok x \<equiv> Inr x"

abbreviation Err :: "'e \<Rightarrow> ('a, 'e) result" where
  "Err e \<equiv> Inl e"

definition bind_result :: "('a, 'e) result \<Rightarrow> ('a \<Rightarrow> ('b, 'e) result) \<Rightarrow> ('b, 'e) result" where
  "bind_result r f = (case r of Inl e \<Rightarrow> Inl e | Inr x \<Rightarrow> f x)"

lemma bind_result_simps [simp]:
  "bind_result (Err e) f = Err e" "bind_result (Ok x) f = f x"
  by (simp_all add: bind_result_def)

lemma bind_result_Ok_iff: "bind_result r f = Ok y \<longleftrightarrow> (\<exists>x. r = Ok x \<and> f x = Ok y)"
  by (cases r) auto

definition is_ok :: "('a, 'e) result \<Rightarrow> bool" where
  "is_ok r = (case r of Inl _ \<Rightarrow> False | Inr _ \<Rightarrow> True)"

lemma is_ok_simps [simp]: "is_ok (Ok x)" "\<not> is_ok (Err e)"
  by (simp_all add: is_ok_def)

section \<open>Sorted duplicate-free string sets\<close>

text \<open>Collecting into a \<open>BTreeSet<String>\<close> and iterating it: sorted, without duplicates.\<close>

definition btree_collect :: "'a::linorder list \<Rightarrow> 'a list" where
  "btree_collect xs = sort (remdups xs)"

lemma set_btree_collect [simp]: "set (btree_collect xs) = set xs"
  by (simp add: btree_collect_def)

lemma btree_collect_strict: "sorted_wrt (<) (btree_collect xs)"
  by (simp add: btree_collect_def strict_sorted_iff)

section \<open>Stable sorting\<close>

text \<open>Rust's stable \<open>sort_by\<close>, as insertion by a comparison that is not "greater".\<close>

fun insert_by :: "('a \<Rightarrow> 'a \<Rightarrow> bool) \<Rightarrow> 'a \<Rightarrow> 'a list \<Rightarrow> 'a list" where
  "insert_by le x [] = [x]"
| "insert_by le x (y # ys) = (if le x y then x # y # ys else y # insert_by le x ys)"

definition stable_sort_by :: "('a \<Rightarrow> 'a \<Rightarrow> bool) \<Rightarrow> 'a list \<Rightarrow> 'a list" where
  "stable_sort_by le xs = foldr (insert_by le) xs []"

lemma mset_insert_by [simp]: "mset (insert_by le x ys) = add_mset x (mset ys)"
  by (induction ys) auto

lemma set_insert_by [simp]: "set (insert_by le x ys) = insert x (set ys)"
  by (induction ys) auto

lemma mset_stable_sort_by [simp]: "mset (stable_sort_by le xs) = mset xs"
  unfolding stable_sort_by_def by (induction xs) auto

lemma set_stable_sort_by [simp]: "set (stable_sort_by le xs) = set xs"
  by (rule mset_eq_setD) simp

lemma length_stable_sort_by [simp]: "length (stable_sort_by le xs) = length xs"
  by (rule mset_eq_length) simp

lemma sorted_insert_by:
  assumes "\<And>a b. a \<in> S \<Longrightarrow> b \<in> S \<Longrightarrow> le a b \<or> le b a"
    and "\<And>a b c. a \<in> S \<Longrightarrow> b \<in> S \<Longrightarrow> c \<in> S \<Longrightarrow> le a b \<Longrightarrow> le b c \<Longrightarrow> le a c"
    and "x \<in> S" "set ys \<subseteq> S" "sorted_wrt le ys"
  shows "sorted_wrt le (insert_by le x ys)"
  using assms(4,5)
proof (induction ys)
  case (Cons y ys)
  have "\<forall>z \<in> set ys. le x z" if "le x y"
  proof
    fix z assume "z \<in> set ys"
    with Cons.prems have "y \<in> S" "z \<in> S" "le y z" by auto
    with assms(2)[OF assms(3), of y z] that show "le x z" by simp
  qed
  moreover have "\<not> le x y \<Longrightarrow> le y x" using assms(1,3) Cons.prems by auto
  ultimately show ?case using Cons by auto
qed simp

lemma sorted_stable_sort_by:
  assumes "\<And>a b. a \<in> set xs \<Longrightarrow> b \<in> set xs \<Longrightarrow> le a b \<or> le b a"
    and "\<And>a b c. a \<in> set xs \<Longrightarrow> b \<in> set xs \<Longrightarrow> c \<in> set xs \<Longrightarrow> le a b \<Longrightarrow> le b c \<Longrightarrow> le a c"
  shows "sorted_wrt le (stable_sort_by le xs)"
proof -
  have "set ys \<subseteq> set xs \<Longrightarrow> sorted_wrt le (foldr (insert_by le) ys []) \<and> set (foldr (insert_by le) ys []) \<subseteq> set xs" for ys
  proof (induction ys)
    case (Cons y ys)
    then show ?case by (auto intro!: sorted_insert_by[of "set xs"] dest: assms(1) intro: assms(2))
  qed simp
  then show ?thesis by (simp add: stable_sort_by_def)
qed

end
