(* ===== verification/Float64.thy ===== *)
theory Float64
  imports AAF_Prelude
begin

text \<open>
  IEEE-754 binary floating point, as the Rust types \<open>f64\<close> and \<open>f32\<close> use it. A value is NaN, an
  infinity, or a finite rational; every arithmetic operation is the exact rational result rounded
  to nearest, ties to even, in the format's precision, with gradual underflow and overflow to
  infinity. The two zeros are identified: no operation of the modelled code tells them apart
  (comparisons treat them as equal and no modelled division has a zero divisor).

  The lemmas show that rounding is monotone, odd, and the identity on representable values;
  the components use the induced facts about sums, differences and comparisons.
\<close>

datatype f64 = NaN | PInf | NInf | Fin rat

type_synonym f32 = f64

section \<open>Rounding\<close>

function bitlen :: "int \<Rightarrow> nat" where
  "bitlen n = (if n \<le> 0 then 0 else Suc (bitlen (n div 2)))"
  by pat_completeness auto
termination
  by (relation "measure nat") auto

declare bitlen.simps [simp del]

definition ilog2 :: "rat \<Rightarrow> int" where
  "ilog2 x = (let (p, q) = quotient_of x; k = int (bitlen p) - int (bitlen q)
              in if 2 powi k \<le> x then k else k - 1)"

definition rne :: "rat \<Rightarrow> int" where
  "rne x = (let f = \<lfloor>x\<rfloor>; r = x - of_int f
            in if r < 1 / 2 then f else if r > 1 / 2 then f + 1 else if even f then f else f + 1)"

lemma rne_code [code]:
  "rne x = (let f = \<lfloor>x\<rfloor>; r = x - of_int f
            in if r < 1 / 2 then f else if r > 1 / 2 then f + 1 else if f mod 2 = 0 then f else f + 1)"
  unfolding rne_def even_iff_mod_2_eq_zero ..

definition round_exp :: "int \<Rightarrow> int \<Rightarrow> rat \<Rightarrow> int" where
  "round_exp p emin x = max (ilog2 \<bar>x\<bar> - (p - 1)) emin"

definition round_to :: "int \<Rightarrow> int \<Rightarrow> rat \<Rightarrow> rat" where
  "round_to p emin x =
     (if x = 0 then 0
      else let e = round_exp p emin x in of_int (rne (x / 2 powi e)) * 2 powi e)"

definition pack :: "int \<Rightarrow> int \<Rightarrow> int \<Rightarrow> rat \<Rightarrow> f64" where
  "pack p emin emax x =
     (let y = round_to p emin x
      in if y \<noteq> 0 \<and> emax \<le> ilog2 \<bar>y\<bar> then (if 0 < y then PInf else NInf) else Fin y)"

definition to_f64 :: "rat \<Rightarrow> f64" where
  "to_f64 = pack 53 (- 1074) 1024"

definition to_f32 :: "rat \<Rightarrow> f32" where
  "to_f32 = pack 24 (- 149) 128"

definition f64_of_nat :: "nat \<Rightarrow> f64" where
  "f64_of_nat n = to_f64 (of_nat n)"

definition representable64 :: "rat \<Rightarrow> bool" where
  "representable64 x \<longleftrightarrow> to_f64 x = Fin x"

section \<open>Arithmetic and comparison\<close>

fun fneg :: "f64 \<Rightarrow> f64" where
  "fneg NaN = NaN"
| "fneg PInf = NInf"
| "fneg NInf = PInf"
| "fneg (Fin x) = Fin (- x)"

fun fadd :: "f64 \<Rightarrow> f64 \<Rightarrow> f64" where
  "fadd (Fin x) (Fin y) = to_f64 (x + y)"
| "fadd NaN _ = NaN"
| "fadd _ NaN = NaN"
| "fadd PInf NInf = NaN"
| "fadd NInf PInf = NaN"
| "fadd PInf _ = PInf"
| "fadd _ PInf = PInf"
| "fadd NInf _ = NInf"
| "fadd _ NInf = NInf"

definition fsub :: "f64 \<Rightarrow> f64 \<Rightarrow> f64" where
  "fsub a b = fadd a (fneg b)"

fun fsgn :: "f64 \<Rightarrow> int" where
  "fsgn NaN = 0"
| "fsgn PInf = 1"
| "fsgn NInf = - 1"
| "fsgn (Fin x) = (if 0 < x then 1 else if x < 0 then - 1 else 0)"

definition finf :: "int \<Rightarrow> f64" where
  "finf s = (if s = 0 then NaN else if 0 < s then PInf else NInf)"

fun fmul :: "f64 \<Rightarrow> f64 \<Rightarrow> f64" where
  "fmul (Fin x) (Fin y) = to_f64 (x * y)"
| "fmul NaN _ = NaN"
| "fmul _ NaN = NaN"
| "fmul a b = finf (fsgn a * fsgn b)"

text \<open>Division; a zero divisor is taken as \<open>+0\<close>.\<close>

fun fdiv :: "f64 \<Rightarrow> f64 \<Rightarrow> f64" where
  "fdiv (Fin x) (Fin y) = (if y = 0 then finf (fsgn (Fin x)) else to_f64 (x / y))"
| "fdiv NaN _ = NaN"
| "fdiv _ NaN = NaN"
| "fdiv (Fin x) _ = Fin 0"
| "fdiv a (Fin y) = (if y < 0 then fneg a else a)"
| "fdiv _ _ = NaN"

fun flt :: "f64 \<Rightarrow> f64 \<Rightarrow> bool" where
  "flt NaN _ = False"
| "flt _ NaN = False"
| "flt (Fin x) (Fin y) = (x < y)"
| "flt NInf b = (b \<noteq> NInf)"
| "flt (Fin x) b = (b = PInf)"
| "flt PInf _ = False"

fun feq :: "f64 \<Rightarrow> f64 \<Rightarrow> bool" where
  "feq NaN _ = False"
| "feq _ NaN = False"
| "feq a b = (a = b)"

definition fle :: "f64 \<Rightarrow> f64 \<Rightarrow> bool" where
  "fle a b \<longleftrightarrow> flt a b \<or> feq a b"

text \<open>\<open>f64::is_finite\<close>, \<open>f64::max\<close>, \<open>f64::min\<close> (which return the other operand on NaN) and
  \<open>f64::clamp\<close> (which leaves NaN).\<close>

definition is_finite_f :: "f64 \<Rightarrow> bool" where
  "is_finite_f a = (case a of Fin _ \<Rightarrow> True | _ \<Rightarrow> False)"

definition fmax :: "f64 \<Rightarrow> f64 \<Rightarrow> f64" where
  "fmax a b = (if a = NaN then b else if b = NaN then a else if flt a b then b else a)"

definition fmin :: "f64 \<Rightarrow> f64 \<Rightarrow> f64" where
  "fmin a b = (if a = NaN then b else if b = NaN then a else if flt b a then b else a)"

definition fclamp :: "f64 \<Rightarrow> f64 \<Rightarrow> f64 \<Rightarrow> f64" where
  "fclamp x lo hi = (if flt x lo then lo else if flt hi x then hi else x)"

section \<open>Rounding is monotone\<close>

lemma bitlen_bounds: "0 < n \<Longrightarrow> 2 ^ (bitlen n - 1) \<le> n \<and> n < 2 ^ bitlen n \<and> 0 < bitlen n"
proof (induction n rule: bitlen.induct)
  case (1 n)
  show ?case
  proof (cases "n div 2 \<le> 0")
    case True
    with "1.prems" have "n = 1" by linarith
    then show ?thesis by (simp add: bitlen.simps)
  next
    case False
    with "1" have IH: "2 ^ (bitlen (n div 2) - 1) \<le> n div 2" "n div 2 < 2 ^ bitlen (n div 2)"
      "0 < bitlen (n div 2)" by auto
    have unf: "bitlen n = Suc (bitlen (n div 2))"
      using "1.prems" by (subst bitlen.simps) simp
    have "2 ^ bitlen (n div 2) = 2 * (2::int) ^ (bitlen (n div 2) - 1)"
      using IH(3) by (cases "bitlen (n div 2)") auto
    with IH(1) have "2 ^ bitlen (n div 2) \<le> n" by linarith
    moreover have "n < 2 ^ Suc (bitlen (n div 2))" using IH(2) by simp
    ultimately show ?thesis by (simp add: unf)
  qed
qed

lemma two_powi_diff: "(2::rat) powi (int m - int n) = 2 ^ m / 2 ^ n"
  by (simp add: power_int_diff)

lemma ilog2_bounds:
  assumes "0 < x"
  shows "2 powi (ilog2 x) \<le> x" "x < 2 powi (ilog2 x + 1)"
proof -
  obtain p q where pq: "quotient_of x = (p, q)" by (cases "quotient_of x")
  then have q: "0 < q" and x: "x = of_int p / of_int q"
    by (auto intro: quotient_of_denom_pos quotient_of_div)
  with assms have p: "0 < p" by (simp add: zero_less_divide_iff)
  define a b where "a = bitlen p" and "b = bitlen q"
  define k where "k = int a - int b"
  have A: "2 ^ (a - 1) \<le> p" "p < 2 ^ a" "0 < a"
    and B: "2 ^ (b - 1) \<le> q" "q < 2 ^ b" "0 < b"
    using bitlen_bounds[OF p] bitlen_bounds[OF q] by (auto simp: a_def b_def)
  have ap: "(2::rat) ^ (a - 1) \<le> of_int p" "of_int p < (2::rat) ^ a"
    using A by (metis of_int_le_iff of_int_numeral of_int_power, metis of_int_less_iff of_int_numeral of_int_power)
  have bq: "(2::rat) ^ (b - 1) \<le> of_int q" "of_int q < (2::rat) ^ b"
    using B by (metis of_int_le_iff of_int_numeral of_int_power, metis of_int_less_iff of_int_numeral of_int_power)
  have "k - 1 = int (a - 1) - int b" "k + 1 = int a - int (b - 1)" using A(3) B(3) by (auto simp: k_def)
  then have eq1: "2 powi (k - 1) = (2::rat) ^ (a - 1) / 2 ^ b"
    and eq2: "2 powi (k + 1) = (2::rat) ^ a / 2 ^ (b - 1)"
    using two_powi_diff by metis+
  have lo: "2 powi (k - 1) \<le> x"
    unfolding eq1 x using ap bq p q by (intro frac_le) auto
  have hi: "x < 2 powi (k + 1)"
  proof -
    have "x \<le> of_int p / 2 ^ (b - 1)" unfolding x using bq p q by (intro divide_left_mono) (auto intro!: mult_pos_pos)
    also have "\<dots> < 2 ^ a / 2 ^ (b - 1)" using ap by (intro divide_strict_right_mono) auto
    finally show ?thesis unfolding eq2 .
  qed
  have il: "ilog2 x = (if 2 powi k \<le> x then k else k - 1)"
    by (simp add: ilog2_def pq a_def b_def k_def)
  show "2 powi (ilog2 x) \<le> x" using il lo by auto
  show "x < 2 powi (ilog2 x + 1)" using il hi by auto
qed

lemma ilog2_mono:
  assumes "0 < x" "x \<le> y" shows "ilog2 x \<le> ilog2 y"
proof (rule ccontr)
  assume "\<not> ilog2 x \<le> ilog2 y"
  then have "ilog2 y + 1 \<le> ilog2 x" by simp
  then have "(2::rat) powi (ilog2 y + 1) \<le> 2 powi (ilog2 x)" by (intro power_int_increasing) auto
  with ilog2_bounds[OF assms(1)] ilog2_bounds[of y] assms show False by auto
qed

lemma ilog2_ge_iff: "0 < x \<Longrightarrow> k \<le> ilog2 x \<longleftrightarrow> 2 powi k \<le> x"
proof
  assume "0 < x" "k \<le> ilog2 x"
  then have "(2::rat) powi k \<le> 2 powi (ilog2 x)" by (intro power_int_increasing) auto
  with ilog2_bounds(1)[OF \<open>0 < x\<close>] show "2 powi k \<le> x" by linarith
next
  assume "0 < x" "2 powi k \<le> x"
  show "k \<le> ilog2 x"
  proof (rule ccontr)
    assume "\<not> k \<le> ilog2 x"
    then have "(2::rat) powi (ilog2 x + 1) \<le> 2 powi k" by (intro power_int_increasing) auto
    with ilog2_bounds(2)[OF \<open>0 < x\<close>] \<open>2 powi k \<le> x\<close> show False by linarith
  qed
qed

lemma pack_cases:
  "pack p emin emax x =
     (let y = round_to p emin x
      in if 2 powi emax \<le> y then PInf else if y \<le> - (2 powi emax) then NInf else Fin y)"
proof -
  define t where "t = (2::rat) powi emax"
  then have "0 < t" by simp
  then show ?thesis
    by (cases "round_to p emin x" "0 :: rat" rule: linorder_cases)
      (auto simp: pack_def Let_def ilog2_ge_iff simp flip: t_def)
qed

lemma rne_bounds: "x - 1 / 2 \<le> of_int (rne x)" "of_int (rne x) \<le> x + 1 / 2"
  by (auto simp: rne_def Let_def) linarith+

lemma rne_of_int [simp]: "rne (of_int n) = n"
  by (simp add: rne_def)

lemma rne_mono:
  assumes "x \<le> y" shows "rne x \<le> rne y"
proof (cases "\<lfloor>x\<rfloor> = \<lfloor>y\<rfloor>")
  case True
  with assms show ?thesis by (auto simp: rne_def Let_def)
next
  case False
  with floor_mono[OF assms] have "\<lfloor>x\<rfloor> + 1 \<le> \<lfloor>y\<rfloor>" by simp
  moreover have "rne x \<le> \<lfloor>x\<rfloor> + 1" "\<lfloor>y\<rfloor> \<le> rne y" by (simp_all add: rne_def Let_def)
  ultimately show ?thesis by linarith
qed

lemma rne_minus: "rne (- x) = - rne x"
proof (cases "x = of_int \<lfloor>x\<rfloor>")
  case True
  then have "rne (- of_int \<lfloor>x\<rfloor>) = - rne (of_int \<lfloor>x\<rfloor>)"
    by (metis of_int_minus rne_of_int)
  with True show ?thesis by metis
next
  case False
  then have "\<lfloor>- x\<rfloor> = - \<lfloor>x\<rfloor> - 1"
    using of_int_floor_le[of x] by (intro floor_unique) (auto, linarith+)
  then show ?thesis by (auto simp: rne_def Let_def)
qed

lemma round_to_minus: "round_to p emin (- x) = - round_to p emin x"
  by (simp add: round_to_def round_exp_def Let_def rne_minus flip: minus_divide_left)

lemma round_to_upper:
  assumes "0 < x" "1 \<le> p"
  shows "round_to p emin x \<le> 2 powi (round_exp p emin x + p)"
proof -
  let ?e = "round_exp p emin x"
  have "x < 2 powi (ilog2 x + 1)" using assms by (simp add: ilog2_bounds)
  also have "(2::rat) powi (ilog2 x + 1) \<le> 2 powi (?e + p)"
    using assms by (intro power_int_increasing) (auto simp: round_exp_def)
  finally have "x / 2 powi ?e \<le> 2 powi p"
    by (simp add: power_int_add divide_le_eq mult.commute)
  also have "2 powi p = (of_int (2 ^ nat p) :: rat)"
    using assms by (simp add: power_int_def)
  finally have "rne (x / 2 powi ?e) \<le> 2 ^ nat p" using rne_mono rne_of_int by metis
  then have "(of_int (rne (x / 2 powi ?e)) :: rat) \<le> 2 powi p"
    using assms \<open>2 powi p = (of_int (2 ^ nat p) :: rat)\<close> by (metis of_int_le_iff)
  then show ?thesis using assms
    by (simp add: round_to_def Let_def power_int_add mult.commute)
qed

lemma round_to_lower:
  assumes "0 < x" "1 \<le> p" "emin < round_exp p emin x"
  shows "2 powi (round_exp p emin x + p - 1) \<le> round_to p emin x"
proof -
  let ?e = "round_exp p emin x"
  have e: "?e = ilog2 x - (p - 1)" using assms by (auto simp: round_exp_def)
  then have "2 powi (?e + p - 1) \<le> x" using assms ilog2_bounds(1)[of x] by (simp add: algebra_simps)
  moreover have "(2::rat) powi (?e + p - 1) = 2 powi ?e * 2 powi (p - 1)"
    by (simp flip: power_int_add add: algebra_simps)
  ultimately have "2 powi (p - 1) \<le> x / 2 powi ?e"
    by (simp add: le_divide_eq mult.commute)
  moreover have c: "2 powi (p - 1) = (of_int (2 ^ nat (p - 1)) :: rat)"
    using assms by (simp add: power_int_def)
  ultimately have "2 ^ nat (p - 1) \<le> rne (x / 2 powi ?e)" using rne_mono rne_of_int by metis
  then have "2 powi (p - 1) \<le> (of_int (rne (x / 2 powi ?e)) :: rat)" using c by (metis of_int_le_iff)
  then show ?thesis using assms \<open>2 powi (?e + p - 1) = 2 powi ?e * 2 powi (p - 1)\<close>
    by (simp add: round_to_def Let_def mult.commute)
qed

lemma round_to_nonneg: "0 \<le> x \<Longrightarrow> 0 \<le> round_to p emin x"
proof -
  assume "0 \<le> x"
  then have "0 \<le> x / 2 powi round_exp p emin x" by simp
  then have "rne 0 \<le> rne (x / 2 powi round_exp p emin x)" by (rule rne_mono)
  then have "0 \<le> rne (x / 2 powi round_exp p emin x)" using rne_of_int[of 0] by simp
  then show ?thesis by (auto simp: round_to_def Let_def)
qed

lemma round_to_mono_pos:
  assumes "0 < x" "x \<le> y" "1 \<le> p"
  shows "round_to p emin x \<le> round_to p emin y"
proof (cases "round_exp p emin x = round_exp p emin y")
  case True
  have "x / 2 powi round_exp p emin x \<le> y / 2 powi round_exp p emin x"
    using assms by (intro divide_right_mono) auto
  from rne_mono[OF this] True assms show ?thesis
    by (simp add: round_to_def Let_def mult_right_mono)
next
  case False
  have le: "round_exp p emin x \<le> round_exp p emin y"
    using ilog2_mono[OF assms(1,2)] assms by (auto simp: round_exp_def)
  with False have lt: "round_exp p emin x + 1 \<le> round_exp p emin y" by simp
  have "emin \<le> round_exp p emin x" by (simp add: round_exp_def)
  with lt have "emin < round_exp p emin y" by simp
  have "round_to p emin x \<le> 2 powi (round_exp p emin x + p)" using assms by (intro round_to_upper)
  also have "(2::rat) powi (round_exp p emin x + p) \<le> 2 powi (round_exp p emin y + p - 1)"
    using lt by (intro power_int_increasing) auto
  also have "\<dots> \<le> round_to p emin y"
    using assms \<open>emin < round_exp p emin y\<close> by (intro round_to_lower) auto
  finally show ?thesis .
qed

lemma round_to_mono:
  assumes "x \<le> y" "1 \<le> p"
  shows "round_to p emin x \<le> round_to p emin y"
proof -
  consider "0 < x" | "x \<le> 0" "0 \<le> y" | "y < 0" using assms by linarith
  then show ?thesis
  proof cases
    case 1
    then show ?thesis using assms by (intro round_to_mono_pos)
  next
    case 2
    have "0 \<le> round_to p emin (- x)" using 2 by (intro round_to_nonneg) simp
    moreover have "0 \<le> round_to p emin y" using 2 by (intro round_to_nonneg)
    ultimately show ?thesis by (simp add: round_to_minus)
  next
    case 3
    then have "round_to p emin (- y) \<le> round_to p emin (- x)"
      using assms by (intro round_to_mono_pos) auto
    then show ?thesis by (simp add: round_to_minus)
  qed
qed

lemma round_to_0 [simp]: "round_to p emin 0 = 0"
  by (simp add: round_to_def)

lemma round_to_exact:
  assumes "x = of_int m * 2 powi e" "\<bar>of_int m\<bar> < (2::rat) powi p" "emin \<le> e"
  shows "round_to p emin x = x"
proof (cases "x = 0")
  case False
  let ?r = "round_exp p emin x"
  have "\<bar>x\<bar> < 2 powi p * 2 powi e" using assms(1,2) by (simp add: abs_mult)
  then have "\<bar>x\<bar> < 2 powi (p + e)" by (simp add: power_int_add)
  then have "\<not> p + e \<le> ilog2 \<bar>x\<bar>" using False by (simp add: ilog2_ge_iff)
  with assms(3) have "?r \<le> e" by (simp add: round_exp_def)
  then have "x / 2 powi ?r = of_int m * 2 powi (e - ?r)"
    by (simp add: assms(1) power_int_diff)
  also have "\<dots> = of_int (m * 2 ^ nat (e - ?r))" using \<open>?r \<le> e\<close> by (simp add: power_int_def)
  finally have "rne (x / 2 powi ?r) = m * 2 ^ nat (e - ?r)" by (metis rne_of_int)
  then have "round_to p emin x = of_int (m * 2 ^ nat (e - ?r)) * 2 powi ?r"
    using False by (simp add: round_to_def Let_def)
  also have "\<dots> = of_int m * (2 powi (e - ?r) * 2 powi ?r)"
    using \<open>?r \<le> e\<close> by (simp add: power_int_def)
  finally show ?thesis by (simp add: assms(1) flip: power_int_add)
qed simp

lemma to_f64_exact:
  assumes "x = of_int m * 2 powi e" "\<bar>of_int m\<bar> < (2::rat) powi 53" "- 1074 \<le> e" "\<bar>x\<bar> < 2 powi 1024"
  shows "to_f64 x = Fin x"
  using round_to_exact[OF assms(1,2,3)] assms(4) by (auto simp: to_f64_def pack_cases Let_def)

lemma to_f64_of_nat: "n < 2 ^ 53 \<Longrightarrow> to_f64 (of_nat n) = Fin (of_nat n)"
proof -
  assume n: "n < 2 ^ 53"
  then have "(of_nat n :: rat) < 2 powi 53" by (simp add: power_int_def flip: of_nat_less_iff)
  moreover have "(2::rat) powi 53 \<le> 2 powi 1024" by (intro power_int_increasing) auto
  ultimately show ?thesis
    by (intro to_f64_exact[where m = "int n" and e = 0]) auto
qed

lemma to_f64_0 [simp]: "to_f64 0 = Fin 0" and to_f64_1 [simp]: "to_f64 1 = Fin 1"
  using to_f64_of_nat[of 0] to_f64_of_nat[of 1] by simp_all

lemma to_f64_2: "to_f64 2 = Fin 2"
  using to_f64_of_nat[of 2] by simp

lemma half_exact: "to_f64 (1 / 2) = Fin (1 / 2)"
  by (rule to_f64_exact[where m = 1 and e = "- 1"]) (simp_all add: power_int_def)

lemma to_f64_not_NaN [simp]: "to_f64 x \<noteq> NaN" and to_f32_not_NaN [simp]: "to_f32 x \<noteq> NaN"
  by (simp_all add: to_f64_def to_f32_def pack_def Let_def)

section \<open>Order and arithmetic on values\<close>

lemma flt_irrefl [simp]: "\<not> flt a a"
  by (cases a) auto

lemma flt_NaN [simp]: "\<not> flt a NaN"
  by (cases a) auto

lemma fle_NaN [simp]: "\<not> fle a NaN" "\<not> fle NaN a"
  by (cases a; simp add: fle_def)+

lemma fle_Fin [simp]: "fle (Fin x) (Fin y) \<longleftrightarrow> x \<le> y"
  by (auto simp: fle_def)

lemma flt_trans: "flt a b \<Longrightarrow> flt b c \<Longrightarrow> flt a c"
  by (cases a; cases b; cases c) auto

lemma fle_trans: "fle a b \<Longrightarrow> fle b c \<Longrightarrow> fle a c"
  by (cases a; cases b; cases c) (auto simp: fle_def)

lemma not_flt_iff: "a \<noteq> NaN \<Longrightarrow> b \<noteq> NaN \<Longrightarrow> \<not> flt a b \<longleftrightarrow> fle b a"
  by (cases a; cases b) (auto simp: fle_def)

lemma fle_refl: "a \<noteq> NaN \<Longrightarrow> fle a a"
  by (cases a) (auto simp: fle_def)

lemma to_f64_mono: "x \<le> y \<Longrightarrow> fle (to_f64 x) (to_f64 y)"
proof -
  assume "x \<le> y"
  then have m: "round_to 53 (- 1074) x \<le> round_to 53 (- 1074) y" by (rule round_to_mono) simp
  have pos: "(0::rat) < 2 powi 1024" by simp
  define t where "t = (2::rat) powi 1024"
  with m pos show ?thesis
    by (auto simp: to_f64_def pack_cases Let_def fle_def simp flip: t_def)
qed

lemma fclamp_unit: "x \<noteq> NaN \<Longrightarrow> \<exists>r. fclamp x (Fin 0) (Fin 1) = Fin r \<and> 0 \<le> r \<and> r \<le> 1"
  by (cases x) (auto simp: fclamp_def)


lemma fsub_Fin: "fsub (Fin x) (Fin y) = to_f64 (x - y)"
  by (simp add: fsub_def)

lemma fsub_antimono: "x \<le> y \<Longrightarrow> fle (fsub (Fin t) (Fin y)) (fsub (Fin t) (Fin x))"
  by (simp add: fsub_Fin to_f64_mono)

lemma fadd_mono_Fin: "x \<le> y \<Longrightarrow> fle (fadd (Fin t) (Fin x)) (fadd (Fin t) (Fin y))"
  by (simp add: to_f64_mono)

lemma fmax_mono: "fle a b \<Longrightarrow> fle (fmax a (Fin c)) (fmax b (Fin c))"
  by (cases a; cases b) (auto simp: fmax_def fle_def)

lemma fdiv_mono_pos:
  assumes "fle a b" "0 < t" shows "fle (fdiv a (Fin t)) (fdiv b (Fin t))"
proof (cases "\<exists>x y. a = Fin x \<and> b = Fin y")
  case True
  with assms show ?thesis by (auto intro!: to_f64_mono divide_right_mono)
next
  case False
  have "fle NInf c" "fle c PInf" if "c \<noteq> NaN" for c
    using that by (cases c; simp add: fle_def)+
  moreover have "\<not> fle PInf (Fin x)" "\<not> fle (Fin x) NInf" for x by (simp_all add: fle_def)
  ultimately show ?thesis using False assms by (cases a; cases b) auto
qed

lemma fsub_self: "fmax (fsub a a) (Fin 0) = Fin 0"
  by (cases a) (auto simp: fsub_def fmax_def)

lemma fdiv_0: "\<not> fle t (Fin 0) \<Longrightarrow> fdiv (Fin 0) t = Fin 0 \<or> fdiv (Fin 0) t = NaN"
  by (cases t) auto

lemma fle_Fin_NaN_iff [simp]: "fle (Fin x) NaN \<longleftrightarrow> False"
  by simp

lemma to_f64_pos: "0 \<le> x \<Longrightarrow> fle (Fin 0) (to_f64 x)"
  using to_f64_mono[of 0 x] by simp

end
