(* ===== verification/Contracts.thy ===== *)
theory Contracts
  imports Float64
begin

text \<open>
  The contract types every crate exchanges (\<open>aaf-contracts\<close>): capability contracts, intent
  envelopes, tasks and their state machine, policy decisions, trust levels, traces, observations,
  artifacts and learned rules. A struct is a record whose fields carry a short prefix (Isabelle
  record fields share one name space). Error messages that print a float or a debug form keep the
  printed values as constructor arguments instead of the rendered text.
\<close>

text \<open>The JSON values of \<open>serde_json\<close>; a number is an integer (at most 64 bits wide) or a float. Below
  are assignment to a string index of an object, \<open>Value::get\<close>, indexing with a string, \<open>as_str\<close>,
  \<open>as_array\<close> and \<open>as_u64\<close>.\<close>

datatype json = JNull | JBool bool | JInt int | JFloat f64 | JString string | JArray "json list"
  | JObject "(string \<times> json) list"

text \<open>A \<open>serde_json::Map\<close> keeps its keys in order.\<close>

definition json_object :: "(string \<times> json) list \<Rightarrow> json" where
  "json_object kvs = JObject (sort_key fst kvs)"

fun json_set :: "json \<Rightarrow> string \<Rightarrow> json \<Rightarrow> json" where
  "json_set (JObject m) k v = json_object (AList.update k v m)"
| "json_set j k v = j"

fun json_get :: "json \<Rightarrow> string \<Rightarrow> json option" where
  "json_get (JObject m) k = map_of m k"
| "json_get _ k = None"

definition json_index :: "json \<Rightarrow> string \<Rightarrow> json" where
  "json_index v k = (case json_get v k of Some x \<Rightarrow> x | None \<Rightarrow> JNull)"

fun json_as_str :: "json \<Rightarrow> string option" where
  "json_as_str (JString s) = Some s"
| "json_as_str _ = None"

fun json_as_array :: "json \<Rightarrow> json list option" where
  "json_as_array (JArray vs) = Some vs"
| "json_as_array _ = None"

fun json_as_u64 :: "json \<Rightarrow> u64 option" where
  "json_as_u64 (JInt n) = (if 0 \<le> n \<and> n < 2 ^ 64 then Some (of_int n) else None)"
| "json_as_u64 _ = None"

section \<open>Capabilities\<close>

datatype side_effect = SE_None | SE_Read | SE_Write | SE_Delete | SE_Send | SE_Payment

definition requires_compensation :: "side_effect \<Rightarrow> bool" where
  "requires_compensation se =
     (case se of SE_Write \<Rightarrow> True | SE_Delete \<Rightarrow> True | SE_Send \<Rightarrow> True | SE_Payment \<Rightarrow> True | _ \<Rightarrow> False)"

datatype data_classification = DC_Public | DC_Internal | DC_Confidential | DC_Restricted

datatype endpoint_kind = Grpc | Http | InProcess | Mcp | A2a

record capability_endpoint =
  ep_kind :: endpoint_kind
  ep_address :: string
  ep_method :: "string option"

record capability_sla =
  latency_p50_ms :: u64
  latency_p99_ms :: u64
  availability :: f64

record capability_cost =
  per_request :: f64
  currency :: string

datatype degradation_level = DL_Full | DL_Partial | DL_Cached | DL_Unavailable

record degradation_spec =
  ds_level :: degradation_level
  ds_description :: string
  ds_trigger :: "string option"
  ds_fallback :: "string option"

record compensation_spec =
  comp_endpoint :: string

record entity_version_lite =
  ev_major :: u32
  ev_minor :: u32
  ev_patch :: u32

definition entity_version_default :: entity_version_lite where
  "entity_version_default = \<lparr>ev_major = 0, ev_minor = 1, ev_patch = 0\<rparr>"

record entity_ref_lite =
  er_entity_id :: string
  er_version :: entity_version_lite
  er_tenant :: "string option"
  er_local_id :: "string option"

definition entity_ref_new :: "string \<Rightarrow> entity_ref_lite" where
  "entity_ref_new e =
     \<lparr>er_entity_id = e, er_version = entity_version_default, er_tenant = None, er_local_id = None\<rparr>"

record event_ref_lite =
  evr_id :: string
  evr_version :: entity_version_lite

record entity_scope_lite =
  es_expression :: string

datatype attestation_level = Unattested | AutoVerified | HumanReviewed | Certified

fun attestation_rank :: "attestation_level \<Rightarrow> nat" where
  "attestation_rank Unattested = 0"
| "attestation_rank AutoVerified = 1"
| "attestation_rank HumanReviewed = 2"
| "attestation_rank Certified = 3"

instantiation attestation_level :: linorder
begin

definition less_eq_attestation_level :: "attestation_level \<Rightarrow> attestation_level \<Rightarrow> bool" where
  "less_eq_attestation_level a b \<longleftrightarrow> attestation_rank a \<le> attestation_rank b"

definition less_attestation_level :: "attestation_level \<Rightarrow> attestation_level \<Rightarrow> bool" where
  "less_attestation_level a b \<longleftrightarrow> attestation_rank a < attestation_rank b"

instance
proof
  fix x y z :: attestation_level
  show "x \<le> y \<Longrightarrow> y \<le> x \<Longrightarrow> x = y"
    by (cases x; cases y) (auto simp: less_eq_attestation_level_def)
qed (auto simp: less_eq_attestation_level_def less_attestation_level_def)

end

datatype learned_source = LS_Miner | LS_Human | LS_Hybrid

record learned_rule_ref =
  lr_learned_rule_id :: string
  lr_learned_by :: learned_source
  lr_learned_at :: timestamp
  lr_evidence_count :: u32

record capability_contract =
  cap_id :: string
  cap_name :: string
  cap_description :: string
  cap_version :: string
  cap_provider_agent :: string
  cap_endpoint :: capability_endpoint
  cap_input_schema :: json
  cap_output_schema :: json
  cap_side_effect :: side_effect
  cap_idempotent :: bool
  cap_reversible :: bool
  cap_deterministic :: bool
  cap_compensation :: "compensation_spec option"
  cap_sla :: capability_sla
  cap_cost :: capability_cost
  cap_required_scope :: string
  cap_data_classification :: data_classification
  cap_degradation :: "degradation_spec list"
  cap_depends_on :: "string list"
  cap_conflicts_with :: "string list"
  cap_tags :: "string list"
  cap_domains :: "string list"
  cap_reads :: "entity_ref_lite list"
  cap_writes :: "entity_ref_lite list"
  cap_emits :: "event_ref_lite list"
  cap_entity_scope :: "entity_scope_lite option"
  cap_required_attestation_level :: "attestation_level option"
  cap_reputation :: f32
  cap_learned_rules :: "learned_rule_ref list"

datatype contract_error =
    MissingField string
  | InvalidField string string
  | DepthExceeded u32 u32
  | InvalidBudget f64
  | MissingCompensation string side_effect

definition validate_capability :: "capability_contract \<Rightarrow> (unit, contract_error) result" where
  "validate_capability c =
     (if trim (cap_name c) = [] then Err (MissingField ''name'')
      else if trim (cap_version c) = [] then Err (MissingField ''version'')
      else if requires_compensation (cap_side_effect c) \<and> cap_compensation c = None
      then Err (MissingCompensation (cap_id c) (cap_side_effect c))
      else Ok ())"

section \<open>Intents\<close>

definition MAX_DEPTH :: u32 where
  "MAX_DEPTH = 5"

datatype intent_type = TransactionalIntent | AnalyticalIntent | PlanningIntent | DelegationIntent
  | GovernanceIntent

datatype risk_tier = RT_Read | RT_Write | RT_Advisory | RT_Delegation | RT_Governance

record requester =
  rq_user_id :: string
  rq_role :: string
  rq_scopes :: "string list"
  rq_tenant :: "string option"

record budget_contract =
  max_tokens :: u64
  max_cost_usd :: f64
  max_latency_ms :: u64

definition validate_budget :: "budget_contract \<Rightarrow> (unit, contract_error) result" where
  "validate_budget b =
     (if \<not> is_finite_f (max_cost_usd b) \<or> flt (max_cost_usd b) (Fin 0)
      then Err (InvalidBudget (max_cost_usd b)) else Ok ())"

record output_contract =
  oc_format :: string
  oc_schema_ref :: "string option"

record intent_envelope =
  int_id :: string
  int_type :: intent_type
  int_requester :: requester
  int_goal :: string
  int_domain :: string
  int_constraints :: "(string \<times> json) list"
  int_budget :: budget_contract
  int_deadline :: "timestamp option"
  int_risk_tier :: risk_tier
  int_approval_policy :: string
  int_output_contract :: "output_contract option"
  int_trace_id :: string
  int_depth :: u32
  int_created_at :: timestamp
  int_entities_in_context :: "entity_ref_lite list"

definition validate_intent :: "intent_envelope \<Rightarrow> (unit, contract_error) result" where
  "validate_intent i =
     (if trim (int_goal i) = [] then Err (MissingField ''goal'')
      else if trim (int_domain i) = [] then Err (MissingField ''domain'')
      else if int_depth i > MAX_DEPTH then Err (DepthExceeded (int_depth i) MAX_DEPTH)
      else validate_budget (int_budget i))"

text \<open>\<open>delegate\<close>; the fresh child identifier is the first argument.\<close>

definition delegate_intent :: "string \<Rightarrow> intent_envelope \<Rightarrow> (intent_envelope, contract_error) result" where
  "delegate_intent fresh i =
     (let child = i\<lparr>int_id := fresh, int_depth := int_depth i + 1\<rparr>
      in if int_depth child > MAX_DEPTH then Err (DepthExceeded (int_depth child) MAX_DEPTH)
         else Ok child)"

section \<open>Policy decisions\<close>

datatype policy_severity = PS_Info | PS_Warning | PS_Error | PS_Fatal

fun severity_rank :: "policy_severity \<Rightarrow> nat" where
  "severity_rank PS_Info = 0"
| "severity_rank PS_Warning = 1"
| "severity_rank PS_Error = 2"
| "severity_rank PS_Fatal = 3"

instantiation policy_severity :: linorder
begin

definition less_eq_policy_severity :: "policy_severity \<Rightarrow> policy_severity \<Rightarrow> bool" where
  "less_eq_policy_severity a b \<longleftrightarrow> severity_rank a \<le> severity_rank b"

definition less_policy_severity :: "policy_severity \<Rightarrow> policy_severity \<Rightarrow> bool" where
  "less_policy_severity a b \<longleftrightarrow> severity_rank a < severity_rank b"

instance
proof
  fix x y z :: policy_severity
  show "x \<le> y \<Longrightarrow> y \<le> x \<Longrightarrow> x = y"
    by (cases x; cases y) (auto simp: less_eq_policy_severity_def)
qed (auto simp: less_eq_policy_severity_def less_policy_severity_def)

end

datatype rule_kind = ScopeCheck | SideEffectGate | BudgetControl | PiiGuard | InjectionGuard
  | CompositionSafety | BoundaryEnforcement

text \<open>The message of a violation, as the format string's arguments.\<close>

datatype violation_message =
    MsgMissingScope string string
  | MsgNeedsApproval side_effect
  | MsgBudgetExhausted f64 f64
  | MsgBudgetWarning f64 f64 f64
  | MsgPii "string list"
  | MsgInjection string
  | MsgComposition u32 u32
  | MsgTenantMismatch string string
  | MsgClassificationScope data_classification string
  | MsgClassificationFlow string data_classification string
  | MsgWriteTenant string string string string
  | MsgText string

record policy_violation =
  pv_rule_id :: string
  pv_kind :: rule_kind
  pv_severity :: policy_severity
  pv_message :: violation_message

datatype policy_decision =
    Allow
  | AllowWithWarnings "policy_violation list"
  | RequireApproval "policy_violation list"
  | Deny "policy_violation list"

definition is_allowed :: "policy_decision \<Rightarrow> bool" where
  "is_allowed d = (case d of Allow \<Rightarrow> True | AllowWithWarnings _ \<Rightarrow> True | _ \<Rightarrow> False)"

section \<open>Trust levels\<close>

datatype autonomy_level = Level1 | Level2 | Level3 | Level4 | Level5

fun as_u8 :: "autonomy_level \<Rightarrow> u8" where
  "as_u8 Level1 = 1"
| "as_u8 Level2 = 2"
| "as_u8 Level3 = 3"
| "as_u8 Level4 = 4"
| "as_u8 Level5 = 5"

definition from_u8 :: "u8 \<Rightarrow> autonomy_level" where
  "from_u8 n = (if n = 0 \<or> n = 1 then Level1 else if n = 2 then Level2 else if n = 3 then Level3
                else if n = 4 then Level4 else Level5)"

record trust_score =
  ts_value :: f64
  ts_autonomy :: autonomy_level

definition trust_initial :: trust_score where
  "trust_initial = \<lparr>ts_value = to_f64 (1 / 2), ts_autonomy = Level1\<rparr>"

definition trust_clamped :: "f64 \<Rightarrow> f64" where
  "trust_clamped v = (if v = NaN then Fin 0 else fclamp v (Fin 0) (Fin 1))"

section \<open>Tasks\<close>

datatype task_state = TS_Proposed | TS_WaitingForContext | TS_Ready | TS_Running
  | TS_PausedForApproval | TS_Blocked | TS_Analyzing | TS_Recovering | TS_Completed | TS_Failed
  | TS_Cancelled | TS_Compensated | TS_ProposedMutation | TS_AppReview | TS_Accepted | TS_Rejected
  | TS_Transformed | TS_Expired

definition is_terminal :: "task_state \<Rightarrow> bool" where
  "is_terminal s = (s \<in> {TS_Completed, TS_Failed, TS_Cancelled, TS_Compensated, TS_Rejected, TS_Expired})"

fun can_transition_to :: "task_state \<Rightarrow> task_state \<Rightarrow> bool" where
  "can_transition_to TS_Proposed n = (n \<in> {TS_WaitingForContext, TS_Ready, TS_ProposedMutation})"
| "can_transition_to TS_WaitingForContext n = (n = TS_Ready)"
| "can_transition_to TS_Ready n = (n = TS_Running)"
| "can_transition_to TS_Blocked n = (n = TS_Running)"
| "can_transition_to TS_PausedForApproval n = (n = TS_Running \<or> n = TS_Cancelled)"
| "can_transition_to TS_Accepted n = (n = TS_Running)"
| "can_transition_to TS_Transformed n = (n = TS_Running)"
| "can_transition_to TS_Running n =
     (n \<in> {TS_PausedForApproval, TS_Blocked, TS_Failed, TS_Completed, TS_Cancelled})"
| "can_transition_to TS_Failed n = (n = TS_Analyzing)"
| "can_transition_to TS_Analyzing n = (n = TS_Recovering)"
| "can_transition_to TS_Recovering n = (n \<in> {TS_Running, TS_Completed, TS_Compensated, TS_Failed})"
| "can_transition_to TS_ProposedMutation n = (n = TS_AppReview)"
| "can_transition_to TS_AppReview n = (n \<in> {TS_Accepted, TS_Rejected, TS_Transformed, TS_Expired})"
| "can_transition_to TS_Rejected n = (n = TS_Cancelled)"
| "can_transition_to TS_Expired n = (n = TS_Cancelled)"
| "can_transition_to _ n = False"

record task =
  task_id :: string
  task_intent_id :: string
  task_state_of :: task_state
  task_assigned_agent :: "string option"
  task_checkpoint_id :: "string option"
  task_remaining_budget_usd :: f64
  task_remaining_time_ms :: u64
  task_created_at :: timestamp
  task_updated_at :: timestamp

definition task_new :: "string \<Rightarrow> timestamp \<Rightarrow> string \<Rightarrow> f64 \<Rightarrow> u64 \<Rightarrow> task" where
  "task_new fresh now intent_id budget_usd time_ms =
     \<lparr>task_id = fresh, task_intent_id = intent_id, task_state_of = TS_Proposed,
      task_assigned_agent = None, task_checkpoint_id = None,
      task_remaining_budget_usd = budget_usd, task_remaining_time_ms = time_ms,
      task_created_at = now, task_updated_at = now\<rparr>"

definition task_transition :: "timestamp \<Rightarrow> task \<Rightarrow> task_state \<Rightarrow> task \<times> bool" where
  "task_transition now t n =
     (if can_transition_to (task_state_of t) n
      then (t\<lparr>task_state_of := n, task_updated_at := now\<rparr>, True) else (t, False))"


section \<open>Observations, traces and artifacts\<close>

record observed_source =
  os_source :: string
  os_data_summary :: string
  os_retrieval_method :: string

datatype step_outcome = SO_Success | SO_Failure | SO_Skipped | SO_Compensated | SO_Pending

datatype outcome_status = OS_Succeeded | OS_Failed | OS_Partial | OS_Escalated | OS_RolledBack

datatype feedback_rating = FR_Positive | FR_Neutral | FR_Negative

record user_feedback =
  uf_rating :: feedback_rating
  uf_edit_distance :: "u32 option"
  uf_free_text :: "string option"

record downstream_error =
  de_at_step_id :: string
  de_error_code :: string

record semantic_score =
  ss_judge_model :: string
  ss_score :: f64
  ss_reasoning_ref :: "string option"

record policy_violation_ref =
  pvr_rule_id :: string
  pvr_severity :: string

record outcome =
  oc_status :: outcome_status
  oc_latency_ms :: u64
  oc_tokens_used :: u32
  oc_cost_usd :: f64
  oc_policy_violations :: "policy_violation_ref list"
  oc_user_feedback :: "user_feedback option"
  oc_downstream_error :: "downstream_error option"
  oc_semantic_score :: "semantic_score option"

definition outcome_minimal :: "outcome_status \<Rightarrow> u64 \<Rightarrow> u32 \<Rightarrow> f64 \<Rightarrow> outcome" where
  "outcome_minimal st lat tok cost =
     \<lparr>oc_status = st, oc_latency_ms = lat, oc_tokens_used = tok, oc_cost_usd = cost,
      oc_policy_violations = [], oc_user_feedback = None, oc_downstream_error = None,
      oc_semantic_score = None\<rparr>"

record observation =
  ob_trace_id :: string
  ob_node_id :: string
  ob_step :: u32
  ob_agent :: string
  ob_observed :: "observed_source list"
  ob_reasoning :: string
  ob_decision :: string
  ob_confidence :: f64
  ob_alternatives :: "string list"
  ob_outcome :: step_outcome
  ob_recorded_at :: timestamp
  ob_outcome_detail :: "outcome option"

definition observation_minimal ::
  "timestamp \<Rightarrow> string \<Rightarrow> string \<Rightarrow> u32 \<Rightarrow> string \<Rightarrow> step_outcome \<Rightarrow> observation" where
  "observation_minimal now tr nd st ag oc =
     \<lparr>ob_trace_id = tr, ob_node_id = nd, ob_step = st, ob_agent = ag, ob_observed = [],
      ob_reasoning = [], ob_decision = [], ob_confidence = Fin 0, ob_alternatives = [],
      ob_outcome = oc, ob_recorded_at = now, ob_outcome_detail = None\<rparr>"

definition attach_outcome :: "observation \<Rightarrow> outcome \<Rightarrow> observation" where
  "attach_outcome ob oc = ob\<lparr>ob_outcome_detail := Some oc\<rparr>"

datatype trace_status = Tr_Running | Tr_Completed | Tr_Failed | Tr_Cancelled | Tr_Partial

record trace_step =
  tst_step :: u32
  tst_node_id :: string
  tst_step_type :: string
  tst_model :: "string option"
  tst_tokens_in :: u64
  tst_tokens_out :: u64
  tst_cost_usd :: f64
  tst_duration_ms :: u64
  tst_observation :: observation

record execution_trace =
  tr_trace_id :: string
  tr_intent_id :: string
  tr_started_at :: timestamp
  tr_completed_at :: "timestamp option"
  tr_total_cost_usd :: f64
  tr_status :: trace_status
  tr_steps :: "trace_step list"

definition trace_open :: "timestamp \<Rightarrow> string \<Rightarrow> string \<Rightarrow> execution_trace" where
  "trace_open now tid iid =
     \<lparr>tr_trace_id = tid, tr_intent_id = iid, tr_started_at = now, tr_completed_at = None,
      tr_total_cost_usd = Fin 0, tr_status = Tr_Running, tr_steps = []\<rparr>"

definition trace_record :: "execution_trace \<Rightarrow> trace_step \<Rightarrow> execution_trace" where
  "trace_record t s =
     t\<lparr>tr_total_cost_usd := fadd (tr_total_cost_usd t) (tst_cost_usd s), tr_steps := tr_steps t @ [s]\<rparr>"

definition trace_close :: "timestamp \<Rightarrow> execution_trace \<Rightarrow> trace_status \<Rightarrow> execution_trace" where
  "trace_close now t st = t\<lparr>tr_status := st, tr_completed_at := Some now\<rparr>"

record artifact_provenance =
  ap_intent_id :: string
  ap_task_id :: string
  ap_trace_id :: string
  ap_producing_agent :: string
  ap_capability :: string
  ap_data_sources :: "string list"
  ap_model_used :: "string option"

record artifact =
  art_id :: string
  art_type :: string
  art_content :: json
  art_rendered :: "string option"
  art_provenance :: artifact_provenance
  art_confidence :: f64
  art_policy_tags :: "string list"
  art_content_hash :: "string option"
  art_signature :: "string option"
  art_created_at :: timestamp
  art_expires_at :: "timestamp option"
  art_version :: u32
  art_derived_from :: "entity_ref_lite list"

definition artifact_new :: "string \<Rightarrow> timestamp \<Rightarrow> string \<Rightarrow> json \<Rightarrow> artifact_provenance \<Rightarrow> artifact" where
  "artifact_new fresh now ty c p =
     \<lparr>art_id = fresh, art_type = ty, art_content = c, art_rendered = None, art_provenance = p,
      art_confidence = Fin 0, art_policy_tags = [], art_content_hash = None, art_signature = None,
      art_created_at = now, art_expires_at = None, art_version = 1, art_derived_from = []\<rparr>"

section \<open>Learned rules\<close>

datatype learned_approval_state = LA_Proposed | LA_Approved | LA_Rejected | LA_RolledBack

record learned_rule =
  lru_id :: string
  lru_source :: learned_source
  lru_evidence :: "string list"
  lru_approval_state :: learned_approval_state
  lru_scope :: string
  lru_proposed_at :: timestamp
  lru_updated_at :: "timestamp option"

definition learned_propose ::
  "timestamp \<Rightarrow> string \<Rightarrow> learned_source \<Rightarrow> string list \<Rightarrow> string \<Rightarrow> learned_rule" where
  "learned_propose now i src ev sc =
     \<lparr>lru_id = i, lru_source = src, lru_evidence = ev, lru_approval_state = LA_Proposed,
      lru_scope = sc, lru_proposed_at = now, lru_updated_at = None\<rparr>"

definition learned_approve :: "timestamp \<Rightarrow> learned_rule \<Rightarrow> learned_rule" where
  "learned_approve now r = r\<lparr>lru_approval_state := LA_Approved, lru_updated_at := Some now\<rparr>"

definition learned_reject :: "timestamp \<Rightarrow> learned_rule \<Rightarrow> learned_rule" where
  "learned_reject now r = r\<lparr>lru_approval_state := LA_Rejected, lru_updated_at := Some now\<rparr>"

definition learned_rollback :: "timestamp \<Rightarrow> learned_rule \<Rightarrow> learned_rule" where
  "learned_rollback now r = r\<lparr>lru_approval_state := LA_RolledBack, lru_updated_at := Some now\<rparr>"

definition is_live :: "learned_rule \<Rightarrow> bool" where
  "is_live r \<longleftrightarrow> lru_approval_state r = LA_Approved"

record routing_decision_record =
  rd_call_id :: string
  rd_intent_type :: string
  rd_risk_tier :: string
  rd_model_chosen :: string
  rd_cost_usd :: f64
  rd_quality_score :: f64
  rd_outcome :: string
  rd_recorded_at :: timestamp

record reputation_update =
  ru_capability_id :: string
  ru_old_score :: f32
  ru_new_score :: f32
  ru_evidence_ref :: learned_rule_ref
  ru_updated_at :: timestamp

section \<open>Handoffs\<close>

record token_claims_lite =
  tcl_issuer :: string
  tcl_subject :: string
  tcl_scope :: "string list"
  tcl_depth_remaining :: u8
  tcl_not_before :: timestamp
  tcl_expires_at :: timestamp
  tcl_jti :: string

record capability_token_lite =
  ctl_claims :: token_claims_lite
  ctl_signature :: string

record handoff =
  ho_handoff_id :: string
  ho_from_agent :: string
  ho_to_agent :: string
  ho_task_id :: string
  ho_question :: string
  ho_constraints :: "string list"
  ho_available_data :: "string list"
  ho_prohibited :: "string list"
  ho_expected_artifact :: "string option"
  ho_deadline :: "timestamp option"
  ho_effective_trust_level :: u8
  ho_created_at :: timestamp
  ho_capability_token :: "capability_token_lite option"

section \<open>Tools\<close>

record tool_definition =
  td_name :: string
  td_description :: string
  td_input_schema :: json
  td_output_schema :: json
  td_side_effect :: side_effect
  td_capability_id :: string

datatype tool_choice = TC_Auto | TC_None | TC_Specific string

datatype stop_reason = EndTurn | ToolUse | MaxTokens | BudgetExhausted | Cancelled

record tool_use_block =
  tu_id :: string
  tu_name :: string
  tu_input :: json

record tool_result_block =
  trb_tool_use_id :: string
  trb_content :: string
  trb_is_error :: bool

definition tool_of_capability :: "capability_contract \<Rightarrow> tool_definition" where
  "tool_of_capability c =
     \<lparr>td_name = cap_name c, td_description = cap_description c,
      td_input_schema = cap_input_schema c, td_output_schema = cap_output_schema c,
      td_side_effect = cap_side_effect c, td_capability_id = cap_id c\<rparr>"

section \<open>Facts about the contracts\<close>

lemma requires_compensation_iff:
  "requires_compensation se \<longleftrightarrow> se \<in> {SE_Write, SE_Delete, SE_Send, SE_Payment}"
  by (cases se) (auto simp: requires_compensation_def)

lemma validate_capability_Ok_iff [contract_simps]:
  "validate_capability c = Ok () \<longleftrightarrow>
     trim (cap_name c) \<noteq> [] \<and> trim (cap_version c) \<noteq> [] \<and>
     (requires_compensation (cap_side_effect c) \<longrightarrow> cap_compensation c \<noteq> None)"
  by (auto simp: validate_capability_def)

lemma from_u8_as_u8 [simp]: "from_u8 (as_u8 l) = l"
  by (cases l) (simp_all add: from_u8_def)

lemma as_u8_range: "1 \<le> as_u8 l \<and> as_u8 l \<le> 5"
  by (cases l) simp_all

lemma as_u8_inj [simp]: "as_u8 a = as_u8 b \<longleftrightarrow> a = b"
  by (cases a; cases b) simp_all

instantiation autonomy_level :: linorder
begin

definition less_eq_autonomy_level :: "autonomy_level \<Rightarrow> autonomy_level \<Rightarrow> bool" where
  "less_eq_autonomy_level a b \<longleftrightarrow> as_u8 a \<le> as_u8 b"

definition less_autonomy_level :: "autonomy_level \<Rightarrow> autonomy_level \<Rightarrow> bool" where
  "less_autonomy_level a b \<longleftrightarrow> as_u8 a < as_u8 b"

instance
proof
  fix x y z :: autonomy_level
  show "x < y \<longleftrightarrow> x \<le> y \<and> \<not> y \<le> x"
    unfolding less_eq_autonomy_level_def less_autonomy_level_def by (rule less_le_not_le)
  show "x \<le> x" "x \<le> y \<or> y \<le> x"
    by (auto simp: less_eq_autonomy_level_def)
  show "x \<le> y \<Longrightarrow> y \<le> z \<Longrightarrow> x \<le> z"
    unfolding less_eq_autonomy_level_def by (rule order_trans)
  show "x \<le> y \<Longrightarrow> y \<le> x \<Longrightarrow> x = y"
    unfolding less_eq_autonomy_level_def by (metis as_u8_inj order_antisym)
qed

end

lemma autonomy_le_unat:
  "a \<le> b \<longleftrightarrow> unat (as_u8 a) \<le> unat (as_u8 b)" "a < b \<longleftrightarrow> unat (as_u8 a) < unat (as_u8 b)"
  by (simp_all add: less_eq_autonomy_level_def less_autonomy_level_def word_le_nat_alt word_less_nat_alt)

lemma trust_clamped_range: "\<exists>r. trust_clamped v = Fin r \<and> 0 \<le> r \<and> r \<le> 1"
  using fclamp_unit[of v] by (auto simp: trust_clamped_def)

section \<open>The task state machine\<close>

text \<open>
  A history of a task is the list of states it has gone through, newest first: it starts in
  \<open>Proposed\<close> (\<open>Task::new\<close>) and grows by accepted calls of \<open>Task::transition\<close>.
\<close>

inductive task_history :: "task_state list \<Rightarrow> bool" where
  history_new: "task_history [TS_Proposed]"
| history_step: "task_history (s # h) \<Longrightarrow> can_transition_to s n \<Longrightarrow> task_history (n # s # h)"

inductive_cases task_history_NilE: "task_history []"
inductive_cases task_history_ConsE: "task_history (s # h)"

lemma can_transition_from_review:
  "can_transition_to s TS_AppReview \<longleftrightarrow> s = TS_ProposedMutation"
  "can_transition_to s TS_Accepted \<longleftrightarrow> s = TS_AppReview"
  "can_transition_to s TS_Transformed \<longleftrightarrow> s = TS_AppReview"
  "can_transition_to s TS_Rejected \<longleftrightarrow> s = TS_AppReview"
  "can_transition_to s TS_Expired \<longleftrightarrow> s = TS_AppReview"
  "can_transition_to s TS_ProposedMutation \<longleftrightarrow> s = TS_Proposed"
  "\<not> can_transition_to s TS_Proposed"
  by (cases s; simp)+

lemma task_history_proposed_last: "task_history h \<Longrightarrow> last h = TS_Proposed"
  by (induction rule: task_history.induct) auto

text \<open>Once a mutation is proposed and not yet released by the application, only review states occur.\<close>

definition released :: "task_state list \<Rightarrow> bool" where
  "released h \<longleftrightarrow> TS_Accepted \<in> set h \<or> TS_Transformed \<in> set h"

lemma task_history_mutation_inv:
  "task_history h \<Longrightarrow> TS_ProposedMutation \<in> set h \<Longrightarrow> \<not> released h \<Longrightarrow>
     hd h \<in> {TS_ProposedMutation, TS_AppReview, TS_Rejected, TS_Expired, TS_Cancelled}
     \<and> TS_Running \<notin> set h"
proof (induction rule: task_history.induct)
  case history_new
  then show ?case by simp
next
  case (history_step s h n)
  show ?case
  proof (cases "TS_ProposedMutation \<in> set (s # h)")
    case True
    with history_step have "s \<in> {TS_ProposedMutation, TS_AppReview, TS_Rejected, TS_Expired, TS_Cancelled}"
      "TS_Running \<notin> set (s # h)" by (auto simp: released_def)
    with history_step.hyps(2) history_step.prems show ?thesis by (auto simp: released_def)
  next
    case False
    with history_step.prems have n: "n = TS_ProposedMutation" by auto
    with history_step.hyps(2) have "s = TS_Proposed" by (simp add: can_transition_from_review)
    have "h = []"
      by (rule task_history_ConsE[OF history_step.hyps(1)])
        (use \<open>s = TS_Proposed\<close> in \<open>simp_all add: can_transition_from_review\<close>)
    with n \<open>s = TS_Proposed\<close> show ?thesis by simp
  qed
qed


section \<open>Concrete instances\<close>

text \<open>A small capability, requester and intent, used to instantiate properties.\<close>

definition ex_capability :: capability_contract where
  "ex_capability =
     \<lparr>cap_id = ''cap-1'', cap_name = ''stock'', cap_description = ''stock level'',
      cap_version = ''1.0.0'', cap_provider_agent = ''agent-1'',
      cap_endpoint = \<lparr>ep_kind = Http, ep_address = ''addr'', ep_method = None\<rparr>,
      cap_input_schema = JNull, cap_output_schema = JNull, cap_side_effect = SE_Read,
      cap_idempotent = True, cap_reversible = False, cap_deterministic = True,
      cap_compensation = None,
      cap_sla = \<lparr>latency_p50_ms = 10, latency_p99_ms = 50, availability = Fin 1\<rparr>,
      cap_cost = \<lparr>per_request = Fin 0, currency = ''USD''\<rparr>, cap_required_scope = ''stock:read'',
      cap_data_classification = DC_Internal, cap_degradation = [], cap_depends_on = [],
      cap_conflicts_with = [], cap_tags = [], cap_domains = [''shop''], cap_reads = [],
      cap_writes = [], cap_emits = [], cap_entity_scope = None,
      cap_required_attestation_level = None, cap_reputation = to_f32 (1 / 2),
      cap_learned_rules = []\<rparr>"

definition ex_requester :: requester where
  "ex_requester = \<lparr>rq_user_id = ''u1'', rq_role = ''clerk'', rq_scopes = [''stock:read''],
     rq_tenant = Some ''t1''\<rparr>"

definition ex_budget :: budget_contract where
  "ex_budget = \<lparr>max_tokens = 1000, max_cost_usd = Fin 1, max_latency_ms = 5000\<rparr>"

definition ex_intent :: intent_envelope where
  "ex_intent =
     \<lparr>int_id = ''int-1'', int_type = AnalyticalIntent, int_requester = ex_requester,
      int_goal = ''show stock'', int_domain = ''shop'', int_constraints = [],
      int_budget = ex_budget, int_deadline = None, int_risk_tier = RT_Read,
      int_approval_policy = ''auto'', int_output_contract = None, int_trace_id = ''trace-1'',
      int_depth = 0, int_created_at = 0, int_entities_in_context = []\<rparr>"

lemmas ex_defs = ex_capability_def ex_requester_def ex_budget_def ex_intent_def

end
