(* ===== verification/Policy.thy ===== *)
theory Policy
  imports Contracts
begin

text \<open>
  The policy engine (\<open>aaf-policy\<close>): the seven rule families, the engine that runs them at four
  hooks and folds their violations into one decision, the three guards built on it, and the
  approval workflow. The \<open>Rule\<close> trait is a record of its three methods, so an engine is a list of
  such records. The regular-expression matcher (crate \<open>regex\<close>) is the parameter
  \<open>is_match\<close>: pattern first, text second.
\<close>

section \<open>Context\<close>

datatype policy_hook = PrePlan | PreStep | PostStep | PreArtifact

datatype entity_class = EC_Public | EC_Internal | EC_Pii | EC_Regulated string

definition entity_class_level :: "entity_class \<Rightarrow> nat" where
  "entity_class_level c =
     (case c of EC_Public \<Rightarrow> 0 | EC_Internal \<Rightarrow> 1 | EC_Pii \<Rightarrow> 2 | EC_Regulated _ \<Rightarrow> 3)"

record policy_context =
  ctx_intent :: intent_envelope
  ctx_capability :: "capability_contract option"
  ctx_requester :: requester
  ctx_payload :: "string option"
  ctx_output :: "string option"
  ctx_side_effect :: "side_effect option"
  ctx_remaining_budget :: budget_contract
  ctx_tenant :: "string option"
  ctx_composed_writes :: u32
  ctx_ontology_class_lookup :: "(string \<Rightarrow> entity_class option) option"

record rule =
  rule_id :: string
  rule_applicable_hooks :: "policy_hook list option"
  rule_evaluate :: "policy_context \<Rightarrow> policy_violation option"

section \<open>The rule families\<close>

definition scope_check_evaluate :: "policy_context \<Rightarrow> policy_violation option" where
  "scope_check_evaluate ctx =
     (case ctx_capability ctx of
        None \<Rightarrow> None
      | Some cap \<Rightarrow>
          let required = trim (cap_required_scope cap)
          in if required = [] then None
             else if required \<in> set (rq_scopes (ctx_requester ctx)) then None
             else Some \<lparr>pv_rule_id = ''scope-check'', pv_kind = ScopeCheck, pv_severity = PS_Error,
                        pv_message = MsgMissingScope required (cap_id cap)\<rparr>)"

definition effective_side_effect :: "policy_context \<Rightarrow> side_effect option" where
  "effective_side_effect ctx =
     (case ctx_side_effect ctx of
        Some se \<Rightarrow> Some se
      | None \<Rightarrow> map_option cap_side_effect (ctx_capability ctx))"

definition is_write_class :: "side_effect \<Rightarrow> bool" where
  "is_write_class se = (se \<in> {SE_Write, SE_Delete, SE_Send, SE_Payment})"

definition side_effect_gate_evaluate :: "policy_context \<Rightarrow> policy_violation option" where
  "side_effect_gate_evaluate ctx =
     (case effective_side_effect ctx of
        None \<Rightarrow> None
      | Some se \<Rightarrow>
          if \<not> is_write_class se then None
          else if ''auto-approve'' \<in> set (rq_scopes (ctx_requester ctx)) then None
          else Some \<lparr>pv_rule_id = ''side-effect-gate'', pv_kind = SideEffectGate,
                     pv_severity = PS_Warning, pv_message = MsgNeedsApproval se\<rparr>)"

definition DEFAULT_WARN_PCT :: f64 where
  "DEFAULT_WARN_PCT = to_f64 (4 / 5)"

definition budget_control_evaluate :: "f64 \<Rightarrow> policy_context \<Rightarrow> policy_violation option" where
  "budget_control_evaluate warn_at_pct ctx =
     (let total = max_cost_usd (int_budget (ctx_intent ctx));
          remaining = max_cost_usd (ctx_remaining_budget ctx)
      in if fle total (Fin 0) then None
         else let used = fmax (fsub total remaining) (Fin 0);
                  pct = fdiv used total
              in if fle remaining (Fin 0)
                 then Some \<lparr>pv_rule_id = ''budget-control'', pv_kind = BudgetControl,
                            pv_severity = PS_Error, pv_message = MsgBudgetExhausted used total\<rparr>
                 else if fle warn_at_pct pct
                 then Some \<lparr>pv_rule_id = ''budget-control'', pv_kind = BudgetControl,
                            pv_severity = PS_Warning,
                            pv_message = MsgBudgetWarning (fmul pct (Fin 100)) used total\<rparr>
                 else None)"

abbreviation bslash :: char where
  "bslash \<equiv> CHR 0x5C"

definition EMAIL_RE :: string where
  "EMAIL_RE = ''(?i)'' @ [bslash] @ ''b[A-Z0-9._%+-]+@[A-Z0-9.-]+'' @ [bslash] @ ''.[A-Z]{2,}''
     @ [bslash] @ ''b''"

definition JP_PHONE_RE :: string where
  "JP_PHONE_RE = [bslash] @ ''b0[7-9]0[-'' @ [bslash] @ ''s]?'' @ [bslash] @ ''d{4}[-'' @ [bslash]
     @ ''s]?'' @ [bslash] @ ''d{4}'' @ [bslash] @ ''b''"

definition CREDIT_CARD_RE :: string where
  "CREDIT_CARD_RE = [bslash] @ ''b(?:'' @ [bslash] @ ''d[ -]*?){13,19}'' @ [bslash] @ ''b''"

definition pii_hits :: "(string \<Rightarrow> string \<Rightarrow> bool) \<Rightarrow> string \<Rightarrow> string list" where
  "pii_hits is_match text =
     (if is_match EMAIL_RE text then [''email''] else [])
     @ (if is_match JP_PHONE_RE text then [''jp_phone''] else [])
     @ (if is_match CREDIT_CARD_RE text then [''credit_card''] else [])"

definition pii_guard_evaluate ::
  "(string \<Rightarrow> string \<Rightarrow> bool) \<Rightarrow> policy_context \<Rightarrow> policy_violation option" where
  "pii_guard_evaluate is_match ctx =
     (case (case ctx_output ctx of Some t \<Rightarrow> Some t | None \<Rightarrow> ctx_payload ctx) of
        None \<Rightarrow> None
      | Some text \<Rightarrow>
          let hits = pii_hits is_match text
          in if hits = [] then None
             else Some \<lparr>pv_rule_id = ''pii-guard'', pv_kind = PiiGuard, pv_severity = PS_Error,
                        pv_message = MsgPii hits\<rparr>)"

definition INJECTION_PATTERNS :: "string list" where
  "INJECTION_PATTERNS =
     [''(?i)ignore (all )?(previous )?(instructions|rules)'',
      ''(?i)disregard (the )?system prompt'',
      ''(?i)you are now'',
      ''(?i)pretend to be'',
      ''(?i)reveal (the )?system'']"

definition injection_guard_evaluate ::
  "(string \<Rightarrow> string \<Rightarrow> bool) \<Rightarrow> policy_context \<Rightarrow> policy_violation option" where
  "injection_guard_evaluate is_match ctx =
     (case ctx_payload ctx of
        None \<Rightarrow> None
      | Some text \<Rightarrow>
          (case find (\<lambda>re. is_match re text) INJECTION_PATTERNS of
             None \<Rightarrow> None
           | Some re \<Rightarrow> Some \<lparr>pv_rule_id = ''injection-guard'', pv_kind = InjectionGuard,
                               pv_severity = PS_Error, pv_message = MsgInjection re\<rparr>))"

definition composition_safety_evaluate :: "u32 \<Rightarrow> policy_context \<Rightarrow> policy_violation option" where
  "composition_safety_evaluate max_combined_writes ctx =
     (case effective_side_effect ctx of
        None \<Rightarrow> None
      | Some se \<Rightarrow>
          if \<not> is_write_class se then None
          else if ctx_composed_writes ctx + 1 > max_combined_writes
          then Some \<lparr>pv_rule_id = ''composition-safety'', pv_kind = CompositionSafety,
                     pv_severity = PS_Warning,
                     pv_message = MsgComposition (ctx_composed_writes ctx) max_combined_writes\<rparr>
          else None)"

definition capability_level :: "data_classification \<Rightarrow> nat" where
  "capability_level c =
     (case c of DC_Public \<Rightarrow> 0 | DC_Internal \<Rightarrow> 1 | DC_Confidential \<Rightarrow> 2 | DC_Restricted \<Rightarrow> 3)"

definition boundary_violation :: "policy_severity \<Rightarrow> violation_message \<Rightarrow> policy_violation" where
  "boundary_violation sev msg =
     \<lparr>pv_rule_id = ''tenant-boundary'', pv_kind = BoundaryEnforcement, pv_severity = sev,
      pv_message = msg\<rparr>"

definition boundary_tenant :: "policy_context \<Rightarrow> policy_violation option" where
  "boundary_tenant ctx =
     (case (ctx_tenant ctx, rq_tenant (ctx_requester ctx)) of
        (Some active, Some req) \<Rightarrow>
          if active \<noteq> req then Some (boundary_violation PS_Fatal (MsgTenantMismatch req active)) else None
      | _ \<Rightarrow> None)"

definition classification_scope :: "data_classification \<Rightarrow> string option" where
  "classification_scope c =
     (case c of DC_Confidential \<Rightarrow> Some ''confidential:read'' | DC_Restricted \<Rightarrow> Some ''restricted:read''
      | _ \<Rightarrow> None)"

definition boundary_classification :: "policy_context \<Rightarrow> policy_violation option" where
  "boundary_classification ctx =
     (case ctx_capability ctx of
        None \<Rightarrow> None
      | Some cap \<Rightarrow>
          (case classification_scope (cap_data_classification cap) of
             None \<Rightarrow> None
           | Some needs \<Rightarrow>
               if needs \<notin> set (rq_scopes (ctx_requester ctx))
               then Some (boundary_violation PS_Error
                            (MsgClassificationScope (cap_data_classification cap) needs))
               else None))"

fun boundary_reads :: "(string \<Rightarrow> entity_class option) \<Rightarrow> capability_contract \<Rightarrow> entity_ref_lite list
    \<Rightarrow> policy_violation option" where
  "boundary_reads lookup cap [] = None"
| "boundary_reads lookup cap (r # rs) =
     (case lookup (er_entity_id r) of
        Some cls \<Rightarrow>
          if entity_class_level cls > capability_level (cap_data_classification cap)
          then Some (boundary_violation PS_Fatal
                 (MsgClassificationFlow (cap_id cap) (cap_data_classification cap) (er_entity_id r)))
          else boundary_reads lookup cap rs
      | None \<Rightarrow> boundary_reads lookup cap rs)"

fun boundary_writes :: "string option \<Rightarrow> capability_contract \<Rightarrow> entity_ref_lite list
    \<Rightarrow> policy_violation option" where
  "boundary_writes tenant cap [] = None"
| "boundary_writes tenant cap (w # ws) =
     (case (er_tenant w, tenant) of
        (Some wt, Some active) \<Rightarrow>
          if wt \<noteq> active
          then Some (boundary_violation PS_Fatal (MsgWriteTenant (cap_id cap) (er_entity_id w) wt active))
          else boundary_writes tenant cap ws
      | _ \<Rightarrow> boundary_writes tenant cap ws)"

definition boundary_enforcement_evaluate :: "policy_context \<Rightarrow> policy_violation option" where
  "boundary_enforcement_evaluate ctx =
     (case boundary_tenant ctx of
        Some v \<Rightarrow> Some v
      | None \<Rightarrow>
          (case boundary_classification ctx of
             Some v \<Rightarrow> Some v
           | None \<Rightarrow>
               (case (ctx_capability ctx, ctx_ontology_class_lookup ctx) of
                  (Some cap, Some lookup) \<Rightarrow>
                    (case boundary_reads lookup cap (cap_reads cap) of
                       Some v \<Rightarrow> Some v
                     | None \<Rightarrow> boundary_writes (ctx_tenant ctx) cap (cap_writes cap))
                | _ \<Rightarrow> None)))"

section \<open>The engine\<close>

type_synonym policy_engine = "rule list"

definition engine_empty :: policy_engine where
  "engine_empty = []"

definition mk_rule :: "string \<Rightarrow> policy_hook list option \<Rightarrow> (policy_context \<Rightarrow> policy_violation option) \<Rightarrow> rule" where
  "mk_rule i h e = \<lparr>rule_id = i, rule_applicable_hooks = h, rule_evaluate = e\<rparr>"

definition with_default_rules :: "(string \<Rightarrow> string \<Rightarrow> bool) \<Rightarrow> policy_engine" where
  "with_default_rules is_match =
     [mk_rule ''scope-check'' None scope_check_evaluate,
      mk_rule ''side-effect-gate'' None side_effect_gate_evaluate,
      mk_rule ''budget-control'' None (budget_control_evaluate DEFAULT_WARN_PCT),
      mk_rule ''pii-guard'' (Some [PostStep, PreArtifact]) (pii_guard_evaluate is_match),
      mk_rule ''injection-guard'' (Some [PrePlan, PreStep]) (injection_guard_evaluate is_match),
      mk_rule ''composition-safety'' None (composition_safety_evaluate 3),
      mk_rule ''tenant-boundary'' None boundary_enforcement_evaluate]"

definition add_rule :: "policy_engine \<Rightarrow> rule \<Rightarrow> policy_engine" where
  "add_rule e r = e @ [r]"

fun collect_violations :: "policy_engine \<Rightarrow> policy_hook \<Rightarrow> policy_context \<Rightarrow> policy_violation list" where
  "collect_violations [] hook ctx = []"
| "collect_violations (r # rs) hook ctx =
     (if (case rule_applicable_hooks r of Some hooks \<Rightarrow> hook \<notin> set hooks | None \<Rightarrow> False)
      then collect_violations rs hook ctx
      else (case rule_evaluate r ctx of
              Some v \<Rightarrow> v # collect_violations rs hook ctx
            | None \<Rightarrow> collect_violations rs hook ctx))"

definition max_severity :: "policy_violation list \<Rightarrow> policy_severity" where
  "max_severity vs = foldl max PS_Info (map pv_severity vs)"

definition decide :: "policy_violation list \<Rightarrow> policy_decision" where
  "decide vs =
     (if vs = [] then Allow
      else if max_severity vs = PS_Error \<or> max_severity vs = PS_Fatal then Deny vs
      else if \<exists>v \<in> set vs. pv_kind v = SideEffectGate then RequireApproval vs
      else AllowWithWarnings vs)"

definition engine_evaluate :: "policy_engine \<Rightarrow> policy_hook \<Rightarrow> policy_context \<Rightarrow> policy_decision" where
  "engine_evaluate e hook ctx = decide (collect_violations e hook ctx)"

section \<open>Guards\<close>

definition base_context :: "intent_envelope \<Rightarrow> policy_context" where
  "base_context i =
     \<lparr>ctx_intent = i, ctx_capability = None, ctx_requester = int_requester i, ctx_payload = None,
      ctx_output = None, ctx_side_effect = None, ctx_remaining_budget = int_budget i,
      ctx_tenant = rq_tenant (int_requester i), ctx_composed_writes = 0,
      ctx_ontology_class_lookup = None\<rparr>"

definition input_guard_check :: "policy_engine \<Rightarrow> intent_envelope \<Rightarrow> string \<Rightarrow> policy_decision" where
  "input_guard_check e i payload =
     engine_evaluate e PreStep ((base_context i)\<lparr>ctx_payload := Some payload\<rparr>)"

definition output_guard_check :: "policy_engine \<Rightarrow> intent_envelope \<Rightarrow> string \<Rightarrow> policy_decision" where
  "output_guard_check e i out =
     engine_evaluate e PostStep ((base_context i)\<lparr>ctx_output := Some out\<rparr>)"

definition action_guard_check ::
  "policy_engine \<Rightarrow> intent_envelope \<Rightarrow> capability_contract \<Rightarrow> u32 \<Rightarrow> policy_decision" where
  "action_guard_check e i cap composed_writes =
     engine_evaluate e PreStep ((base_context i)\<lparr>ctx_capability := Some cap,
       ctx_side_effect := Some (cap_side_effect cap), ctx_composed_writes := composed_writes\<rparr>)"

section \<open>Approval workflow\<close>

datatype approval_state = AS_Pending | AS_Approved | AS_Rejected | AS_Expired

record approval_request =
  ar_request_id :: string
  ar_intent_id :: string
  ar_reason :: string
  ar_violations :: "policy_violation list"
  ar_state :: approval_state
  ar_created_at :: timestamp
  ar_resolved_at :: "timestamp option"

type_synonym approval_workflow = "approval_request hashmap"

definition approval_open ::
  "timestamp \<Rightarrow> approval_workflow \<Rightarrow> string \<Rightarrow> string \<Rightarrow> policy_violation list \<Rightarrow> approval_workflow \<times> string" where
  "approval_open now w intent_id reason vs =
     (let request_id = ''appr-'' @ intent_id;
          req = \<lparr>ar_request_id = request_id, ar_intent_id = intent_id, ar_reason = reason,
                 ar_violations = vs, ar_state = AS_Pending, ar_created_at = now,
                 ar_resolved_at = None\<rparr>
      in (w(request_id \<mapsto> req), request_id))"

definition approval_resolve ::
  "timestamp \<Rightarrow> approval_workflow \<Rightarrow> string \<Rightarrow> bool \<Rightarrow> approval_workflow \<times> approval_state option" where
  "approval_resolve now w request_id approved =
     (case w request_id of
        None \<Rightarrow> (w, None)
      | Some req \<Rightarrow>
          let st = (if approved then AS_Approved else AS_Rejected);
              req' = req\<lparr>ar_state := st, ar_resolved_at := Some now\<rparr>
          in (w(request_id \<mapsto> req'), Some st))"

definition approval_get :: "approval_workflow \<Rightarrow> string \<Rightarrow> approval_request option" where
  "approval_get w request_id = w request_id"


section \<open>Folding violations into a decision\<close>

lemma foldl_max_ge: "a \<le> foldl max a xs" for a :: "'a::linorder"
  by (induction xs arbitrary: a) (auto intro: order_trans max.cobounded1)

lemma foldl_max_mem: "x \<in> set xs \<Longrightarrow> x \<le> foldl max a xs" for a :: "'a::linorder"
  by (induction xs arbitrary: a) (auto intro: order_trans[OF max.cobounded2 foldl_max_ge])

lemma foldl_max_in: "foldl max a xs = a \<or> foldl max a xs \<in> set xs" for a :: "'a::linorder"
  by (induction xs arbitrary: a) (auto simp: max_def split: if_splits)

lemma severity_blocking_iff: "sev = PS_Error \<or> sev = PS_Fatal \<longleftrightarrow> PS_Error \<le> sev"
  by (cases sev) (auto simp: less_eq_policy_severity_def)

lemma max_severity_blocking_iff:
  "PS_Error \<le> max_severity vs \<longleftrightarrow> (\<exists>v \<in> set vs. PS_Error \<le> pv_severity v)"
proof
  assume "PS_Error \<le> max_severity vs"
  moreover have "\<not> PS_Error \<le> PS_Info" by (simp add: less_eq_policy_severity_def)
  ultimately have "max_severity vs \<in> set (map pv_severity vs)"
    using foldl_max_in[of PS_Info "map pv_severity vs"] by (auto simp: max_severity_def)
  with \<open>PS_Error \<le> max_severity vs\<close> show "\<exists>v \<in> set vs. PS_Error \<le> pv_severity v" by auto
next
  assume "\<exists>v \<in> set vs. PS_Error \<le> pv_severity v"
  then show "PS_Error \<le> max_severity vs"
    using foldl_max_mem[of _ "map pv_severity vs" PS_Info]
    by (auto simp: max_severity_def intro: order_trans)
qed

definition blocking :: "policy_violation \<Rightarrow> bool" where
  "blocking v \<longleftrightarrow> PS_Error \<le> pv_severity v"

lemma decide_alt [policy_simps]:
  "decide vs =
     (if vs = [] then Allow
      else if \<exists>v \<in> set vs. blocking v then Deny vs
      else if \<exists>v \<in> set vs. pv_kind v = SideEffectGate then RequireApproval vs
      else AllowWithWarnings vs)"
  by (simp add: decide_def severity_blocking_iff max_severity_blocking_iff blocking_def)

fun decision_rank :: "policy_decision \<Rightarrow> nat" where
  "decision_rank Allow = 0"
| "decision_rank (AllowWithWarnings _) = 1"
| "decision_rank (RequireApproval _) = 2"
| "decision_rank (Deny _) = 3"

fun decision_violations :: "policy_decision \<Rightarrow> policy_violation list" where
  "decision_violations Allow = []"
| "decision_violations (AllowWithWarnings vs) = vs"
| "decision_violations (RequireApproval vs) = vs"
| "decision_violations (Deny vs) = vs"

lemma is_allowed_rank: "is_allowed d \<longleftrightarrow> decision_rank d \<le> 1"
  by (cases d) (auto simp: is_allowed_def)

lemma decide_rank_mono:
  "set vs \<subseteq> set ws \<Longrightarrow> decision_rank (decide vs) \<le> decision_rank (decide ws)"
  by (cases "ws = []") (auto simp: decide_alt)

definition applies :: "rule \<Rightarrow> policy_hook \<Rightarrow> bool" where
  "applies r hook = (case rule_applicable_hooks r of Some hooks \<Rightarrow> hook \<in> set hooks | None \<Rightarrow> True)"

lemma set_collect_violations:
  "set (collect_violations e hook ctx) =
     {v. \<exists>r \<in> set e. applies r hook \<and> rule_evaluate r ctx = Some v}"
  by (induction e) (auto simp: applies_def split: option.splits)

lemma collect_violations_memI:
  "r \<in> set e \<Longrightarrow> applies r hook \<Longrightarrow> rule_evaluate r ctx = Some v \<Longrightarrow>
     v \<in> set (collect_violations e hook ctx)"
  by (auto simp: set_collect_violations)

lemma collect_violations_append:
  "collect_violations (e @ f) hook ctx = collect_violations e hook ctx @ collect_violations f hook ctx"
  by (induction e) (auto split: option.splits)

lemma decision_violations_evaluate:
  "decision_violations (engine_evaluate e hook ctx) = collect_violations e hook ctx"
  by (simp add: engine_evaluate_def decide_alt)

lemma engine_deny_iff:
  "engine_evaluate e hook ctx = Deny vs \<longleftrightarrow>
     vs = collect_violations e hook ctx \<and>
     (\<exists>r \<in> set e. \<exists>v. applies r hook \<and> rule_evaluate r ctx = Some v \<and> blocking v)"
  by (auto simp: engine_evaluate_def decide_alt set_collect_violations
      simp flip: ex_in_conv set_empty)

section \<open>What each rule family promises\<close>

text \<open>
  Every rule emits violations under its own identifier and kind only. A client that knows this of
  a rule can tell from the violations of a decision which rules fired.
\<close>

locale rule_family =
  fixes eval :: "policy_context \<Rightarrow> policy_violation option"
    and rid :: string
    and kind :: rule_kind
  assumes emits: "eval ctx = Some v \<Longrightarrow> pv_rule_id v = rid \<and> pv_kind v = kind"
begin

lemma other_kind: "eval ctx = Some v \<Longrightarrow> pv_kind v = k \<Longrightarrow> k = kind"
  using emits by blast

lemma silent_if_kind_absent:
  assumes "\<forall>v \<in> set (collect_violations e hook ctx). pv_kind v \<noteq> kind"
    and "r \<in> set e" "applies r hook" "rule_evaluate r = eval"
  shows "eval ctx = None"
proof (rule ccontr)
  assume "eval ctx \<noteq> None"
  then obtain v where v: "eval ctx = Some v" by blast
  then have "v \<in> set (collect_violations e hook ctx)"
    using assms(2-4) by (auto simp: set_collect_violations)
  with assms(1) emits[OF v] show False by blast
qed

end

locale blocking_rule_family = rule_family +
  assumes blocks: "eval ctx = Some v \<Longrightarrow> blocking v"
begin

lemma fires_denies:
  assumes "eval ctx = Some v" "r \<in> set e" "applies r hook" "rule_evaluate r = eval"
  shows "engine_evaluate e hook ctx = Deny (collect_violations e hook ctx)"
  using assms blocks[OF assms(1)] by (auto simp: engine_deny_iff)

end

locale advisory_rule_family = rule_family +
  assumes advises: "eval ctx = Some v \<Longrightarrow> \<not> blocking v"
begin

lemma alone_never_denies:
  assumes "\<forall>v \<in> set (collect_violations e hook ctx). eval ctx = Some v"
  shows "engine_evaluate e hook ctx \<noteq> Deny vs"
  using assms advises by (auto simp: engine_evaluate_def decide_alt)

end

lemma blocking_severity [simp]:
  "pv_severity v = PS_Error \<Longrightarrow> blocking v" "pv_severity v = PS_Fatal \<Longrightarrow> blocking v"
  "pv_severity v = PS_Warning \<Longrightarrow> \<not> blocking v" "pv_severity v = PS_Info \<Longrightarrow> \<not> blocking v"
  by (simp_all add: blocking_def less_eq_policy_severity_def)

interpretation scope_rule: blocking_rule_family scope_check_evaluate "''scope-check''" ScopeCheck
  by unfold_locales (auto simp: scope_check_evaluate_def Let_def split: option.splits if_splits)

interpretation gate_rule: advisory_rule_family side_effect_gate_evaluate "''side-effect-gate''" SideEffectGate
  by unfold_locales (auto simp: side_effect_gate_evaluate_def split: option.splits if_splits)

interpretation budget_rule: rule_family "budget_control_evaluate w" "''budget-control''" BudgetControl for w
  by unfold_locales (auto simp: budget_control_evaluate_def Let_def split: if_splits)

interpretation pii_rule: blocking_rule_family "pii_guard_evaluate m" "''pii-guard''" PiiGuard for m
  by unfold_locales (auto simp: pii_guard_evaluate_def Let_def split: option.splits if_splits)

interpretation injection_rule:
  blocking_rule_family "injection_guard_evaluate m" "''injection-guard''" InjectionGuard for m
  by unfold_locales (auto simp: injection_guard_evaluate_def split: option.splits)

interpretation composition_rule:
  advisory_rule_family "composition_safety_evaluate n" "''composition-safety''" CompositionSafety for n
  by unfold_locales (auto simp: composition_safety_evaluate_def split: option.splits if_splits)

lemma boundary_reads_emits:
  "boundary_reads lookup cap rs = Some v \<Longrightarrow>
     pv_rule_id v = ''tenant-boundary'' \<and> pv_kind v = BoundaryEnforcement \<and> blocking v"
  by (induction rs) (auto simp: boundary_violation_def split: option.splits if_splits)

lemma boundary_writes_emits:
  "boundary_writes tenant cap ws = Some v \<Longrightarrow>
     pv_rule_id v = ''tenant-boundary'' \<and> pv_kind v = BoundaryEnforcement \<and> blocking v"
  by (induction ws) (auto simp: boundary_violation_def split: option.splits if_splits)

interpretation boundary_rule:
  blocking_rule_family boundary_enforcement_evaluate "''tenant-boundary''" BoundaryEnforcement
  by unfold_locales
    (auto simp: boundary_enforcement_evaluate_def boundary_tenant_def boundary_classification_def
      boundary_violation_def dest: boundary_reads_emits boundary_writes_emits
      split: option.splits if_splits prod.splits)

lemmas rule_defs = scope_check_evaluate_def side_effect_gate_evaluate_def budget_control_evaluate_def
  pii_guard_evaluate_def injection_guard_evaluate_def composition_safety_evaluate_def
  boundary_enforcement_evaluate_def boundary_tenant_def boundary_classification_def


section \<open>Properties of the engine\<close>

lemma default_rule_member:
  "mk_rule ''scope-check'' None scope_check_evaluate \<in> set (with_default_rules m)"
  "mk_rule ''side-effect-gate'' None side_effect_gate_evaluate \<in> set (with_default_rules m)"
  "mk_rule ''tenant-boundary'' None boundary_enforcement_evaluate \<in> set (with_default_rules m)"
  by (simp_all add: with_default_rules_def)

lemma applies_None [simp]: "applies (mk_rule i None e) hook" "rule_evaluate (mk_rule i h e) = e"
  by (simp_all add: applies_def mk_rule_def)

text \<open>
  Installing a further rule never makes a decision more permissive: the rank of the decision
  (allow, allow with warnings, require approval, deny) can only grow, whatever the rule does.
\<close>

theorem engine_add_rule_monotone:
  "decision_rank (engine_evaluate e hook ctx) \<le> decision_rank (engine_evaluate (add_rule e r) hook ctx)"
  unfolding engine_evaluate_def add_rule_def collect_violations_append
  by (rule decide_rank_mono) simp

lemma default_gate:
  assumes "effective_side_effect ctx = Some se" "is_write_class se"
    and "''auto-approve'' \<notin> set (rq_scopes (ctx_requester ctx))"
  shows "\<not> is_allowed (engine_evaluate (with_default_rules is_match) hook ctx)"
proof -
  obtain v where v: "side_effect_gate_evaluate ctx = Some v"
    using assms by (simp add: side_effect_gate_evaluate_def)
  then have "v \<in> set (collect_violations (with_default_rules is_match) hook ctx)"
    by (intro collect_violations_memI[OF default_rule_member(2)]) simp_all
  moreover have "pv_kind v = SideEffectGate" using gate_rule.emits[OF v] by simp
  ultimately show ?thesis
    by (auto simp: engine_evaluate_def decide_alt is_allowed_def)
qed

text \<open>
  C1. With the default rules, a step whose side effect is write-class (write, delete, send or
  payment) is never executed without a human unless the requester holds \<open>auto-approve\<close>: at every
  hook the decision is a denial or a request for approval.
\<close>

theorem default_engine_gates_writes:
  assumes "effective_side_effect ctx = Some se" "is_write_class se"
    and "''auto-approve'' \<notin> set (rq_scopes (ctx_requester ctx))"
  shows "\<not> is_allowed (engine_evaluate (with_default_rules is_match) hook ctx)"
  by (rule default_gate[OF assms])

theorem default_engine_gates_writes_witness:
  "\<not> is_allowed (engine_evaluate (with_default_rules (\<lambda>re t. False)) PreStep
      ((base_context ex_intent)\<lparr>ctx_side_effect := Some SE_Payment\<rparr>))"
  by (rule default_engine_gates_writes[where se = SE_Payment])
    (simp_all add: effective_side_effect_def is_write_class_def base_context_def ex_defs)

text \<open>
  C16. With the default rules, a requester that lacks the capability's required scope, lacks the scope
  a confidential or restricted classification demands, or belongs to another tenant than the
  active one is denied at every hook, whatever else the context holds.
\<close>

theorem default_engine_denies:
  assumes "(\<exists>cap. ctx_capability ctx = Some cap \<and> trim (cap_required_scope cap) \<noteq> [] \<and>
              trim (cap_required_scope cap) \<notin> set (rq_scopes (ctx_requester ctx)))
         \<or> (\<exists>cap needs. ctx_capability ctx = Some cap \<and>
              classification_scope (cap_data_classification cap) = Some needs \<and>
              needs \<notin> set (rq_scopes (ctx_requester ctx)))
         \<or> (\<exists>active req. ctx_tenant ctx = Some active \<and> rq_tenant (ctx_requester ctx) = Some req \<and>
              active \<noteq> req)"
  shows "\<exists>vs. engine_evaluate (with_default_rules is_match) hook ctx = Deny vs"
proof -
  from assms have "scope_check_evaluate ctx \<noteq> None \<or> boundary_enforcement_evaluate ctx \<noteq> None"
    by (auto simp: scope_check_evaluate_def boundary_enforcement_evaluate_def boundary_tenant_def
        boundary_classification_def Let_def split: option.splits)
  then show ?thesis
    using scope_rule.fires_denies[OF _ default_rule_member(1) applies_None]
      boundary_rule.fires_denies[OF _ default_rule_member(3) applies_None] by blast
qed

theorem default_engine_denies_witness:
  "\<exists>vs. engine_evaluate (with_default_rules (\<lambda>re t. False)) PreStep
      ((base_context ex_intent)\<lparr>ctx_tenant := Some ''t2''\<rparr>) = Deny vs"
  by (rule default_engine_denies) (simp add: base_context_def ex_defs)

definition action_denied :: "capability_contract \<Rightarrow> requester \<Rightarrow> bool" where
  "action_denied cap rq \<longleftrightarrow>
      (trim (cap_required_scope cap) \<noteq> [] \<and> trim (cap_required_scope cap) \<notin> set (rq_scopes rq))
    \<or> (case classification_scope (cap_data_classification cap) of
         None \<Rightarrow> False | Some needs \<Rightarrow> needs \<notin> set (rq_scopes rq))"

definition action_gated :: "capability_contract \<Rightarrow> requester \<Rightarrow> bool" where
  "action_gated cap rq \<longleftrightarrow>
     is_write_class (cap_side_effect cap) \<and> ''auto-approve'' \<notin> set (rq_scopes rq)"

lemma warn_pct_pos: "\<not> fle DEFAULT_WARN_PCT (Fin 0)"
  unfolding DEFAULT_WARN_PCT_def by code_simp

lemma budget_full_silent:
  "max_cost_usd (ctx_remaining_budget ctx) = max_cost_usd (int_budget (ctx_intent ctx)) \<Longrightarrow>
     budget_control_evaluate DEFAULT_WARN_PCT ctx = None"
  using fdiv_0[of "max_cost_usd (int_budget (ctx_intent ctx))"] warn_pct_pos
  by (cases "fle (max_cost_usd (int_budget (ctx_intent ctx))) (Fin 0)")
    (auto simp: budget_control_evaluate_def Let_def fsub_self)

text \<open>
  The input guard over the default rules is exactly a prompt-injection filter: it denies a payload
  iff one of the five patterns matches (reporting the first), and otherwise allows it without
  warnings, for every intent envelope, including one whose budget is zero, infinite or NaN.
\<close>

theorem input_guard_exact:
  "input_guard_check (with_default_rules is_match) i payload =
     (case find (\<lambda>re. is_match re payload) INJECTION_PATTERNS of
        None \<Rightarrow> Allow
      | Some re \<Rightarrow> Deny [\<lparr>pv_rule_id = ''injection-guard'', pv_kind = InjectionGuard,
                          pv_severity = PS_Error, pv_message = MsgInjection re\<rparr>])"
proof -
  let ?ctx = "(base_context i)\<lparr>ctx_payload := Some payload\<rparr>"
  have "budget_control_evaluate DEFAULT_WARN_PCT ?ctx = None"
    by (rule budget_full_silent) (simp add: base_context_def)
  then show ?thesis
    by (auto simp: input_guard_check_def engine_evaluate_def with_default_rules_def mk_rule_def
        scope_check_evaluate_def side_effect_gate_evaluate_def effective_side_effect_def
        injection_guard_evaluate_def composition_safety_evaluate_def boundary_enforcement_evaluate_def
        boundary_tenant_def boundary_classification_def base_context_def decide_alt
        split: option.splits)
qed

text \<open>
  The action guard over the default rules decides a capability call exactly by four facts: it
  denies iff the required scope or the classification scope is missing; otherwise it asks for
  approval iff the side effect is write-class and the requester lacks \<open>auto-approve\<close>.
\<close>

theorem action_guard_exact:
  "decision_rank (action_guard_check (with_default_rules is_match) i cap n) =
     (if action_denied cap (int_requester i) then 3
      else if action_gated cap (int_requester i) then 2
      else if is_write_class (cap_side_effect cap) \<and> n + 1 > 3 then 1 else 0)"
proof -
  let ?ctx = "(base_context i)\<lparr>ctx_capability := Some cap,
       ctx_side_effect := Some (cap_side_effect cap), ctx_composed_writes := n\<rparr>"
  let ?S = "scope_check_evaluate ?ctx" and ?G = "side_effect_gate_evaluate ?ctx"
    and ?C = "composition_safety_evaluate 3 ?ctx" and ?B = "boundary_enforcement_evaluate ?ctx"
  have budget: "budget_control_evaluate DEFAULT_WARN_PCT ?ctx = None"
    by (rule budget_full_silent) (simp add: base_context_def)
  have injection: "injection_guard_evaluate is_match ?ctx = None"
    by (simp add: injection_guard_evaluate_def base_context_def)
  have vs: "collect_violations (with_default_rules is_match) PreStep ?ctx =
      concat (map (\<lambda>r. case r of None \<Rightarrow> [] | Some v \<Rightarrow> [v]) [?S, ?G, ?C, ?B])"
    by (simp add: with_default_rules_def mk_rule_def budget injection split: option.split)
  have denied: "action_denied cap (int_requester i) \<longleftrightarrow> ?S \<noteq> None \<or> ?B \<noteq> None"
    by (auto simp: action_denied_def scope_check_evaluate_def boundary_enforcement_evaluate_def boundary_tenant_def
        boundary_classification_def base_context_def Let_def split: option.splits)
  have gated: "action_gated cap (int_requester i) \<longleftrightarrow> ?G \<noteq> None"
    by (simp add: side_effect_gate_evaluate_def effective_side_effect_def base_context_def action_gated_def)
  have composed: "is_write_class (cap_side_effect cap) \<and> n + 1 > 3 \<longleftrightarrow> ?C \<noteq> None"
    by (simp add: composition_safety_evaluate_def effective_side_effect_def base_context_def Let_def)
  have scope: "?S = Some v \<Longrightarrow> blocking v" and boundary: "?B = Some v \<Longrightarrow> blocking v" for v
    by (erule scope_rule.blocks, erule boundary_rule.blocks)
  have gate: "?G = Some v \<Longrightarrow> \<not> blocking v \<and> pv_kind v = SideEffectGate" for v
    using gate_rule.advises gate_rule.emits by blast
  have composition: "?C = Some v \<Longrightarrow> \<not> blocking v \<and> pv_kind v \<noteq> SideEffectGate" for v
    using composition_rule.advises[of 3 ?ctx v] composition_rule.emits[of 3 ?ctx v] by simp
  have "decision_rank (decide (collect_violations (with_default_rules is_match) PreStep ?ctx)) =
      (if ?S \<noteq> None \<or> ?B \<noteq> None then 3 else if ?G \<noteq> None then 2 else if ?C \<noteq> None then 1 else 0)"
    unfolding vs decide_alt
    using scope gate composition boundary by (cases ?S; cases ?G; cases ?C; cases ?B) (simp_all only:, auto)
  then show ?thesis unfolding action_guard_check_def engine_evaluate_def denied gated composed .
qed

lemma budget_control_cases:
  assumes "max_cost_usd (int_budget (ctx_intent ctx)) = Fin t" "0 < t"
    and "max_cost_usd (ctx_remaining_budget ctx) = Fin r"
  shows "map_option pv_severity (budget_control_evaluate w ctx) =
     (if r \<le> 0 then Some PS_Error
      else if fle w (fdiv (fmax (fsub (Fin t) (Fin r)) (Fin 0)) (Fin t)) then Some PS_Warning else None)"
  using assms by (auto simp: budget_control_evaluate_def Let_def)

text \<open>
  Budget enforcement is monotone under IEEE double rounding: for a positive budget, spending more
  (a smaller remaining amount) never lowers what the budget rule reports, from silence through
  the warning at 80 percent to the blocking error; in particular it never loses a warning.
\<close>

theorem budget_control_monotone:
  assumes "max_cost_usd (int_budget (ctx_intent ctx)) = Fin t" "0 < t"
    and "r' \<le> r"
  shows "(case map_option pv_severity (budget_control_evaluate w
             (ctx\<lparr>ctx_remaining_budget := b\<lparr>max_cost_usd := Fin r\<rparr>\<rparr>)) of
            None \<Rightarrow> True
          | Some sev \<Rightarrow> \<exists>sev'. map_option pv_severity (budget_control_evaluate w
             (ctx\<lparr>ctx_remaining_budget := b\<lparr>max_cost_usd := Fin r'\<rparr>\<rparr>)) = Some sev' \<and> sev \<le> sev')"
proof -
  let ?pct = "\<lambda>r. fdiv (fmax (fsub (Fin t) (Fin r)) (Fin 0)) (Fin t)"
  have "fle (?pct r) (?pct r')"
    using assms by (intro fdiv_mono_pos fmax_mono fsub_antimono)
  then have "fle w (?pct r) \<Longrightarrow> fle w (?pct r')" by (rule fle_trans[rotated])
  moreover have "PS_Warning \<le> PS_Error" by (simp add: less_eq_policy_severity_def)
  ultimately show ?thesis
    using assms by (auto simp: budget_control_cases)
qed

section \<open>The approval workflow as a state machine\<close>

inductive approval_reachable :: "approval_workflow \<Rightarrow> bool" where
  approval_new: "approval_reachable Map.empty"
| approval_opened: "approval_reachable w \<Longrightarrow> approval_reachable (fst (approval_open now w i r vs))"
| approval_resolved: "approval_reachable w \<Longrightarrow> approval_reachable (fst (approval_resolve now w q a))"

definition approval_inv :: "approval_workflow \<Rightarrow> bool" where
  "approval_inv w \<longleftrightarrow> (\<forall>q req. w q = Some req \<longrightarrow>
     q = ar_request_id req \<and> q = ''appr-'' @ ar_intent_id req \<and> ar_state req \<noteq> AS_Expired \<and>
     (ar_state req = AS_Pending \<longleftrightarrow> ar_resolved_at req = None))"

lemma approval_reachable_inv: "approval_reachable w \<Longrightarrow> approval_inv w"
proof (induction rule: approval_reachable.induct)
  case (approval_resolved w now q a)
  then show ?case
    by (auto simp: approval_inv_def approval_resolve_def Let_def split: option.splits)
qed (auto simp: approval_inv_def approval_open_def Let_def)



end
