(* ===== verification/Scope.thy ===== *)
theory Scope
  imports Policy
begin

text \<open>
  Scope intersection (\<open>aaf-policy/src/scope.rs\<close>): wildcard matching, the ceiling an autonomy level
  puts on scopes, and the two intersection functions of the module. The lemmas give the declarative
  meaning of matching, the exact meaning of \<open>effective_scopes\<close>, its monotonicity in the
  autonomy level, and how the older \<open>compute_effective_scopes\<close> differs from it.
\<close>

definition scope_matches :: "string \<Rightarrow> string \<Rightarrow> bool" where
  "scope_matches granted required =
     (if granted = required \<or> granted = ''*'' then True
      else case strip_suffix granted '':*'' of
             Some prefix \<Rightarrow> starts_with required prefix \<and>
               length prefix < length required \<and> required ! length prefix = CHR '':''
           | None \<Rightarrow> False)"

fun autonomy_ceiling :: "autonomy_level \<Rightarrow> string list" where
  "autonomy_ceiling Level1 = []"
| "autonomy_ceiling Level2 = [''*:read'']"
| "autonomy_ceiling Level3 = [''*:read'', ''*:write'']"
| "autonomy_ceiling Level4 = [''*:read'', ''*:write'', ''*:delete'', ''*:send'', ''*:execute'']"
| "autonomy_ceiling Level5 = [''*'']"

definition after_intent :: "string list \<Rightarrow> string list \<Rightarrow> string list" where
  "after_intent user_scopes intent_scopes =
     btree_collect (filter (\<lambda>is. \<exists>us \<in> set user_scopes. scope_matches us is) intent_scopes)"

definition compute_effective_scopes :: "string list \<Rightarrow> string list \<Rightarrow> autonomy_level \<Rightarrow> string list" where
  "compute_effective_scopes user_scopes intent_scopes lvl =
     filter (\<lambda>s. \<exists>c \<in> set (autonomy_ceiling lvl). scope_matches c s) (after_intent user_scopes intent_scopes)"

definition ceiling_matches :: "string \<Rightarrow> string \<Rightarrow> bool" where
  "ceiling_matches c s =
     (if c = ''*'' then True
      else case strip_prefix c ''*'' of Some suffix \<Rightarrow> ends_with s suffix | None \<Rightarrow> c = s)"

definition scope_matches_with_ceiling :: "string \<Rightarrow> string \<Rightarrow> bool" where
  "scope_matches_with_ceiling g r \<longleftrightarrow> scope_matches g r \<or> ceiling_matches g r"

definition effective_scopes :: "string list \<Rightarrow> string list \<Rightarrow> autonomy_level \<Rightarrow> string list" where
  "effective_scopes user_scopes intent_scopes lvl =
     filter (\<lambda>s. \<exists>c \<in> set (autonomy_ceiling lvl). scope_matches_with_ceiling c s)
       (after_intent user_scopes intent_scopes)"

section \<open>Declarative meaning\<close>

lemma scope_matches_iff:
  "scope_matches g r \<longleftrightarrow> g = r \<or> g = ''*'' \<or> (\<exists>p s. g = p @ '':*'' \<and> r = p @ '':'' @ s)"
proof -
  have "(\<exists>p. strip_suffix g '':*'' = Some p \<and> starts_with r p \<and> length p < length r \<and> r ! length p = CHR '':'')
      \<longleftrightarrow> (\<exists>p s. g = p @ '':*'' \<and> r = p @ '':'' @ s)" (is "?L \<longleftrightarrow> ?R")
  proof
    assume ?L
    then obtain p t where g: "g = p @ '':*''" and r: "r = p @ t" and "length p < length r"
      "r ! length p = CHR '':''"
      by (auto simp: strip_suffix_Some_iff starts_with_iff)
    then have "t = CHR '':'' # tl t" by (cases t) auto
    with g r show ?R by (metis append_Cons append_Nil)
  qed (auto simp: strip_suffix_Some_iff starts_with_iff)
  then show ?thesis by (auto simp: scope_matches_def split: option.splits)
qed

lemma ceiling_entry:
  assumes "last a \<noteq> CHR ''*''" "a \<noteq> []"
  shows "scope_matches_with_ceiling (''*:'' @ a) s \<longleftrightarrow> (\<exists>r. s = r @ '':'' @ a)"
proof -
  have "\<not> (\<exists>p. ''*:'' @ a = p @ '':*'')"
  proof
    assume "\<exists>p. ''*:'' @ a = p @ '':*''"
    then have "last (''*:'' @ a) = CHR ''*''" by (metis append_is_Nil_conv last_appendR last.simps list.distinct(1))
    with assms show False by simp
  qed
  then have "scope_matches (''*:'' @ a) s \<longleftrightarrow> s = ''*'' @ '':'' @ a"
    by (auto simp: scope_matches_iff)
  moreover have "ceiling_matches (''*:'' @ a) s \<longleftrightarrow> (\<exists>r. s = r @ '':'' @ a)"
    by (auto simp: ceiling_matches_def strip_prefix_def ends_with_iff)
  ultimately show ?thesis by (auto simp: scope_matches_with_ceiling_def)
qed

lemmas ceiling_entries =
  ceiling_entry[of "''read''", simplified] ceiling_entry[of "''write''", simplified]
  ceiling_entry[of "''delete''", simplified] ceiling_entry[of "''send''", simplified]
  ceiling_entry[of "''execute''", simplified]

definition permitted_actions :: "autonomy_level \<Rightarrow> string set" where
  "permitted_actions l =
     (case l of Level1 \<Rightarrow> {} | Level2 \<Rightarrow> {''read''} | Level3 \<Rightarrow> {''read'', ''write''}
      | _ \<Rightarrow> {''read'', ''write'', ''delete'', ''send'', ''execute''})"

lemma ceiling_meaning:
  "(\<exists>c \<in> set (autonomy_ceiling l). scope_matches_with_ceiling c s) \<longleftrightarrow>
     l = Level5 \<or> (\<exists>r a. a \<in> permitted_actions l \<and> s = r @ '':'' @ a)"
proof (cases l)
  case Level5
  then show ?thesis by (simp add: scope_matches_with_ceiling_def scope_matches_def)
qed (simp_all add: ceiling_entries permitted_actions_def conj_disj_distribR ex_disj_distrib)

lemma set_effective_scopes:
  "set (effective_scopes user_scopes intent_scopes lvl) =
     {s \<in> set intent_scopes.
        (\<exists>g \<in> set user_scopes. g = s \<or> g = ''*'' \<or> (\<exists>p t. g = p @ '':*'' \<and> s = p @ '':'' @ t)) \<and>
        (lvl = Level5 \<or> (\<exists>r a. a \<in> permitted_actions lvl \<and> s = r @ '':'' @ a))}"
  unfolding effective_scopes_def ceiling_meaning after_intent_def
  by (auto simp: scope_matches_iff)

text \<open>
  C17. \<open>effective_scopes\<close> is exactly a three-way intersection: a scope is effective iff the intent asks for
  it, some user scope grants it (equal, \<open>*\<close>, or a \<open>prefix:*\<close> wildcard), and the agent's level permits its
  action; the result is sorted without duplicates. The levels permit no action, then read, then read and write,
  at level 4 read, write, delete, send and execute and nothing else, and at level 5 everything. At level 4
  this is narrower than the table in the source, which says everything except payment.
\<close>

theorem effective_scopes_exact:
  "set (effective_scopes user_scopes intent_scopes lvl) =
     {s \<in> set intent_scopes.
        (\<exists>g \<in> set user_scopes. g = s \<or> g = ''*'' \<or> (\<exists>p t. g = p @ '':*'' \<and> s = p @ '':'' @ t)) \<and>
        (lvl = Level5 \<or> (\<exists>r a. a \<in> permitted_actions lvl \<and> s = r @ '':'' @ a))} \<and>
   sorted_wrt (<) (effective_scopes user_scopes intent_scopes lvl)"
proof -
  have "sorted_wrt (<) (effective_scopes user_scopes intent_scopes lvl)"
    unfolding effective_scopes_def after_intent_def by (intro sorted_wrt_filter btree_collect_strict)
  then show ?thesis using set_effective_scopes by blast
qed

lemma permitted_actions_mono: "l \<le> l' \<Longrightarrow> permitted_actions l \<subseteq> permitted_actions l'"
  by (cases l; cases l') (auto simp: permitted_actions_def autonomy_le_unat)

text \<open>
  Raising an agent's autonomy level, or widening the user's or the intent's scopes, never removes
  an effective scope.
\<close>

theorem effective_scopes_mono:
  assumes "lvl \<le> lvl'" "set us \<subseteq> set us'" "set is \<subseteq> set is'"
  shows "set (effective_scopes us is lvl) \<subseteq> set (effective_scopes us' is' lvl')"
proof -
  have "lvl = Level5 \<Longrightarrow> lvl' = Level5"
    using assms(1) by (cases lvl') (auto simp: autonomy_le_unat)
  with permitted_actions_mono[OF assms(1)] assms(2,3) show ?thesis
    unfolding set_effective_scopes by blast
qed

text \<open>
  \<open>compute_effective_scopes\<close>, the function the module names as the runtime's entry point, compares
  the ceiling with plain scope matching, for which \<open>*:read\<close> is not a wildcard: between levels 2
  and 4 every scope it keeps is one that literally starts with \<open>*\<close>, so no ordinary scope such as
  \<open>order:read\<close> survives.
\<close>

theorem compute_effective_scopes_literal:
  "lvl = Level5 \<or> (\<forall>s \<in> set (compute_effective_scopes us is lvl). \<exists>a. s = CHR ''*'' # CHR '':'' # a)"
  by (cases lvl) (auto simp: compute_effective_scopes_def scope_matches_iff)

end
