(* ===== verification/Identity.thy ===== *)
theory Identity
  imports Contracts
begin

unbundle bit_operations_syntax

text \<open>
  Agent identity (\<open>aaf-identity\<close>): DIDs, the HMAC keystore, signed manifests, attestations,
  capability tokens and the revocation registry. The crates \<open>sha2\<close>, \<open>hex\<close> and
  \<open>serde_json\<close> are parameters: \<open>sha256\<close> and \<open>hex\<close> in a record, and the serialiser \<open>to_vec\<close>
  as an argument. The \<open>Signer\<close> and \<open>Verifier\<close> traits are function arguments, with the contract a
  signature scheme promises stated as a locale that the in-memory keystore satisfies.
\<close>

record crypto =
  sha256 :: "u8 list \<Rightarrow> u8 list"
  hex :: "u8 list \<Rightarrow> string"

datatype identity_error =
    InvalidSignature
  | ManifestDrift string string
  | TokenNotInEffect
  | DepthExhausted
  | NotInScope string
  | Revoked string
  | UnknownDid string
  | Serialisation string

type_synonym signer = "string \<Rightarrow> u8 list \<Rightarrow> (string, identity_error) result"
type_synonym verifier = "string \<Rightarrow> u8 list \<Rightarrow> string \<Rightarrow> (unit, identity_error) result"
type_synonym 'a serialiser = "'a \<Rightarrow> (u8 list, string) result"

definition as_bytes :: "string \<Rightarrow> u8 list" where
  "as_bytes s = map of_char s"

lemma unat_of_char: "unat (of_char x :: u8) = (of_char x :: nat)"
proof -
  have "(of_char x :: nat) < 2 ^ LENGTH(8)" by simp
  then show ?thesis using unat_of_nat_small[of "of_char x", where 'a = 8] by (simp add: of_nat_of_char)
qed

lemma as_bytes_inj: "as_bytes a = as_bytes b \<longleftrightarrow> a = b"
proof -
  have "inj (of_char :: char \<Rightarrow> u8)" by (rule injI) (metis of_char_eq_iff unat_of_char)
  then show ?thesis by (simp add: as_bytes_def inj_map_eq_map)
qed

section \<open>DIDs and keys\<close>

definition did_from_verifying_key :: "crypto \<Rightarrow> u8 list \<Rightarrow> string" where
  "did_from_verifying_key c key_bytes = ''did:aaf:'' @ take 24 (hex c (sha256 c key_bytes))"

definition did_is_well_formed :: "string \<Rightarrow> bool" where
  "did_is_well_formed d \<longleftrightarrow> starts_with d ''did:aaf:'' \<and> length d > length ''did:aaf:'' + 8"

record key_material =
  km_secret :: "u8 list"
  km_verifying :: "u8 list"

definition key_from_seed :: "crypto \<Rightarrow> u8 list \<Rightarrow> key_material" where
  "key_from_seed c seed =
     (let secret = sha256 c (as_bytes ''aaf-identity-secret:'' @ seed);
          verifying = sha256 c (as_bytes ''aaf-identity-verifying:'' @ secret)
      in \<lparr>km_secret = secret, km_verifying = verifying\<rparr>)"

definition HMAC_BLOCK :: nat where
  "HMAC_BLOCK = 64"

definition hmac_sha256 :: "crypto \<Rightarrow> u8 list \<Rightarrow> u8 list \<Rightarrow> u8 list" where
  "hmac_sha256 c key message =
     (let k = (if length key > HMAC_BLOCK then sha256 c key else key);
          padded = k @ replicate (HMAC_BLOCK - length k) 0;
          i_key_pad = map (\<lambda>b. b XOR 0x36) padded;
          o_key_pad = map (\<lambda>b. b XOR 0x5c) padded;
          inner = sha256 c (i_key_pad @ message)
      in sha256 c (o_key_pad @ inner))"

fun ct_diff :: "u8 list \<Rightarrow> u8 list \<Rightarrow> u8 \<Rightarrow> u8" where
  "ct_diff (a # as) (b # bs) d = ct_diff as bs (d OR (a XOR b))"
| "ct_diff _ _ d = d"

definition constant_time_eq :: "u8 list \<Rightarrow> u8 list \<Rightarrow> bool" where
  "constant_time_eq a b = (if length a \<noteq> length b then False else ct_diff a b 0 = 0)"

type_synonym keystore = "key_material hashmap"

definition ks_generate :: "crypto \<Rightarrow> keystore \<Rightarrow> u8 list \<Rightarrow> keystore \<times> string" where
  "ks_generate c ks seed =
     (let material = key_from_seed c seed; did = did_from_verifying_key c (km_verifying material)
      in (ks(did \<mapsto> material), did))"

definition ks_knows :: "keystore \<Rightarrow> string \<Rightarrow> bool" where
  "ks_knows ks did \<longleftrightarrow> ks did \<noteq> None"

definition ks_sign :: "crypto \<Rightarrow> keystore \<Rightarrow> signer" where
  "ks_sign c ks did message =
     (case ks did of
        None \<Rightarrow> Err (UnknownDid did)
      | Some m \<Rightarrow> Ok (hex c (hmac_sha256 c (km_secret m) message)))"

definition ks_verify :: "crypto \<Rightarrow> keystore \<Rightarrow> verifier" where
  "ks_verify c ks did message signature =
     (case ks did of
        None \<Rightarrow> Err (UnknownDid did)
      | Some m \<Rightarrow>
          let expected = hex c (hmac_sha256 c (km_secret m) message)
          in if constant_time_eq (as_bytes expected) (as_bytes signature) then Ok ()
             else Err InvalidSignature)"

text \<open>
  The hash every signed payload is signed under: the hex digest of its serialisation, of no bytes
  if serialisation fails.
\<close>

definition canonical_hash :: "crypto \<Rightarrow> 'a serialiser \<Rightarrow> 'a \<Rightarrow> string" where
  "canonical_hash c to_vec x =
     (let bytes = (case to_vec x of Inr b \<Rightarrow> b | Inl _ \<Rightarrow> []) in hex c (sha256 c bytes))"

section \<open>Capability tokens\<close>

record token_claims =
  tc_issuer :: string
  tc_subject :: string
  tc_scope :: "string list"
  tc_depth_remaining :: u8
  tc_not_before :: timestamp
  tc_expires_at :: timestamp
  tc_jti :: string

record capability_token =
  ct_claims :: token_claims
  ct_signature :: string

definition token_issue ::
  "crypto \<Rightarrow> token_claims serialiser \<Rightarrow> token_claims \<Rightarrow> signer \<Rightarrow> (capability_token, identity_error) result" where
  "token_issue c to_vec claims sign =
     bind_result (sign (tc_issuer claims) (as_bytes (canonical_hash c to_vec claims)))
       (\<lambda>sig. Ok \<lparr>ct_claims = claims, ct_signature = sig\<rparr>)"

definition token_quick ::
  "crypto \<Rightarrow> token_claims serialiser \<Rightarrow> timestamp \<Rightarrow> string \<Rightarrow> string \<Rightarrow> string list \<Rightarrow> u8 \<Rightarrow> int \<Rightarrow> string
     \<Rightarrow> signer \<Rightarrow> (capability_token, identity_error) result" where
  "token_quick c to_vec now issuer subject scope depth ttl jti sign =
     token_issue c to_vec \<lparr>tc_issuer = issuer, tc_subject = subject, tc_scope = scope,
       tc_depth_remaining = depth, tc_not_before = now, tc_expires_at = now + ttl, tc_jti = jti\<rparr> sign"

definition token_verify ::
  "crypto \<Rightarrow> token_claims serialiser \<Rightarrow> timestamp \<Rightarrow> capability_token \<Rightarrow> verifier \<Rightarrow> string
     \<Rightarrow> (unit, identity_error) result" where
  "token_verify c to_vec now t verify required =
     bind_result (verify (tc_issuer (ct_claims t)) (as_bytes (canonical_hash c to_vec (ct_claims t))) (ct_signature t))
       (\<lambda>_. if now < tc_not_before (ct_claims t) \<or> now > tc_expires_at (ct_claims t)
            then Err TokenNotInEffect
            else if required \<notin> set (tc_scope (ct_claims t)) then Err (NotInScope required)
            else Ok ())"

definition token_step_down :: "capability_token \<Rightarrow> (token_claims, identity_error) result" where
  "token_step_down t =
     (if tc_depth_remaining (ct_claims t) = 0 then Err DepthExhausted
      else Ok ((ct_claims t)\<lparr>tc_depth_remaining := tc_depth_remaining (ct_claims t) - 1\<rparr>))"

section \<open>Manifests and attestations\<close>

record model_pin =
  mp_provider :: string
  mp_model :: string
  mp_system_prompt_hash :: string

record tool_binding =
  tb_tool_id :: string
  tb_version :: string
  tb_interface_hash :: string

record manifest_body =
  mb_did :: string
  mb_display_name :: string
  mb_source_hash :: string
  mb_model_pins :: "model_pin list"
  mb_prompt_hashes :: "string list"
  mb_tool_bindings :: "tool_binding list"
  mb_ontology_slices :: "string list"
  mb_capability_allow_list :: "string list"
  mb_eval_suite_refs :: "string list"
  mb_issued_at :: timestamp
  mb_expires_at :: "timestamp option"

text \<open>An \<open>AgentManifest\<close> is its body together with the signature.\<close>

record agent_manifest =
  am_body :: manifest_body
  am_signature :: string

definition manifest_verify ::
  "crypto \<Rightarrow> manifest_body serialiser \<Rightarrow> agent_manifest \<Rightarrow> verifier \<Rightarrow> (unit, identity_error) result" where
  "manifest_verify c to_vec m verify =
     (if \<not> did_is_well_formed (mb_did (am_body m)) then Err InvalidSignature
      else verify (mb_did (am_body m)) (as_bytes (canonical_hash c to_vec (am_body m))) (am_signature m))"

definition verify_source :: "agent_manifest \<Rightarrow> string \<Rightarrow> (unit, identity_error) result" where
  "verify_source m actual =
     (if mb_source_hash (am_body m) = actual then Ok ()
      else Err (ManifestDrift (mb_source_hash (am_body m)) actual))"

text \<open>The builder is the body without \<open>issued_at\<close>, which \<open>build\<close> sets.\<close>

definition manifest_builder_new :: "string \<Rightarrow> string \<Rightarrow> string \<Rightarrow> manifest_body" where
  "manifest_builder_new did name src =
     \<lparr>mb_did = did, mb_display_name = name, mb_source_hash = src, mb_model_pins = [],
      mb_prompt_hashes = [], mb_tool_bindings = [], mb_ontology_slices = [],
      mb_capability_allow_list = [], mb_eval_suite_refs = [], mb_issued_at = 0, mb_expires_at = None\<rparr>"

definition builder_model :: "manifest_body \<Rightarrow> model_pin \<Rightarrow> manifest_body" where
  "builder_model b p = b\<lparr>mb_model_pins := mb_model_pins b @ [p]\<rparr>"

definition builder_prompt_hash :: "manifest_body \<Rightarrow> string \<Rightarrow> manifest_body" where
  "builder_prompt_hash b h = b\<lparr>mb_prompt_hashes := mb_prompt_hashes b @ [h]\<rparr>"

definition builder_tool :: "manifest_body \<Rightarrow> tool_binding \<Rightarrow> manifest_body" where
  "builder_tool b t = b\<lparr>mb_tool_bindings := mb_tool_bindings b @ [t]\<rparr>"

definition builder_allow :: "manifest_body \<Rightarrow> string \<Rightarrow> manifest_body" where
  "builder_allow b cap = b\<lparr>mb_capability_allow_list := mb_capability_allow_list b @ [cap]\<rparr>"

definition builder_ontology_slice :: "manifest_body \<Rightarrow> string \<Rightarrow> manifest_body" where
  "builder_ontology_slice b sl = b\<lparr>mb_ontology_slices := mb_ontology_slices b @ [sl]\<rparr>"

definition builder_eval_ref :: "manifest_body \<Rightarrow> string \<Rightarrow> manifest_body" where
  "builder_eval_ref b r = b\<lparr>mb_eval_suite_refs := mb_eval_suite_refs b @ [r]\<rparr>"

definition builder_expires_at :: "manifest_body \<Rightarrow> timestamp \<Rightarrow> manifest_body" where
  "builder_expires_at b t = b\<lparr>mb_expires_at := Some t\<rparr>"

definition manifest_build ::
  "crypto \<Rightarrow> manifest_body serialiser \<Rightarrow> timestamp \<Rightarrow> manifest_body \<Rightarrow> signer
     \<Rightarrow> (agent_manifest, identity_error) result" where
  "manifest_build c to_vec now b sign =
     (let body = b\<lparr>mb_issued_at := now\<rparr>
      in case to_vec body of
           Inl e \<Rightarrow> Err (Serialisation e)
         | Inr bytes \<Rightarrow>
             bind_result (sign (mb_did body) (as_bytes (hex c (sha256 c bytes))))
               (\<lambda>sig. Ok \<lparr>am_body = body, am_signature = sig\<rparr>))"

record attestation_body =
  ab_issuer :: string
  ab_subject :: string
  ab_manifest_hash :: string
  ab_level :: attestation_level
  ab_rationale :: string
  ab_issued_at :: timestamp
  ab_expires_at :: "timestamp option"

record attestation =
  at_body :: attestation_body
  at_signature :: string

definition attestation_issue ::
  "crypto \<Rightarrow> agent_manifest serialiser \<Rightarrow> attestation_body serialiser \<Rightarrow> timestamp \<Rightarrow> string \<Rightarrow> string
     \<Rightarrow> agent_manifest \<Rightarrow> attestation_level \<Rightarrow> string \<Rightarrow> timestamp option \<Rightarrow> signer
     \<Rightarrow> (attestation, identity_error) result" where
  "attestation_issue c manifest_to_vec to_vec now issuer subject manifest level rationale expires sign =
     (let body = \<lparr>ab_issuer = issuer, ab_subject = subject,
                  ab_manifest_hash = canonical_hash c manifest_to_vec manifest, ab_level = level,
                  ab_rationale = rationale, ab_issued_at = now, ab_expires_at = expires\<rparr>
      in bind_result (sign issuer (as_bytes (canonical_hash c to_vec body)))
           (\<lambda>sig. Ok \<lparr>at_body = body, at_signature = sig\<rparr>))"

definition attestation_verify ::
  "crypto \<Rightarrow> attestation_body serialiser \<Rightarrow> attestation \<Rightarrow> verifier \<Rightarrow> (unit, identity_error) result" where
  "attestation_verify c to_vec a verify =
     verify (ab_issuer (at_body a)) (as_bytes (canonical_hash c to_vec (at_body a))) (at_signature a)"

definition is_in_effect :: "attestation \<Rightarrow> timestamp \<Rightarrow> bool" where
  "is_in_effect a now = (case ab_expires_at (at_body a) of Some e \<Rightarrow> now \<le> e | None \<Rightarrow> True)"

definition attestation_grants :: "attestation \<Rightarrow> attestation_level \<Rightarrow> bool" where
  "attestation_grants a required \<longleftrightarrow> required \<le> ab_level (at_body a)"

section \<open>Revocation\<close>

datatype revocation_kind = RK_Did | RK_PromptHash | RK_ToolVersion | RK_ManifestHash | RK_TokenJti

record revocation_body =
  rb_kind :: revocation_kind
  rb_target :: string
  rb_reason :: string
  rb_revoked_at :: timestamp
  rb_signer :: string

record revocation_entry =
  re_body :: revocation_body
  re_signature :: string

definition revocation_issue ::
  "crypto \<Rightarrow> revocation_body serialiser \<Rightarrow> timestamp \<Rightarrow> revocation_kind \<Rightarrow> string \<Rightarrow> string \<Rightarrow> string
     \<Rightarrow> signer \<Rightarrow> (revocation_entry, identity_error) result" where
  "revocation_issue c to_vec now kind target reason signer_did sign =
     (let body = \<lparr>rb_kind = kind, rb_target = target, rb_reason = reason, rb_revoked_at = now,
                  rb_signer = signer_did\<rparr>
      in bind_result (sign signer_did (as_bytes (canonical_hash c to_vec body)))
           (\<lambda>sig. Ok \<lparr>re_body = body, re_signature = sig\<rparr>))"

definition revocation_verify ::
  "crypto \<Rightarrow> revocation_body serialiser \<Rightarrow> revocation_entry \<Rightarrow> verifier \<Rightarrow> (unit, identity_error) result" where
  "revocation_verify c to_vec e verify =
     verify (rb_signer (re_body e)) (as_bytes (canonical_hash c to_vec (re_body e))) (re_signature e)"

record revocation_registry =
  rr_entries :: "revocation_entry list"
  rr_index :: "(revocation_kind \<times> string) set"

definition revocation_registry_new :: revocation_registry where
  "revocation_registry_new = \<lparr>rr_entries = [], rr_index = {}\<rparr>"

definition revoke :: "revocation_registry \<Rightarrow> revocation_entry \<Rightarrow> revocation_registry" where
  "revoke r e =
     r\<lparr>rr_entries := rr_entries r @ [e],
       rr_index := insert (rb_kind (re_body e), rb_target (re_body e)) (rr_index r)\<rparr>"

definition is_revoked :: "revocation_registry \<Rightarrow> revocation_kind \<Rightarrow> string \<Rightarrow> bool" where
  "is_revoked r kind target \<longleftrightarrow> (kind, target) \<in> rr_index r"

section \<open>Constant-time comparison\<close>

lemma word_or_eq_0: "(a OR b = 0) \<longleftrightarrow> a = 0 \<and> b = (0 :: 'a::len word)"
  by (metis or.right_neutral or_eq_0_iff)

lemma word_xor_eq_0: "(a XOR b = 0) \<longleftrightarrow> a = (b :: 'a::len word)"
  by (metis xor.left_neutral xor.assoc xor_self_eq)

lemma ct_diff_zero: "length a = length b \<Longrightarrow> ct_diff a b d = 0 \<longleftrightarrow> d = 0 \<and> a = b"
  by (induction a b d rule: ct_diff.induct) (auto simp: word_or_eq_0 word_xor_eq_0)

lemma constant_time_eq_iff: "constant_time_eq a b \<longleftrightarrow> a = b"
  by (auto simp: constant_time_eq_def ct_diff_zero)

section \<open>What a signature scheme promises\<close>

text \<open>
  The contract the token, manifest, attestation and revocation code relies on: a signature
  verifies iff it is the one the signer makes for that identity and message.
\<close>

locale signature_scheme =
  fixes sign :: signer
    and verify :: verifier
  assumes verify_iff: "verify did msg sig = Ok () \<longleftrightarrow> sign did msg = Ok sig"
begin

lemma sign_verify: "sign did msg = Ok sig \<Longrightarrow> verify did msg sig = Ok ()"
  by (simp add: verify_iff)

lemma verify_unique: "verify did msg s1 = Ok () \<Longrightarrow> verify did msg s2 = Ok () \<Longrightarrow> s1 = s2"
  by (simp add: verify_iff)

lemma token_issue_verify:
  assumes "token_issue c to_vec claims sign = Ok t"
  shows "ct_claims t = claims \<and>
     token_verify c to_vec now t verify required =
       (if now < tc_not_before claims \<or> now > tc_expires_at claims then Err TokenNotInEffect
        else if required \<notin> set (tc_scope claims) then Err (NotInScope required) else Ok ())"
  using assms by (auto simp: token_issue_def token_verify_def bind_result_Ok_iff sign_verify)

lemma token_verify_Ok_iff:
  "token_verify c to_vec now t verify required = Ok () \<longleftrightarrow>
     sign (tc_issuer (ct_claims t)) (as_bytes (canonical_hash c to_vec (ct_claims t))) = Ok (ct_signature t) \<and>
     tc_not_before (ct_claims t) \<le> now \<and> now \<le> tc_expires_at (ct_claims t) \<and>
     required \<in> set (tc_scope (ct_claims t))"
  by (auto simp: token_verify_def bind_result_Ok_iff verify_iff)

lemma manifest_build_verify:
  assumes "manifest_build c to_vec now b sign = Ok m" "did_is_well_formed (mb_did b)"
  shows "manifest_verify c to_vec m verify = Ok ()"
  using assms
  by (auto simp: manifest_build_def manifest_verify_def canonical_hash_def Let_def bind_result_Ok_iff
      sign_verify split: sum.splits)

lemma attestation_issue_verify:
  "attestation_issue c mv to_vec now i s m l r e sign = Ok a \<Longrightarrow> attestation_verify c to_vec a verify = Ok ()"
  by (auto simp: attestation_issue_def attestation_verify_def Let_def bind_result_Ok_iff sign_verify)

lemma revocation_issue_verify:
  "revocation_issue c to_vec now k t r d sign = Ok e \<Longrightarrow> revocation_verify c to_vec e verify = Ok ()"
  by (auto simp: revocation_issue_def revocation_verify_def Let_def bind_result_Ok_iff sign_verify)

end

interpretation in_memory: signature_scheme "ks_sign c ks" "ks_verify c ks" for c ks
  by unfold_locales
    (auto simp: ks_sign_def ks_verify_def Let_def constant_time_eq_iff as_bytes_inj split: option.splits)

section \<open>Properties\<close>

text \<open>
  The in-memory keystore accepts a signature for a known identity iff it is, byte for byte, the
  hex-encoded HMAC of the message under that identity's secret: the constant-time comparison is
  exact equality. For an unknown identity both signing and verification report it.
\<close>

theorem keystore_verify_exact:
  "ks_verify c ks did msg sig =
     (case ks did of
        None \<Rightarrow> Err (UnknownDid did)
      | Some m \<Rightarrow> if sig = hex c (hmac_sha256 c (km_secret m) msg) then Ok () else Err InvalidSignature)"
  by (auto simp: ks_verify_def Let_def constant_time_eq_iff as_bytes_inj split: option.splits)

text \<open>
  C7. A token issued by an identity the keystore holds verifies exactly inside its validity window and
  for exactly the capabilities of its scope; outside it reports the window error first, then the
  scope error, and never a signature error.
\<close>

theorem token_issue_then_verify:
  assumes "token_issue c to_vec claims (ks_sign c ks) = Ok t"
  shows "token_verify c to_vec now t (ks_verify c ks) required =
       (if now < tc_not_before claims \<or> now > tc_expires_at claims then Err TokenNotInEffect
        else if required \<notin> set (tc_scope claims) then Err (NotInScope required) else Ok ())"
  using in_memory.token_issue_verify[OF assms] by blast

definition ex_crypto :: crypto where
  "ex_crypto = \<lparr>sha256 = (\<lambda>bs. take 32 (bs @ replicate 32 0)), hex = map (\<lambda>b. char_of (unat b))\<rparr>"

definition ex_claims :: token_claims where
  "ex_claims = \<lparr>tc_issuer = ''did'', tc_subject = ''sub'', tc_scope = [''cap-1''], tc_depth_remaining = 2,
     tc_not_before = 10, tc_expires_at = 20, tc_jti = ''j''\<rparr>"

definition ex_keystore :: keystore where
  "ex_keystore = [''did'' \<mapsto> key_from_seed ex_crypto [1, 2, 3]]"

theorem token_issue_then_verify_witness:
  "\<exists>t. token_issue ex_crypto (\<lambda>_. Inr []) ex_claims (ks_sign ex_crypto ex_keystore) = Ok t \<and>
     token_verify ex_crypto (\<lambda>_. Inr []) 15 t (ks_verify ex_crypto ex_keystore) ''cap-1'' = Ok () \<and>
     token_verify ex_crypto (\<lambda>_. Inr []) 25 t (ks_verify ex_crypto ex_keystore) ''cap-1'' = Err TokenNotInEffect"
proof -
  obtain t where t: "token_issue ex_crypto (\<lambda>_. Inr []) ex_claims (ks_sign ex_crypto ex_keystore) = Ok t"
    by (simp add: token_issue_def ks_sign_def ex_keystore_def ex_claims_def)
  show ?thesis using t token_issue_then_verify[OF t] by (simp add: ex_claims_def)
qed

text \<open>Re-delegation: each hop steps the claims down and signs them again.\<close>

fun redelegate ::
  "crypto \<Rightarrow> token_claims serialiser \<Rightarrow> signer \<Rightarrow> nat \<Rightarrow> capability_token \<Rightarrow> (capability_token, identity_error) result" where
  "redelegate c to_vec sign 0 t = Ok t"
| "redelegate c to_vec sign (Suc n) t =
     bind_result (token_step_down t) (\<lambda>claims.
       bind_result (token_issue c to_vec claims sign) (redelegate c to_vec sign n))"

text \<open>
  C28. Re-delegation is bounded and only ever narrows: after \<open>n\<close> hops the token still names the
  same issuer, subject, scope and validity window, its remaining depth has dropped by exactly
  \<open>n\<close>, and \<open>n\<close> cannot exceed the depth the first token granted.
\<close>

theorem redelegation_bounded:
  assumes "redelegate c to_vec sign n t = Ok t'"
  shows "n \<le> unat (tc_depth_remaining (ct_claims t)) \<and>
     ct_claims t' = (ct_claims t)\<lparr>tc_depth_remaining := tc_depth_remaining (ct_claims t) - of_nat n\<rparr>"
  using assms
proof (induction n arbitrary: t)
  case (Suc n)
  let ?d = "tc_depth_remaining (ct_claims t)"
  from Suc.prems obtain claims u where c: "token_step_down t = Ok claims"
    "token_issue c to_vec claims sign = Ok u" "redelegate c to_vec sign n u = Ok t'"
    by (auto simp: bind_result_Ok_iff)
  then have d: "?d \<noteq> 0" and cl: "claims = (ct_claims t)\<lparr>tc_depth_remaining := ?d - 1\<rparr>"
    by (auto simp: token_step_down_def split: if_splits)
  have u: "ct_claims u = claims" using c(2) by (auto simp: token_issue_def bind_result_Ok_iff)
  have "unat (?d - 1) = unat ?d - 1" "0 < unat ?d" using d by (simp_all add: unat_minus_one unat_gt_0)
  with Suc.IH[OF c(3)] u cl show ?case by (auto simp: algebra_simps)
qed simp

theorem redelegation_bounded_witness:
  "\<exists>t'. redelegate ex_crypto (\<lambda>_. Inr []) (\<lambda>_ _. Ok ''s'') 2 \<lparr>ct_claims = ex_claims, ct_signature = []\<rparr> = Ok t'
     \<and> tc_depth_remaining (ct_claims t') = 0"
proof -
  obtain t' where t': "redelegate ex_crypto (\<lambda>_. Inr []) (\<lambda>_ _. Ok ''s'') 2 \<lparr>ct_claims = ex_claims, ct_signature = []\<rparr> = Ok t'"
    by (simp add: numeral_2_eq_2 token_step_down_def token_issue_def ex_claims_def)
  from redelegation_bounded[OF t'] t' show ?thesis by (simp add: ex_claims_def)
qed

inductive revocation_reachable :: "revocation_registry \<Rightarrow> bool" where
  rv_new: "revocation_reachable revocation_registry_new"
| rv_revoke: "revocation_reachable r \<Longrightarrow> revocation_reachable (revoke r e)"

text \<open>
  The revocation registry is append-only and its fast index agrees with its audit list: in every
  reachable registry a target counts as revoked iff some listed entry revokes it, and later
  revocations never lift it nor reorder the list.
\<close>

theorem revocation_index_agrees:
  assumes "revocation_reachable r"
  shows "(is_revoked r kind target \<longleftrightarrow>
            (\<exists>e \<in> set (rr_entries r). rb_kind (re_body e) = kind \<and> rb_target (re_body e) = target)) \<and>
         (is_revoked r kind target \<longrightarrow> is_revoked (revoke r e') kind target) \<and>
         rr_entries (revoke r e') = rr_entries r @ [e']"
  using assms
  by (induction rule: revocation_reachable.induct)
    (auto simp: is_revoked_def revoke_def revocation_registry_new_def)

end
