(* ===== verification/Trust.thy ===== *)
theory Trust
  imports Identity
begin

text \<open>
  Trust scoring and autonomy (\<open>aaf-trust\<close>): score events and their history, the autonomy policy,
  promotion rules, the trust registry with its \<open>observe\<close> transition, and delegation. The
  \<open>RwLock\<close>-guarded hash map is a map, and each method is one atomic step on it. Counters are
  64-bit words, scores are doubles.
\<close>

section \<open>Score events and history\<close>

datatype score_event = SEv_Success | SEv_HumanOverride | SEv_PolicyViolation | SEv_AccuracyRegression

fun event_delta :: "score_event \<Rightarrow> f64" where
  "event_delta SEv_Success = to_f64 (5 / 1000)"
| "event_delta SEv_HumanOverride = to_f64 (- 2 / 100)"
| "event_delta SEv_PolicyViolation = to_f64 (- 30 / 100)"
| "event_delta SEv_AccuracyRegression = to_f64 (- 5 / 100)"

record score_history =
  sh_total :: u64
  sh_success :: u64
  sh_human_override :: u64
  sh_policy_violations :: u64
  sh_last_updated :: "timestamp option"

definition history_default :: score_history where
  "history_default = \<lparr>sh_total = 0, sh_success = 0, sh_human_override = 0, sh_policy_violations = 0,
     sh_last_updated = None\<rparr>"

definition history_observe :: "timestamp \<Rightarrow> score_history \<Rightarrow> score_event \<Rightarrow> score_history \<times> f64" where
  "history_observe now h ev =
     (let h1 = h\<lparr>sh_total := sh_total h + 1\<rparr>;
          h2 = (case ev of
                  SEv_Success \<Rightarrow> h1\<lparr>sh_success := sh_success h1 + 1\<rparr>
                | SEv_HumanOverride \<Rightarrow> h1\<lparr>sh_human_override := sh_human_override h1 + 1\<rparr>
                | SEv_PolicyViolation \<Rightarrow> h1\<lparr>sh_policy_violations := sh_policy_violations h1 + 1\<rparr>
                | SEv_AccuracyRegression \<Rightarrow> h1)
      in (h2\<lparr>sh_last_updated := Some now\<rparr>, event_delta ev))"

definition override_rate :: "score_history \<Rightarrow> f64" where
  "override_rate h =
     (if sh_total h = 0 then Fin 0
      else fdiv (f64_of_nat (unat (sh_human_override h))) (f64_of_nat (unat (sh_total h))))"

section \<open>Autonomy policy and promotion rules\<close>

record autonomy_policy =
  ap_l2 :: f64
  ap_l3 :: f64
  ap_l4 :: f64
  ap_l5 :: f64

definition autonomy_policy_default :: autonomy_policy where
  "autonomy_policy_default = \<lparr>ap_l2 = to_f64 (55 / 100), ap_l3 = to_f64 (7 / 10),
     ap_l4 = to_f64 (85 / 100), ap_l5 = to_f64 (95 / 100)\<rparr>"

definition level_for :: "autonomy_policy \<Rightarrow> f64 \<Rightarrow> autonomy_level" where
  "level_for p score =
     (if fle (ap_l5 p) score then Level5
      else if fle (ap_l4 p) score then Level4
      else if fle (ap_l3 p) score then Level3
      else if fle (ap_l2 p) score then Level2
      else Level1)"

datatype promotion_decision = Promote | Hold | Demote | DropToFloor

record promotion_rules =
  pr_override_rate_ceiling :: f64
  pr_override_rate_floor_for_promotion :: f64
  pr_min_executions_for_promotion :: u64

definition promotion_rules_default :: promotion_rules where
  "promotion_rules_default = \<lparr>pr_override_rate_ceiling = to_f64 (5 / 100),
     pr_override_rate_floor_for_promotion = to_f64 (1 / 100),
     pr_min_executions_for_promotion = 1000\<rparr>"

definition promotion_evaluate ::
  "promotion_rules \<Rightarrow> autonomy_level \<Rightarrow> score_history \<Rightarrow> promotion_decision" where
  "promotion_evaluate r current h =
     (if sh_policy_violations h > 0 then DropToFloor
      else let orate = override_rate h
           in if flt (pr_override_rate_ceiling r) orate then Demote
              else if current = Level5 then Hold
              else if pr_min_executions_for_promotion r \<le> sh_total h \<and>
                      flt orate (pr_override_rate_floor_for_promotion r)
              then Promote else Hold)"

section \<open>The trust registry\<close>

record trust_record =
  trr_score :: trust_score
  trr_history :: score_history

record trust_registry =
  trg_inner :: "trust_record hashmap"
  trg_policy :: autonomy_policy
  trg_rules :: promotion_rules

definition trust_registry_new :: trust_registry where
  "trust_registry_new = \<lparr>trg_inner = Map.empty, trg_policy = autonomy_policy_default,
     trg_rules = promotion_rules_default\<rparr>"

definition fresh_record :: trust_record where
  "fresh_record = \<lparr>trr_score = trust_initial, trr_history = history_default\<rparr>"

definition trust_register :: "trust_registry \<Rightarrow> string \<Rightarrow> trust_registry" where
  "trust_register reg agent = reg\<lparr>trg_inner := (trg_inner reg)(agent \<mapsto> fresh_record)\<rparr>"

definition trust_get :: "trust_registry \<Rightarrow> string \<Rightarrow> trust_score" where
  "trust_get reg agent =
     (case trg_inner reg agent of None \<Rightarrow> trust_initial | Some r \<Rightarrow> trr_score r)"

definition apply_decision :: "promotion_decision \<Rightarrow> trust_score \<Rightarrow> trust_score" where
  "apply_decision d s =
     (case d of
        DropToFloor \<Rightarrow> s\<lparr>ts_value := fmin (to_f64 (1 / 2)) (ts_value s), ts_autonomy := Level1\<rparr>
      | Demote \<Rightarrow> s\<lparr>ts_autonomy := from_u8 (max (saturating_sub (as_u8 (ts_autonomy s)) 1) 1)\<rparr>
      | Promote \<Rightarrow> s\<lparr>ts_autonomy := from_u8 (min (as_u8 (ts_autonomy s) + 1) 5)\<rparr>
      | Hold \<Rightarrow> s)"

definition record_observe ::
  "autonomy_policy \<Rightarrow> promotion_rules \<Rightarrow> timestamp \<Rightarrow> trust_record \<Rightarrow> score_event
     \<Rightarrow> trust_record \<times> promotion_decision" where
  "record_observe pol rules now r ev =
     (let (h, delta) = history_observe now (trr_history r) ev;
          v = trust_clamped (fadd (ts_value (trr_score r)) delta);
          s = \<lparr>ts_value = v, ts_autonomy = level_for pol v\<rparr>;
          d = promotion_evaluate rules (ts_autonomy s) h
      in (\<lparr>trr_score = apply_decision d s, trr_history = h\<rparr>, d))"

definition trust_observe ::
  "timestamp \<Rightarrow> trust_registry \<Rightarrow> string \<Rightarrow> score_event
     \<Rightarrow> trust_registry \<times> trust_score \<times> promotion_decision" where
  "trust_observe now reg agent ev =
     (let r = (case trg_inner reg agent of None \<Rightarrow> fresh_record | Some r \<Rightarrow> r);
          (r', d) = record_observe (trg_policy reg) (trg_rules reg) now r ev
      in (reg\<lparr>trg_inner := (trg_inner reg)(agent \<mapsto> r')\<rparr>, trr_score r', d))"

section \<open>Delegation\<close>

datatype delegation_error = InsufficientTrust autonomy_level autonomy_level | TokenRejected identity_error

definition effective_trust :: "autonomy_level \<Rightarrow> autonomy_level \<Rightarrow> autonomy_level" where
  "effective_trust delegator delegatee = from_u8 (min (as_u8 delegator) (as_u8 delegatee))"

definition require_trust :: "autonomy_level \<Rightarrow> autonomy_level \<Rightarrow> (unit, delegation_error) result" where
  "require_trust required effective =
     (if as_u8 required \<le> as_u8 effective then Ok () else Err (InsufficientTrust required effective))"

definition delegation_verify_token ::
  "crypto \<Rightarrow> token_claims serialiser \<Rightarrow> timestamp \<Rightarrow> capability_token \<Rightarrow> verifier \<Rightarrow> string
     \<Rightarrow> (unit, delegation_error) result" where
  "delegation_verify_token c to_vec now t verify required =
     (case token_verify c to_vec now t verify required of
        Inl e \<Rightarrow> Err (TokenRejected e)
      | Inr _ \<Rightarrow> Ok ())"

section \<open>Facts\<close>

lemma effective_trust_min: "effective_trust a b = min a b"
  by (auto simp: effective_trust_def min_def less_eq_autonomy_level_def)

lemma require_trust_Ok_iff: "require_trust r e = Ok () \<longleftrightarrow> r \<le> e"
  by (simp add: require_trust_def less_eq_autonomy_level_def)

definition score_ok :: "trust_score \<Rightarrow> bool" where
  "score_ok s = (case ts_value s of Fin v \<Rightarrow> 0 \<le> v \<and> v \<le> 1 | _ \<Rightarrow> False)"

lemma score_ok_initial: "score_ok trust_initial"
  by (simp add: score_ok_def trust_initial_def half_exact)

lemma score_ok_apply_decision: "score_ok s \<Longrightarrow> score_ok (apply_decision d s)"
  by (cases d) (auto simp: score_ok_def apply_decision_def half_exact fmin_def)

lemma score_ok_record_observe: "score_ok (trr_score (fst (record_observe pol rules now r ev)))"
proof -
  have "score_ok \<lparr>ts_value = trust_clamped x, ts_autonomy = l\<rparr>" for x l
    using trust_clamped_range[of x] by (auto simp: score_ok_def)
  then show ?thesis
    by (auto simp: record_observe_def Let_def intro: score_ok_apply_decision split: prod.splits)
qed

text \<open>The registry's life: registrations and observations for any agents in any order.\<close>

inductive trust_reachable :: "trust_registry \<Rightarrow> bool" where
  tr_new: "trust_reachable trust_registry_new"
| tr_register: "trust_reachable reg \<Longrightarrow> trust_reachable (trust_register reg agent)"
| tr_observe: "trust_reachable reg \<Longrightarrow> trust_reachable (fst (trust_observe now reg agent ev))"

lemma trust_observe_inner:
  "trg_inner (fst (trust_observe now reg agent ev)) =
     (trg_inner reg)(agent \<mapsto> fst (record_observe (trg_policy reg) (trg_rules reg) now
        (case trg_inner reg agent of None \<Rightarrow> fresh_record | Some r \<Rightarrow> r) ev))"
  by (simp add: trust_observe_def Let_def split: prod.splits)

lemma trust_observe_config:
  "trg_policy (fst (trust_observe now reg agent ev)) = trg_policy reg"
  "trg_rules (fst (trust_observe now reg agent ev)) = trg_rules reg"
  by (simp_all add: trust_observe_def Let_def split: prod.splits)

definition trust_inv :: "trust_registry \<Rightarrow> bool" where
  "trust_inv reg \<longleftrightarrow> (\<forall>a r. trg_inner reg a = Some r \<longrightarrow> score_ok (trr_score r))"

lemma trust_reachable_inv: "trust_reachable reg \<Longrightarrow> trust_inv reg"
  by (induction rule: trust_reachable.induct)
    (auto simp: trust_inv_def trust_registry_new_def trust_register_def fresh_record_def
      score_ok_initial trust_observe_inner score_ok_record_observe)

fun record_run ::
  "autonomy_policy \<Rightarrow> promotion_rules \<Rightarrow> trust_record \<Rightarrow> (timestamp \<times> score_event) list \<Rightarrow> trust_record" where
  "record_run pol rules r [] = r"
| "record_run pol rules r ((now, ev) # es) = record_run pol rules (fst (record_observe pol rules now r ev)) es"

fun observe_all :: "trust_registry \<Rightarrow> string \<Rightarrow> (timestamp \<times> score_event) list \<Rightarrow> trust_registry" where
  "observe_all reg agent [] = reg"
| "observe_all reg agent ((now, ev) # es) = observe_all (fst (trust_observe now reg agent ev)) agent es"

lemma observe_all_record:
  "trg_inner reg agent = Some r \<Longrightarrow>
     trg_inner (observe_all reg agent es) agent = Some (record_run (trg_policy reg) (trg_rules reg) r es)"
  by (induction reg agent es arbitrary: r rule: observe_all.induct)
    (simp_all add: trust_observe_inner trust_observe_config)

lemma history_record_observe:
  "trr_history (fst (record_observe pol rules now r ev)) = fst (history_observe now (trr_history r) ev)"
  by (simp add: record_observe_def Let_def split: prod.splits)

lemma violations_history_observe:
  "sh_policy_violations (fst (history_observe now h ev)) =
     sh_policy_violations h + (if ev = SEv_PolicyViolation then 1 else 0)"
  by (cases ev) (simp_all add: history_observe_def Let_def)

lemma total_history_observe: "sh_total (fst (history_observe now h ev)) = sh_total h + 1"
  by (cases ev) (simp_all add: history_observe_def Let_def)

definition violation_count :: "(timestamp \<times> score_event) list \<Rightarrow> nat" where
  "violation_count es = length (filter (\<lambda>e. snd e = SEv_PolicyViolation) es)"

lemma violations_record_run:
  "sh_policy_violations (trr_history (record_run pol rules r es)) =
     sh_policy_violations (trr_history r) + of_nat (violation_count es)"
  by (induction pol rules r es rule: record_run.induct)
    (auto simp: history_record_observe violations_history_observe violation_count_def)

lemma record_run_snoc:
  "record_run pol rules r (es @ [(now, ev)]) = fst (record_observe pol rules now (record_run pol rules r es) ev)"
  by (induction pol rules r es rule: record_run.induct) simp_all

lemma record_observe_floor:
  assumes "sh_policy_violations (trr_history (fst (record_observe pol rules now r ev))) \<noteq> 0"
  shows "ts_autonomy (trr_score (fst (record_observe pol rules now r ev))) = Level1 \<and>
         fle (ts_value (trr_score (fst (record_observe pol rules now r ev)))) (Fin (1 / 2))"
proof -
  have "promotion_evaluate rules l h = DropToFloor" if "sh_policy_violations h \<noteq> 0" for l h
    using that by (simp add: promotion_evaluate_def word_neq_0_conv)
  moreover have "fle (fmin (Fin (1 / 2)) v) (Fin (1 / 2))" for v
    by (cases v) (auto simp: fmin_def fle_def)
  ultimately show ?thesis
    using assms by (auto simp: record_observe_def Let_def apply_decision_def half_exact split: prod.splits)
qed

text \<open>
  C5. A policy violation is never forgiven by good behaviour: from registration on, in any sequence of
  fewer than 2\<open>^\<close>64 observed events that contains a policy violation, the agent ends at the floor
  level with a trust value of at most one half, however many successes follow.
\<close>

theorem violation_floor_is_absorbing:
  assumes "(now, SEv_PolicyViolation) \<in> set es" "length es < 2 ^ 64"
  shows "ts_autonomy (trust_get (observe_all (trust_register reg agent) agent es) agent) = Level1 \<and>
         fle (ts_value (trust_get (observe_all (trust_register reg agent) agent es) agent)) (Fin (1 / 2))"
proof -
  let ?reg = "trust_register reg agent" and ?run = "record_run (trg_policy reg) (trg_rules reg) fresh_record"
  have "trg_inner ?reg agent = Some fresh_record" by (simp add: trust_register_def)
  from observe_all_record[OF this]
  have get: "trust_get (observe_all ?reg agent es) agent = trr_score (?run es)"
    by (simp add: trust_get_def trust_register_def)
  have pos: "0 < violation_count es"
    using assms(1) by (force simp: violation_count_def filter_empty_conv)
  moreover have "violation_count es < 2 ^ 64"
    using assms(2) unfolding violation_count_def by (rule le_less_trans[OF length_filter_le])
  ultimately have "unat (of_nat (violation_count es) :: u64) \<noteq> 0"
    by (simp add: unat_of_nat)
  then have "(of_nat (violation_count es) :: u64) \<noteq> 0"
    by (metis unat_0)
  then have nz: "sh_policy_violations (trr_history (?run es)) \<noteq> 0"
    by (simp add: violations_record_run fresh_record_def history_default_def)
  obtain es' n e where "es = es' @ [(n, e)]"
    using assms(1) by (metis rev_exhaust surj_pair list.set(1) empty_iff)
  with nz record_observe_floor show ?thesis
    unfolding get by (simp add: record_run_snoc)
qed

theorem violation_floor_is_absorbing_witness:
  "ts_autonomy (trust_get (observe_all (trust_register trust_registry_new ''a'') ''a''
     [(1, SEv_PolicyViolation), (2, SEv_Success)]) ''a'') = Level1"
  using violation_floor_is_absorbing[of 1 "[(1, SEv_PolicyViolation), (2, SEv_Success)]"
      trust_registry_new "''a''"] by simp

definition earned :: "autonomy_policy \<Rightarrow> trust_record \<Rightarrow> bool" where
  "earned pol r \<longleftrightarrow> unat (as_u8 (ts_autonomy (trr_score r)))
     \<le> unat (as_u8 (level_for pol (ts_value (trr_score r)))) + (if sh_total (trr_history r) < 1000 then 0 else 1)"

lemma level1_least: "unat (as_u8 Level1) \<le> unat (as_u8 l)"
  by (cases l) simp_all

lemma earned_apply:
  assumes "d = Promote \<Longrightarrow> 1000 \<le> sh_total h"
  shows "earned pol \<lparr>trr_score = apply_decision d \<lparr>ts_value = v, ts_autonomy = level_for pol v\<rparr>, trr_history = h\<rparr>"
proof (cases d)
  case Promote
  with assms have "\<not> sh_total h < 1000" by (simp add: not_less)
  then show ?thesis using Promote
    by (cases "level_for pol v") (simp_all add: earned_def apply_decision_def from_u8_def min_def)
next
  case Demote
  then show ?thesis
    by (cases "level_for pol v")
      (simp_all add: earned_def apply_decision_def from_u8_def saturating_sub_def max_def)
next
  case DropToFloor
  then show ?thesis using level1_least by (simp add: earned_def apply_decision_def trans_le_add1)
qed (simp add: earned_def apply_decision_def)

lemma promotion_Promote_min:
  "promotion_evaluate rules l h = Promote \<Longrightarrow> pr_min_executions_for_promotion rules \<le> sh_total h"
  by (auto simp: promotion_evaluate_def Let_def split: if_splits)

lemma earned_record_observe:
  "pr_min_executions_for_promotion rules = 1000 \<Longrightarrow> earned pol (fst (record_observe pol rules now r ev))"
  by (auto simp: record_observe_def Let_def intro!: earned_apply dest: promotion_Promote_min
      split: prod.splits)

lemma earned_fresh: "earned pol fresh_record"
  using level1_least
  by (simp add: earned_def fresh_record_def trust_initial_def trans_le_add1 del: as_u8.simps)

lemma trust_reachable_earned:
  "trust_reachable reg \<Longrightarrow>
     trg_policy reg = autonomy_policy_default \<and> trg_rules reg = promotion_rules_default \<and>
     (\<forall>a r. trg_inner reg a = Some r \<longrightarrow> earned autonomy_policy_default r)"
proof (induction rule: trust_reachable.induct)
  case (tr_observe reg now agent ev)
  then show ?case
    by (auto simp: trust_observe_inner trust_observe_config promotion_rules_default_def
        intro: earned_record_observe)
qed (auto simp: trust_registry_new_def trust_register_def earned_fresh)

text \<open>
  C15. Every trust value a reachable registry reports is a finite double between 0 and 1, and the
  reported autonomy exceeds the level the score earns by at most one step, and by none before the
  agent has 1000 recorded executions.
\<close>

theorem trust_registry_invariant:
  assumes "trust_reachable reg" "trg_inner reg agent = Some r"
  shows "(\<exists>v. ts_value (trr_score r) = Fin v \<and> 0 \<le> v \<and> v \<le> 1) \<and>
     unat (as_u8 (ts_autonomy (trr_score r)))
       \<le> unat (as_u8 (level_for autonomy_policy_default (ts_value (trr_score r))))
         + (if sh_total (trr_history r) < 1000 then 0 else 1)"
proof -
  have "score_ok (trr_score r)" "earned autonomy_policy_default r"
    using trust_reachable_inv[OF assms(1)] trust_reachable_earned[OF assms(1)] assms(2)
    by (auto simp: trust_inv_def)
  then show ?thesis
    by (cases "ts_value (trr_score r)") (auto simp: score_ok_def earned_def)
qed

theorem trust_registry_invariant_witness:
  "\<exists>v. ts_value (trust_get (trust_register trust_registry_new ''a'') ''a'') = Fin v \<and> 0 \<le> v \<and> v \<le> 1"
proof -
  have "trust_reachable (trust_register trust_registry_new ''a'')" by (intro tr_register tr_new)
  from trust_registry_invariant[OF this, of "''a''" fresh_record] show ?thesis
    by (simp add: trust_register_def trust_get_def)
qed

end
