(* ===== verification/Breaker.thy ===== *)
theory Breaker
  imports Contracts
begin

text \<open>
  Circuit breakers and degradation (\<open>aaf-registry/src/circuit_breaker.rs\<close>, \<open>degradation.rs\<close>,
  \<open>health.rs\<close>). A breaker is a record; each method is a function of the current time and the breaker.
  The registry of breakers is a map from keys; its methods lift those of one breaker.
\<close>

section \<open>One breaker\<close>

datatype breaker_state = BS_Closed | BS_Open | BS_HalfOpen

datatype breaker_level = BL_Service | BL_Capability | BL_Agent | BL_Flow | BL_System

record breaker_config =
  bc_failure_threshold :: u32
  bc_window :: int
  bc_cooldown :: int

text \<open>Durations are nanoseconds, like timestamps.\<close>

definition seconds :: "int \<Rightarrow> int" where
  "seconds n = n * 1000000000"

definition breaker_config_default :: breaker_config where
  "breaker_config_default = \<lparr>bc_failure_threshold = 5, bc_window = seconds 60, bc_cooldown = seconds 30\<rparr>"

record breaker_inner =
  bi_state :: breaker_state
  bi_level :: breaker_level
  bi_config :: breaker_config
  bi_failures :: "timestamp list"
  bi_opened_at :: "timestamp option"
  bi_reason :: "string option"

definition breaker_new :: "breaker_level \<Rightarrow> breaker_config \<Rightarrow> breaker_inner" where
  "breaker_new lvl cfg =
     \<lparr>bi_state = BS_Closed, bi_level = lvl, bi_config = cfg, bi_failures = [], bi_opened_at = None,
      bi_reason = None\<rparr>"

definition prune :: "timestamp \<Rightarrow> breaker_inner \<Rightarrow> breaker_inner" where
  "prune now b =
     (let cutoff = now - bc_window (bi_config b)
      in b\<lparr>bi_failures := filter (\<lambda>t. t > cutoff) (bi_failures b)\<rparr>)"

definition inner_record_failure ::
  "timestamp \<Rightarrow> string option \<Rightarrow> breaker_inner \<Rightarrow> breaker_inner \<times> bool" where
  "inner_record_failure now reason b =
     (let b1 = prune now b;
          b2 = b1\<lparr>bi_failures := bi_failures b1 @ [now]\<rparr>
      in if bi_state b2 = BS_HalfOpen
         then (b2\<lparr>bi_state := BS_Open, bi_opened_at := Some now, bi_reason := reason\<rparr>, True)
         else if (of_nat (length (bi_failures b2)) :: u32) \<ge> bc_failure_threshold (bi_config b2)
                 \<and> bi_state b2 = BS_Closed
         then (b2\<lparr>bi_state := BS_Open, bi_opened_at := Some now, bi_reason := reason\<rparr>, True)
         else (b2, False))"

definition inner_record_success :: "timestamp \<Rightarrow> breaker_inner \<Rightarrow> breaker_inner" where
  "inner_record_success now b =
     (let b1 = prune now b
      in if bi_state b1 = BS_HalfOpen
         then b1\<lparr>bi_state := BS_Closed, bi_failures := [], bi_opened_at := None, bi_reason := None\<rparr>
         else b1)"

definition effective_state :: "timestamp \<Rightarrow> breaker_inner \<Rightarrow> breaker_inner \<times> breaker_state" where
  "effective_state now b =
     (let b' = (if bi_state b = BS_Open
                then (case bi_opened_at b of
                        Some opened \<Rightarrow>
                          if now - opened \<ge> bc_cooldown (bi_config b) then b\<lparr>bi_state := BS_HalfOpen\<rparr> else b
                      | None \<Rightarrow> b)
                else b)
      in (b', bi_state b'))"

section \<open>The registry of breakers\<close>

record breaker_snapshot =
  bsn_key :: string
  bsn_level :: breaker_level
  bsn_state :: breaker_state
  bsn_failure_count :: u32
  bsn_reason :: "string option"

type_synonym circuit_breaker_registry = "breaker_inner hashmap"

definition cb_register ::
  "circuit_breaker_registry \<Rightarrow> string \<Rightarrow> breaker_level \<Rightarrow> breaker_config \<Rightarrow> circuit_breaker_registry" where
  "cb_register g key lvl cfg =
     (case g key of None \<Rightarrow> g(key \<mapsto> breaker_new lvl cfg) | Some _ \<Rightarrow> g)"

definition cb_record_failure ::
  "timestamp \<Rightarrow> circuit_breaker_registry \<Rightarrow> string \<Rightarrow> string option \<Rightarrow> circuit_breaker_registry \<times> bool" where
  "cb_record_failure now g key reason =
     (case g key of
        Some b \<Rightarrow> (let (b', r) = inner_record_failure now reason b in (g(key \<mapsto> b'), r))
      | None \<Rightarrow> (g, False))"

definition cb_record_success ::
  "timestamp \<Rightarrow> circuit_breaker_registry \<Rightarrow> string \<Rightarrow> circuit_breaker_registry" where
  "cb_record_success now g key =
     (case g key of Some b \<Rightarrow> g(key \<mapsto> inner_record_success now b) | None \<Rightarrow> g)"

definition cb_allows :: "timestamp \<Rightarrow> circuit_breaker_registry \<Rightarrow> string \<Rightarrow> circuit_breaker_registry \<times> bool" where
  "cb_allows now g key =
     (case g key of
        Some b \<Rightarrow> (let (b', st) = effective_state now b in (g(key \<mapsto> b'), st \<noteq> BS_Open))
      | None \<Rightarrow> (g, True))"

definition snapshot_of :: "string \<Rightarrow> breaker_inner \<Rightarrow> breaker_state \<Rightarrow> breaker_snapshot" where
  "snapshot_of key b st =
     \<lparr>bsn_key = key, bsn_level = bi_level b, bsn_state = st,
      bsn_failure_count = of_nat (length (bi_failures b)), bsn_reason = bi_reason b\<rparr>"

definition cb_snapshot ::
  "timestamp \<Rightarrow> circuit_breaker_registry \<Rightarrow> string \<Rightarrow> circuit_breaker_registry \<times> breaker_snapshot option" where
  "cb_snapshot now g key =
     (case g key of
        Some b \<Rightarrow> (let (b', st) = effective_state now b in (g(key \<mapsto> b'), Some (snapshot_of key b' st)))
      | None \<Rightarrow> (g, None))"

text \<open>\<open>all_snapshots\<close> visits the keys in the hash map's iteration order, here an argument.\<close>

fun cb_all_snapshots ::
  "timestamp \<Rightarrow> circuit_breaker_registry \<Rightarrow> string list \<Rightarrow> circuit_breaker_registry \<times> breaker_snapshot list" where
  "cb_all_snapshots now g [] = (g, [])"
| "cb_all_snapshots now g (k # ks) =
     (let (g1, s) = cb_snapshot now g k;
          (g2, ss) = cb_all_snapshots now g1 ks
      in (g2, (case s of None \<Rightarrow> ss | Some x \<Rightarrow> x # ss)))"

definition cb_force_open ::
  "timestamp \<Rightarrow> circuit_breaker_registry \<Rightarrow> string \<Rightarrow> string \<Rightarrow> circuit_breaker_registry" where
  "cb_force_open now g key reason =
     (case g key of
        Some b \<Rightarrow> g(key \<mapsto> b\<lparr>bi_state := BS_Open, bi_opened_at := Some now, bi_reason := Some reason\<rparr>)
      | None \<Rightarrow> g)"

definition cb_force_close :: "circuit_breaker_registry \<Rightarrow> string \<Rightarrow> circuit_breaker_registry" where
  "cb_force_close g key =
     (case g key of
        Some b \<Rightarrow> g(key \<mapsto> b\<lparr>bi_state := BS_Closed, bi_failures := [], bi_opened_at := None, bi_reason := None\<rparr>)
      | None \<Rightarrow> g)"

section \<open>Degradation levels and health\<close>

record degradation_transition =
  dt_from :: degradation_level
  dt_to :: degradation_level

type_synonym degradation_machine = degradation_level

definition degrade :: "degradation_machine \<Rightarrow> degradation_machine \<times> degradation_transition option" where
  "degrade cur =
     (case cur of
        DL_Full \<Rightarrow> (DL_Partial, Some \<lparr>dt_from = cur, dt_to = DL_Partial\<rparr>)
      | DL_Partial \<Rightarrow> (DL_Cached, Some \<lparr>dt_from = cur, dt_to = DL_Cached\<rparr>)
      | DL_Cached \<Rightarrow> (DL_Unavailable, Some \<lparr>dt_from = cur, dt_to = DL_Unavailable\<rparr>)
      | DL_Unavailable \<Rightarrow> (cur, None))"

definition recover :: "degradation_machine \<Rightarrow> degradation_machine \<times> degradation_transition option" where
  "recover cur =
     (case cur of
        DL_Full \<Rightarrow> (cur, None)
      | DL_Partial \<Rightarrow> (DL_Full, Some \<lparr>dt_from = cur, dt_to = DL_Full\<rparr>)
      | DL_Cached \<Rightarrow> (DL_Partial, Some \<lparr>dt_from = cur, dt_to = DL_Partial\<rparr>)
      | DL_Unavailable \<Rightarrow> (DL_Cached, Some \<lparr>dt_from = cur, dt_to = DL_Cached\<rparr>))"

datatype health_status = Healthy | Degraded | Unhealthy

type_synonym health_monitor = "health_status hashmap"

definition health_set :: "health_monitor \<Rightarrow> string \<Rightarrow> health_status \<Rightarrow> health_monitor" where
  "health_set h i st = h(i \<mapsto> st)"

definition health_get :: "health_monitor \<Rightarrow> string \<Rightarrow> health_status" where
  "health_get h i = (case h i of Some st \<Rightarrow> st | None \<Rightarrow> Healthy)"

section \<open>Breaker runs\<close>

text \<open>The calls a client makes on one key, with the time each happens.\<close>

datatype breaker_op = OpFailure "string option" | OpSuccess | OpAllows | OpSnapshot
  | OpForceOpen string | OpForceClose

definition op_step :: "string \<Rightarrow> timestamp \<Rightarrow> circuit_breaker_registry \<Rightarrow> breaker_op \<Rightarrow> circuit_breaker_registry" where
  "op_step key now g op =
     (case op of
        OpFailure r \<Rightarrow> fst (cb_record_failure now g key r)
      | OpSuccess \<Rightarrow> cb_record_success now g key
      | OpAllows \<Rightarrow> fst (cb_allows now g key)
      | OpSnapshot \<Rightarrow> fst (cb_snapshot now g key)
      | OpForceOpen r \<Rightarrow> cb_force_open now g key r
      | OpForceClose \<Rightarrow> cb_force_close g key)"

fun op_run :: "string \<Rightarrow> circuit_breaker_registry \<Rightarrow> (timestamp \<times> breaker_op) list \<Rightarrow> circuit_breaker_registry" where
  "op_run key g [] = g"
| "op_run key g ((now, op) # ops) = op_run key (op_step key now g op) ops"

definition breaker_wf :: "breaker_inner \<Rightarrow> bool" where
  "breaker_wf b \<longleftrightarrow>
     (bi_state b = BS_Closed \<longrightarrow> bi_opened_at b = None) \<and>
     (bi_state b \<noteq> BS_Closed \<longrightarrow> bi_opened_at b \<noteq> None)"

definition registry_wf :: "circuit_breaker_registry \<Rightarrow> bool" where
  "registry_wf g \<longleftrightarrow> (\<forall>k b. g k = Some b \<longrightarrow> breaker_wf b)"

lemma prune_simps [simp]:
  "bi_state (prune now b) = bi_state b" "bi_config (prune now b) = bi_config b"
  "bi_opened_at (prune now b) = bi_opened_at b" "bi_reason (prune now b) = bi_reason b"
  "bi_failures (prune now b) = filter (\<lambda>t. t > now - bc_window (bi_config b)) (bi_failures b)"
  by (simp_all add: prune_def Let_def)

lemmas inner_defs = inner_record_failure_def inner_record_success_def effective_state_def
lemmas cb_defs = cb_record_failure_def cb_record_success_def cb_allows_def cb_snapshot_def
  cb_force_open_def cb_force_close_def

lemma breaker_wf_new: "breaker_wf (breaker_new lvl cfg)"
  by (simp add: breaker_wf_def breaker_new_def)

lemma breaker_wf_inner:
  assumes "breaker_wf b"
  shows "breaker_wf (fst (inner_record_failure now r b))"
    "breaker_wf (inner_record_success now b)"
    "breaker_wf (fst (effective_state now b))"
  using assms by (auto simp: breaker_wf_def inner_defs Let_def split: option.splits)

text \<open>Every registry call acts on the one breaker under its key.\<close>

definition inner_step :: "timestamp \<Rightarrow> breaker_inner \<Rightarrow> breaker_op \<Rightarrow> breaker_inner" where
  "inner_step now b op =
     (case op of
        OpFailure r \<Rightarrow> fst (inner_record_failure now r b)
      | OpSuccess \<Rightarrow> inner_record_success now b
      | OpAllows \<Rightarrow> fst (effective_state now b)
      | OpSnapshot \<Rightarrow> fst (effective_state now b)
      | OpForceOpen r \<Rightarrow> b\<lparr>bi_state := BS_Open, bi_opened_at := Some now, bi_reason := Some r\<rparr>
      | OpForceClose \<Rightarrow> b\<lparr>bi_state := BS_Closed, bi_failures := [], bi_opened_at := None, bi_reason := None\<rparr>)"

lemma op_step_eq:
  "op_step key now g op = (case g key of None \<Rightarrow> g | Some b \<Rightarrow> g(key \<mapsto> inner_step now b op))"
  by (cases op) (auto simp: op_step_def inner_step_def cb_defs Let_def split: option.splits prod.splits)

lemma inner_step_wf: "breaker_wf b \<Longrightarrow> breaker_wf (inner_step now b op)"
  by (cases op) (simp_all add: inner_step_def breaker_wf_inner, simp_all add: breaker_wf_def)

lemma op_step_wf: "registry_wf g \<Longrightarrow> registry_wf (op_step key now g op)"
  by (auto simp: registry_wf_def op_step_eq inner_step_wf split: option.splits)

inductive breaker_reachable :: "circuit_breaker_registry \<Rightarrow> bool" where
  br_new: "breaker_reachable Map.empty"
| br_register: "breaker_reachable g \<Longrightarrow> breaker_reachable (cb_register g key lvl cfg)"
| br_op: "breaker_reachable g \<Longrightarrow> breaker_reachable (op_step key now g op)"

lemma breaker_reachable_wf: "breaker_reachable g \<Longrightarrow> registry_wf g"
proof (induction rule: breaker_reachable.induct)
  case (br_register g key lvl cfg)
  then show ?case
    by (auto simp: registry_wf_def cb_register_def breaker_wf_new split: option.splits)
next
  case br_new
  show ?case by (simp add: registry_wf_def)
qed (rule op_step_wf)

definition is_force :: "breaker_op \<Rightarrow> bool" where
  "is_force op = (case op of OpForceOpen _ \<Rightarrow> True | OpForceClose \<Rightarrow> True | _ \<Rightarrow> False)"

definition open_since :: "timestamp \<Rightarrow> breaker_inner \<Rightarrow> bool" where
  "open_since t b \<longleftrightarrow> bi_state b = BS_Open \<and> bi_opened_at b = Some t"

lemma inner_step_open:
  assumes "open_since t b" "\<not> is_force op" "now < t + bc_cooldown (bi_config b)"
  shows "open_since t (inner_step now b op) \<and> bi_config (inner_step now b op) = bi_config b"
  using assms
  by (cases op) (simp_all add: open_since_def inner_step_def inner_defs is_force_def Let_def)

lemma op_run_open:
  assumes "g key = Some b" "open_since t b"
    and "\<forall>(now, op) \<in> set ops. \<not> is_force op \<and> now < t + bc_cooldown (bi_config b)"
  shows "\<exists>b'. op_run key g ops key = Some b' \<and> open_since t b' \<and> bi_config b' = bi_config b"
  using assms
proof (induction key g ops arbitrary: b rule: op_run.induct)
  case (2 key g now op ops)
  let ?b = "inner_step now b op"
  have b: "open_since t ?b" "bi_config ?b = bi_config b"
    using inner_step_open[of t b op now] "2.prems" by auto
  have "op_step key now g op key = Some ?b" using "2.prems"(1) by (simp add: op_step_eq)
  from "2.IH"[OF this b(1)] b(2) "2.prems"(3) show ?case by simp
qed auto

text \<open>
  C6. A breaker that opened at time \<open>t\<close> stays open through the whole cooldown: whatever sequence of
  failure reports, success reports, admission queries and snapshots happens at times before
  \<open>t + cooldown\<close>, an admission query in that period is refused, and the first query at or after
  \<open>t + cooldown\<close> is admitted and leaves the breaker half-open.
\<close>

theorem open_breaker_cooldown:
  assumes "g key = Some b" "open_since t b"
    and "\<forall>(now, op) \<in> set ops. \<not> is_force op \<and> now < t + bc_cooldown (bi_config b)"
  shows "snd (cb_allows now (op_run key g ops) key) = (t + bc_cooldown (bi_config b) \<le> now) \<and>
     map_option bi_state (fst (cb_allows now (op_run key g ops) key) key)
       = Some (if t + bc_cooldown (bi_config b) \<le> now then BS_HalfOpen else BS_Open)"
proof -
  from op_run_open[of g key, OF assms] obtain b' where "op_run key g ops key = Some b'"
    "open_since t b'" "bi_config b' = bi_config b" by blast
  then show ?thesis
    by (auto simp: cb_allows_def effective_state_def open_since_def Let_def)
qed

definition ex_open_registry :: circuit_breaker_registry where
  "ex_open_registry = [''svc'' \<mapsto> (breaker_new BL_Service breaker_config_default)
     \<lparr>bi_state := BS_Open, bi_opened_at := Some 100\<rparr>]"

theorem open_breaker_cooldown_witness:
  "\<not> snd (cb_allows 300 (op_run ''svc'' ex_open_registry [(150, OpSuccess), (200, OpAllows)]) ''svc'')
   \<and> snd (cb_allows 30000000100
        (op_run ''svc'' ex_open_registry [(150, OpSuccess), (200, OpAllows)]) ''svc'')"
proof -
  let ?b = "(breaker_new BL_Service breaker_config_default)\<lparr>bi_state := BS_Open, bi_opened_at := Some 100\<rparr>"
  have h: "ex_open_registry ''svc'' = Some ?b" "open_since 100 ?b"
    and c: "bc_cooldown (bi_config ?b) = 30000000000"
    by (simp_all add: ex_open_registry_def open_since_def breaker_new_def breaker_config_default_def seconds_def)
  then have o: "\<forall>(now, op) \<in> set [(150, OpSuccess), (200, OpAllows)].
      \<not> is_force op \<and> now < 100 + bc_cooldown (bi_config ?b)"
    by (simp add: is_force_def)
  show ?thesis
    using open_breaker_cooldown[of ex_open_registry, OF h o, of 300]
      open_breaker_cooldown[of ex_open_registry, OF h o, of 30000000100] c
    by simp
qed

text \<open>
  A closed breaker opens on a failure exactly when the failures still inside the sliding window,
  this one included, reach the threshold (for fewer than 2\<open>^\<close>32 recorded failures); a half-open one
  re-opens on any failure and an open one stays open.
\<close>

theorem breaker_trip_exact:
  assumes "length (bi_failures b) + 1 < 2 ^ 32"
  shows "bi_state (fst (inner_record_failure now r b)) = BS_Open \<longleftrightarrow>
     (case bi_state b of
        BS_Open \<Rightarrow> True
      | BS_HalfOpen \<Rightarrow> True
      | BS_Closed \<Rightarrow> unat (bc_failure_threshold (bi_config b))
          \<le> Suc (card {i. i < length (bi_failures b) \<and> now - bc_window (bi_config b) < bi_failures b ! i}))"
    (is "?L \<longleftrightarrow> ?R")
proof -
  let ?fs = "filter (\<lambda>t. now - bc_window (bi_config b) < t) (bi_failures b)"
  have len: "length ?fs = card {i. i < length (bi_failures b) \<and> now - bc_window (bi_config b) < bi_failures b ! i}"
    by (simp add: length_filter_conv_card)
  have "length ?fs \<le> length (bi_failures b)" by (rule length_filter_le)
  with assms have "Suc (length ?fs) < 2 ^ 32" by linarith
  then have "unat (of_nat (Suc (length ?fs)) :: u32) = Suc (length ?fs)"
    by (intro unat_of_nat_small) simp
  then show ?thesis
    unfolding len[symmetric]
    by (auto simp: inner_record_failure_def Let_def word_le_nat_alt simp del: of_nat_Suc split: breaker_state.splits)
qed

text \<open>A breaker with fewer failures than its threshold stays closed while no more than the missing ones are
  reported.\<close>

definition failures_in :: "(timestamp \<times> breaker_op) list \<Rightarrow> nat" where
  "failures_in ops = length (filter (\<lambda>(_, op). \<exists>r. op = OpFailure r) ops)"

lemma inner_step_closed:
  assumes "bi_state b = BS_Closed" "\<forall>r. op \<noteq> OpForceOpen r"
    and "length (bi_failures b) + failures_in [(now, op)] < unat (bc_failure_threshold (bi_config b))"
  shows "bi_state (inner_step now b op) = BS_Closed \<and> bi_config (inner_step now b op) = bi_config b
    \<and> length (bi_failures (inner_step now b op)) \<le> length (bi_failures b) + failures_in [(now, op)]"
proof (cases op)
  case (OpFailure r)
  let ?n = "Suc (length (filter (\<lambda>t. now - bc_window (bi_config b) < t) (bi_failures b)))"
  have le: "?n \<le> Suc (length (bi_failures b))" by simp
  moreover have "Suc (length (bi_failures b)) < unat (bc_failure_threshold (bi_config b))"
    using assms(3) OpFailure by (simp add: failures_in_def)
  ultimately have n: "?n < unat (bc_failure_threshold (bi_config b))" by (rule order.strict_trans1)
  moreover have "unat (of_nat ?n :: u32) = ?n"
    using n unsigned_less[of "bc_failure_threshold (bi_config b)", where ?'a = nat] by (intro unat_of_nat_small) simp
  ultimately have "\<not> bc_failure_threshold (bi_config b) \<le> of_nat ?n" by (simp add: word_le_nat_alt del: of_nat_Suc)
  then show ?thesis using assms(1) le OpFailure
    by (simp add: inner_step_def inner_record_failure_def Let_def failures_in_def del: of_nat_Suc)
qed (use assms in \<open>auto simp: inner_step_def inner_defs Let_def failures_in_def\<close>)

lemma op_run_closed:
  assumes "g key = Some b" "bi_state b = BS_Closed" "\<forall>(now, op) \<in> set ops. \<forall>r. op \<noteq> OpForceOpen r"
    and "length (bi_failures b) + failures_in ops < unat (bc_failure_threshold (bi_config b))"
  shows "\<exists>b'. op_run key g ops key = Some b' \<and> bi_state b' = BS_Closed"
  using assms
proof (induction key g ops arbitrary: b rule: op_run.induct)
  case (2 key g now op ops)
  have "failures_in ((now, op) # ops) = failures_in [(now, op)] + failures_in ops" by (simp add: failures_in_def)
  with "2.prems" inner_step_closed[of b op now] have b: "bi_state (inner_step now b op) = BS_Closed"
    "length (bi_failures (inner_step now b op)) + failures_in ops < unat (bc_failure_threshold (bi_config (inner_step now b op)))"
    by auto
  have "op_step key now g op key = Some (inner_step now b op)" using "2.prems"(1) by (simp add: op_step_eq)
  from "2.IH"[OF this b(1) _ b(2)] "2.prems"(3) show ?case by simp
qed auto

lemma op_run_half_open:
  assumes "g key = Some b" "bi_state b = BS_HalfOpen" "\<forall>(now, op) \<in> set ops. op = OpAllows \<or> op = OpSnapshot"
  shows "op_run key g ops key = Some b"
  using assms
proof (induction key g ops rule: op_run.induct)
  case (2 key g now op ops)
  then have "op_step key now g op key = Some b" by (auto simp: op_step_eq inner_step_def effective_state_def Let_def)
  from "2.IH"[OF this] "2.prems"(2,3) show ?case by simp
qed auto

text \<open>
  C25. No breaker stays stuck open. In every registry reached by its own operations, take a breaker that is
  open or half-open. An admission query made once the cooldown has passed since it opened is granted, and so is every further
  query while nothing but queries and snapshots happens. A success reported then closes the breaker and clears its
  failures and the reason for having opened. From then on every query is admitted, whatever
  operations happen in between, as long as none forces the breaker open and fewer failures are reported than its threshold.
\<close>

theorem breaker_recovers:
  assumes "breaker_reachable g" "g key = Some b" "bi_state b \<noteq> BS_Closed"
    and "\<forall>t. open_since t b \<longrightarrow> t + bc_cooldown (bi_config b) \<le> now"
    and "\<forall>(t, op) \<in> set probes. op = OpAllows \<or> op = OpSnapshot"
    and "\<forall>(t, op) \<in> set ops. \<forall>r. op \<noteq> OpForceOpen r" "failures_in ops < unat (bc_failure_threshold (bi_config b))"
    and "g1 = op_run key (fst (cb_allows now g key)) probes" "g2 = cb_record_success later g1 key"
  shows "snd (cb_allows now g key) \<and> snd (cb_allows t1 g1 key)
    \<and> (\<exists>b'. g2 key = Some b' \<and> bi_state b' = BS_Closed \<and> bi_opened_at b' = None \<and> bi_failures b' = [] \<and> bi_reason b' = None)
    \<and> snd (cb_allows t2 (op_run key g2 ops) key)"
proof -
  let ?b = "b\<lparr>bi_state := BS_HalfOpen\<rparr>"
  have "breaker_wf b" using breaker_reachable_wf[OF assms(1)] assms(2) by (auto simp: registry_wf_def)
  with assms(2-4) have q: "snd (cb_allows now g key)" "fst (cb_allows now g key) key = Some ?b"
    by (cases "bi_state b"; auto simp: breaker_wf_def open_since_def cb_allows_def effective_state_def Let_def)+
  then have g1: "g1 key = Some ?b" using op_run_half_open[of "fst (cb_allows now g key)" key ?b probes] q(2) assms(5,8) by simp
  obtain b' where b': "g2 key = Some b'" "bi_state b' = BS_Closed" "bi_opened_at b' = None" "bi_failures b' = []"
    "bi_reason b' = None" "bi_config b' = bi_config b"
    using g1 assms(9) by (simp add: cb_record_success_def inner_record_success_def Let_def)
  then obtain c where "op_run key g2 ops key = Some c" "bi_state c = BS_Closed"
    using op_run_closed[of g2 key b' ops] b' assms(6,7) by auto
  then have "snd (cb_allows t2 (op_run key g2 ops) key)" by (simp add: cb_allows_def effective_state_def Let_def)
  moreover have "snd (cb_allows t1 g1 key)" using g1 by (simp add: cb_allows_def effective_state_def Let_def)
  ultimately show ?thesis using q(1) b' by blast
qed

theorem breaker_recovers_witness:
  "\<exists>g b. g = cb_force_open 100 (cb_register Map.empty ''svc'' BL_Service breaker_config_default) ''svc'' ''ops''
     \<and> g ''svc'' = Some b \<and> bi_state b = BS_Open \<and> \<not> snd (cb_allows 200 g ''svc'') \<and> snd (cb_allows 30000000100 g ''svc'')
     \<and> snd (cb_allows 30000000300
         (op_run ''svc'' (cb_record_success 30000000200 (fst (cb_allows 30000000100 g ''svc'')) ''svc'') [(30000000250, OpFailure None)]) ''svc'')"
proof -
  let ?g = "cb_force_open 100 (cb_register Map.empty ''svc'' BL_Service breaker_config_default) ''svc'' ''ops''"
  let ?b = "(breaker_new BL_Service breaker_config_default)
    \<lparr>bi_state := BS_Open, bi_opened_at := Some 100, bi_reason := Some ''ops''\<rparr>"
  have reach: "breaker_reachable ?g"
    using br_op[OF br_register[OF br_new], where now = 100 and op = "OpForceOpen ''ops''"]
    by (simp add: op_step_def)
  have g: "?g ''svc'' = Some ?b" by (simp add: cb_force_open_def cb_register_def)
  have cool: "bc_cooldown (bi_config ?b) = 30000000000" "bc_failure_threshold (bi_config ?b) = 5"
    by (simp_all add: breaker_new_def breaker_config_default_def seconds_def)
  then have late: "\<forall>t. open_since t ?b \<longrightarrow> t + bc_cooldown (bi_config ?b) \<le> 30000000100" by (simp add: open_since_def)
  have few: "failures_in [(30000000250, OpFailure None)] < unat (bc_failure_threshold (bi_config ?b))"
    unfolding cool(2) by (simp add: failures_in_def)
  have "\<not> snd (cb_allows 200 ?g ''svc'')" using g cool by (simp add: cb_allows_def effective_state_def Let_def)
  with breaker_recovers[OF reach g _ late, where probes = "[]" and ops = "[(30000000250, OpFailure None)]", OF _ _ _ few refl refl,
      of 0 30000000200 30000000300] g show ?thesis by auto
qed

end
