(* ===== verification/Storage.thy ===== *)
theory Storage
  imports Contracts
begin

text \<open>
  The in-memory storage backends (\<open>aaf-storage\<close>), the memory facade and context budget over them
  (\<open>aaf-memory\<close>). A \<open>HashMap\<close> that is listed is an association list with distinct keys: its order
  stands for the unspecified iteration order. The contract of a keyed store is a locale,
  interpreted for the capability, artifact, trace and checkpoint stores. Storage errors other
  than \<open>NotFound\<close> are never produced by the in-memory backends.
\<close>

datatype storage_error = NotFound string | Backend string | Conflict string | BoundaryViolation string

type_synonym 'v store = "(string \<times> 'v) list"

definition store_insert :: "string \<Rightarrow> 'v \<Rightarrow> 'v store \<Rightarrow> 'v store" where
  "store_insert k v s = AList.update k v s"

definition store_lookup :: "'v store \<Rightarrow> string \<Rightarrow> ('v, storage_error) result" where
  "store_lookup s k = (case map_of s k of Some v \<Rightarrow> Ok v | None \<Rightarrow> Err (NotFound k))"

definition store_remove :: "'v store \<Rightarrow> string \<Rightarrow> 'v store" where
  "store_remove s k = AList.delete k s"

definition store_values :: "'v store \<Rightarrow> 'v list" where
  "store_values s = map snd s"

section \<open>Keyed stores\<close>

definition rs_upsert :: "capability_contract store \<Rightarrow> capability_contract \<Rightarrow> capability_contract store" where
  "rs_upsert s cap = store_insert (cap_id cap) cap s"

definition rs_get :: "capability_contract store \<Rightarrow> string \<Rightarrow> (capability_contract, storage_error) result" where
  "rs_get s i = store_lookup s i"

definition rs_delete :: "capability_contract store \<Rightarrow> string \<Rightarrow> capability_contract store" where
  "rs_delete s i = store_remove s i"

definition rs_list :: "capability_contract store \<Rightarrow> capability_contract list" where
  "rs_list s = store_values s"

definition artifact_put :: "artifact store \<Rightarrow> artifact \<Rightarrow> artifact store" where
  "artifact_put s a = store_insert (art_id a) a s"

definition artifact_get :: "artifact store \<Rightarrow> string \<Rightarrow> (artifact, storage_error) result" where
  "artifact_get s i = store_lookup s i"

definition artifact_list :: "artifact store \<Rightarrow> artifact list" where
  "artifact_list s = store_values s"

definition trace_put :: "execution_trace store \<Rightarrow> execution_trace \<Rightarrow> execution_trace store" where
  "trace_put s t = store_insert (tr_trace_id t) t s"

definition trace_get :: "execution_trace store \<Rightarrow> string \<Rightarrow> (execution_trace, storage_error) result" where
  "trace_get s i = store_lookup s i"

definition trace_list :: "execution_trace store \<Rightarrow> execution_trace list" where
  "trace_list s = store_values s"

record checkpoint =
  cp_id :: string
  cp_task_id :: string
  cp_step :: u32
  cp_state :: json
  cp_remaining_budget_usd :: f64
  cp_remaining_time_ms :: u64
  cp_created_at :: timestamp

definition checkpoint_put :: "checkpoint store \<Rightarrow> checkpoint \<Rightarrow> checkpoint store" where
  "checkpoint_put s c = store_insert (cp_id c) c s"

definition checkpoint_get :: "checkpoint store \<Rightarrow> string \<Rightarrow> (checkpoint, storage_error) result" where
  "checkpoint_get s i = store_lookup s i"

definition checkpoint_delete :: "checkpoint store \<Rightarrow> string \<Rightarrow> checkpoint store" where
  "checkpoint_delete s i = store_remove s i"

fun latest_scan :: "string \<Rightarrow> checkpoint option \<Rightarrow> checkpoint list \<Rightarrow> checkpoint option" where
  "latest_scan t latest [] = latest"
| "latest_scan t latest (c # cs) =
     latest_scan t (if cp_task_id c = t \<and> (case latest of None \<Rightarrow> True | Some l \<Rightarrow> cp_step l < cp_step c)
                    then Some c else latest) cs"

definition checkpoint_latest_for :: "checkpoint store \<Rightarrow> string \<Rightarrow> checkpoint option" where
  "checkpoint_latest_for s t = latest_scan t None (store_values s)"

section \<open>Working and thread memory\<close>

type_synonym working_store = "string \<rightharpoonup> (string \<rightharpoonup> json)"

definition working_put :: "working_store \<Rightarrow> string \<Rightarrow> string \<Rightarrow> json \<Rightarrow> working_store" where
  "working_put w t k v =
     w(t \<mapsto> (case w t of None \<Rightarrow> Map.empty | Some m \<Rightarrow> m)(k \<mapsto> v))"

definition working_get :: "working_store \<Rightarrow> string \<Rightarrow> string \<Rightarrow> json option" where
  "working_get w t k = (case w t of None \<Rightarrow> None | Some m \<Rightarrow> m k)"

definition working_drop_task :: "working_store \<Rightarrow> string \<Rightarrow> working_store" where
  "working_drop_task w t = w(t := None)"

type_synonym thread_store = "string \<rightharpoonup> json list"

definition thread_append :: "thread_store \<Rightarrow> string \<Rightarrow> json \<Rightarrow> thread_store" where
  "thread_append s t v = s(t \<mapsto> (case s t of None \<Rightarrow> [] | Some vs \<Rightarrow> vs) @ [v])"

definition thread_read :: "thread_store \<Rightarrow> string \<Rightarrow> json list" where
  "thread_read s t = (case s t of None \<Rightarrow> [] | Some vs \<Rightarrow> vs)"

definition thread_drop :: "thread_store \<Rightarrow> string \<Rightarrow> thread_store" where
  "thread_drop s t = s(t := None)"

section \<open>Long-term memory\<close>

record long_term_record =
  ltr_tenant :: string
  ltr_kind :: string
  ltr_content :: string
  ltr_payload :: json
  ltr_entity_refs :: "entity_ref_lite list"

record long_term_store =
  lts_records :: "long_term_record list"
  lts_entity_index :: "(string \<times> string) \<rightharpoonup> nat list"

definition long_term_new :: long_term_store where
  "long_term_new = \<lparr>lts_records = [], lts_entity_index = Map.empty\<rparr>"

fun index_refs :: "string \<Rightarrow> nat \<Rightarrow> entity_ref_lite list \<Rightarrow> ((string \<times> string) \<rightharpoonup> nat list)
    \<Rightarrow> ((string \<times> string) \<rightharpoonup> nat list)" where
  "index_refs tenant idx [] ix = ix"
| "index_refs tenant idx (e # es) ix =
     (if (case er_tenant e of Some rt \<Rightarrow> rt \<noteq> tenant | None \<Rightarrow> False)
      then index_refs tenant idx es ix
      else let key = (tenant, er_entity_id e)
           in index_refs tenant idx es (ix(key \<mapsto> (case ix key of None \<Rightarrow> [] | Some is \<Rightarrow> is) @ [idx])))"

definition long_term_insert :: "long_term_store \<Rightarrow> long_term_record \<Rightarrow> long_term_store" where
  "long_term_insert s r =
     s\<lparr>lts_entity_index := index_refs (ltr_tenant r) (length (lts_records s)) (ltr_entity_refs r) (lts_entity_index s),
       lts_records := lts_records s @ [r]\<rparr>"

definition long_term_search :: "long_term_store \<Rightarrow> string \<Rightarrow> string \<Rightarrow> nat \<Rightarrow> long_term_record list" where
  "long_term_search s tenant query limit =
     (let terms = split_whitespace (to_lowercase query)
      in take limit (filter (\<lambda>r. ltr_tenant r = tenant \<and>
           (\<forall>t \<in> set terms. contains_str (to_lowercase (ltr_content r)) t)) (lts_records s)))"

definition long_term_search_by_entity ::
  "long_term_store \<Rightarrow> string \<Rightarrow> entity_ref_lite \<Rightarrow> nat \<Rightarrow> long_term_record list" where
  "long_term_search_by_entity s tenant entity limit =
     (case lts_entity_index s (tenant, er_entity_id entity) of
        None \<Rightarrow> []
      | Some indices \<Rightarrow>
          take limit (filter (\<lambda>r. ltr_tenant r = tenant)
            (List.map_filter (\<lambda>i. if i < length (lts_records s) then Some (lts_records s ! i) else None) indices)))"

section \<open>The memory facade and the context budget\<close>

record memory_facade =
  mf_working :: working_store
  mf_thread :: thread_store
  mf_longterm :: long_term_store
  mf_artifacts :: "artifact store"

definition memory_in_memory :: memory_facade where
  "memory_in_memory = \<lparr>mf_working = Map.empty, mf_thread = Map.empty, mf_longterm = long_term_new,
     mf_artifacts = []\<rparr>"

definition mem_working_get :: "memory_facade \<Rightarrow> string \<Rightarrow> string \<Rightarrow> json option" where
  "mem_working_get m t k = working_get (mf_working m) t k"

definition mem_working_put :: "memory_facade \<Rightarrow> string \<Rightarrow> string \<Rightarrow> json \<Rightarrow> memory_facade" where
  "mem_working_put m t k v = m\<lparr>mf_working := working_put (mf_working m) t k v\<rparr>"

definition mem_working_clear :: "memory_facade \<Rightarrow> string \<Rightarrow> memory_facade" where
  "mem_working_clear m t = m\<lparr>mf_working := working_drop_task (mf_working m) t\<rparr>"

definition mem_thread_append :: "memory_facade \<Rightarrow> string \<Rightarrow> json \<Rightarrow> memory_facade" where
  "mem_thread_append m t v = m\<lparr>mf_thread := thread_append (mf_thread m) t v\<rparr>"

definition mem_longterm_search :: "memory_facade \<Rightarrow> string \<Rightarrow> string \<Rightarrow> nat \<Rightarrow> long_term_record list" where
  "mem_longterm_search m tenant q limit = long_term_search (mf_longterm m) tenant q limit"

definition mem_longterm_search_by_entity ::
  "memory_facade \<Rightarrow> string \<Rightarrow> entity_ref_lite \<Rightarrow> nat \<Rightarrow> long_term_record list" where
  "mem_longterm_search_by_entity m tenant e limit = long_term_search_by_entity (mf_longterm m) tenant e limit"

definition mem_longterm_insert :: "memory_facade \<Rightarrow> long_term_record \<Rightarrow> memory_facade" where
  "mem_longterm_insert m r = m\<lparr>mf_longterm := long_term_insert (mf_longterm m) r\<rparr>"

definition mem_artifact_put :: "memory_facade \<Rightarrow> artifact \<Rightarrow> memory_facade" where
  "mem_artifact_put m a = m\<lparr>mf_artifacts := artifact_put (mf_artifacts m) a\<rparr>"

definition mem_artifact_get :: "memory_facade \<Rightarrow> string \<Rightarrow> (artifact, storage_error) result" where
  "mem_artifact_get m i = artifact_get (mf_artifacts m) i"

datatype context_section = CS_System | CS_Intent | CS_Memory | CS_Step | CS_Tools

text \<open>Character counts are below 2\<open>^\<close>62, so the multiplications by four and the rounding-up
  addition do not overflow \<open>usize\<close>; the caps are saturated at its maximum.\<close>

record context_budget =
  cb_total :: nat
  cb_system :: nat
  cb_intent :: nat
  cb_memory :: nat
  cb_step :: nat
  cb_tools :: nat

definition context_budget_default :: context_budget where
  "context_budget_default = \<lparr>cb_total = 7500, cb_system = 2000, cb_intent = 500, cb_memory = 2000,
     cb_step = 1000, cb_tools = 2000\<rparr>"

definition approx_tokens :: "string \<Rightarrow> nat" where
  "approx_tokens text = (length text + 3) div 4"

definition truncate_text :: "string \<Rightarrow> nat \<Rightarrow> string" where
  "truncate_text text cap_tokens =
     (let max_chars = min (cap_tokens * 4) (2 ^ 64 - 1)
      in if length text \<le> max_chars then text else take max_chars text)"

fun section_cap :: "context_budget \<Rightarrow> context_section \<Rightarrow> nat" where
  "section_cap b CS_System = cb_system b"
| "section_cap b CS_Intent = cb_intent b"
| "section_cap b CS_Memory = cb_memory b"
| "section_cap b CS_Step = cb_step b"
| "section_cap b CS_Tools = cb_tools b"

definition fit :: "context_budget \<Rightarrow> context_section \<Rightarrow> string \<Rightarrow> string" where
  "fit b s text = truncate_text text (section_cap b s)"

section \<open>The contract of a keyed store\<close>

locale keyed_store =
  fixes key :: "'v \<Rightarrow> string"
    and put :: "'s \<Rightarrow> 'v \<Rightarrow> 's"
    and get :: "'s \<Rightarrow> string \<Rightarrow> ('v, storage_error) result"
    and list :: "'s \<Rightarrow> 'v list"
    and ok :: "'s \<Rightarrow> bool"
  assumes ok_put: "ok s \<Longrightarrow> ok (put s v)"
    and get_put: "get (put s v) i = (if i = key v then Ok v else get s i)"
    and get_error: "get s i = Err e \<Longrightarrow> e = NotFound i"
    and get_list: "ok s \<Longrightarrow> get s i = Ok v \<longleftrightarrow> v \<in> set (list s) \<and> key v = i"
    and list_distinct: "ok s \<Longrightarrow> distinct (map key (list s))"
begin

lemma put_get: "get (put s v) (key v) = Ok v"
  by (simp add: get_put)

lemma list_put:
  assumes "ok s" shows "set (list (put s v)) = insert v {w \<in> set (list s). key w \<noteq> key v}"
proof -
  have "w \<in> set (list (put s v)) \<longleftrightarrow> w = v \<or> (w \<in> set (list s) \<and> key w \<noteq> key v)" for w
    using get_list[OF ok_put[OF assms], of v "key w" w] get_list[OF assms, of "key w" w]
    by (auto simp: get_put split: if_splits)
  then show ?thesis by auto
qed

lemma all_put:
  assumes "ok s" "\<forall>w \<in> set (list s). P w" "P v" shows "\<forall>w \<in> set (list (put s v)). P w"
  using assms by (auto simp: list_put)

end

locale deletable_store = keyed_store +
  fixes remove :: "'a \<Rightarrow> string \<Rightarrow> 'a"
  assumes ok_remove: "ok s \<Longrightarrow> ok (remove s i)"
    and get_remove: "ok s \<Longrightarrow> get (remove s i) j = (if j = i then Err (NotFound j) else get s j)"
begin

lemma list_remove:
  assumes "ok s" shows "set (list (remove s i)) = {w \<in> set (list s). key w \<noteq> i}"
proof -
  have "w \<in> set (list (remove s i)) \<longleftrightarrow> w \<in> set (list s) \<and> key w \<noteq> i" for w
    using get_list[OF ok_remove[OF assms], of i "key w" w] get_list[OF assms, of "key w" w]
      get_remove[OF assms, of i "key w"]
    by (auto split: if_splits)
  then show ?thesis by auto
qed

end

definition store_ok :: "('v \<Rightarrow> string) \<Rightarrow> 'v store \<Rightarrow> bool" where
  "store_ok key s \<longleftrightarrow> distinct (map fst s) \<and> (\<forall>(k, v) \<in> set s. k = key v)"

lemma set_update_subset: "set (AList.update k v s) \<subseteq> insert (k, v) (set s)"
  by (induction s) (auto split: if_splits)

lemma store_ok_insert: "store_ok key s \<Longrightarrow> store_ok key (store_insert (key v) v s)"
  using set_update_subset[of "key v" v s]
  by (fastforce simp: store_ok_def store_insert_def distinct_update)

lemma store_ok_remove: "store_ok key s \<Longrightarrow> store_ok key (store_remove s i)"
  by (auto simp: store_ok_def store_remove_def distinct_delete) (auto simp: AList.delete_eq)

lemma store_lookup_insert:
  "store_lookup (store_insert k v s) i = (if i = k then Ok v else store_lookup s i)"
  by (simp add: store_lookup_def store_insert_def update_conv')

lemma store_lookup_remove:
  "store_lookup (store_remove s k) i = (if i = k then Err (NotFound i) else store_lookup s i)"
  by (simp add: store_lookup_def store_remove_def delete_conv')

lemma store_lookup_error: "store_lookup s i = Err e \<Longrightarrow> e = NotFound i"
  by (auto simp: store_lookup_def split: option.splits)

lemma store_lookup_values:
  "store_ok key s \<Longrightarrow> store_lookup s i = Ok v \<longleftrightarrow> v \<in> set (store_values s) \<and> key v = i"
proof -
  assume a: "store_ok key s"
  have "store_lookup s i = Ok v \<longleftrightarrow> map_of s i = Some v"
    by (simp add: store_lookup_def split: option.splits)
  also have "\<dots> \<longleftrightarrow> (i, v) \<in> set s" using a by (simp add: store_ok_def)
  also have "\<dots> \<longleftrightarrow> v \<in> snd ` set s \<and> key v = i" using a by (force simp: store_ok_def image_iff)
  finally show ?thesis by (simp add: store_values_def)
qed

lemma store_values_distinct: "store_ok key s \<Longrightarrow> distinct (map key (store_values s))"
proof -
  assume a: "store_ok key s"
  then have "map key (store_values s) = map fst s"
    by (auto simp: store_ok_def store_values_def)
  with a show ?thesis by (simp add: store_ok_def)
qed

lemmas store_laws = store_ok_insert store_lookup_insert store_lookup_error store_lookup_values
  store_values_distinct store_ok_remove store_lookup_remove

interpretation capability_store:
  deletable_store cap_id rs_upsert rs_get rs_list "store_ok cap_id" rs_delete
  by unfold_locales
    (auto simp: rs_upsert_def rs_get_def rs_list_def rs_delete_def store_laws)

interpretation artifact_store: keyed_store art_id artifact_put artifact_get artifact_list "store_ok art_id"
  by unfold_locales (auto simp: artifact_put_def artifact_get_def artifact_list_def store_laws)

interpretation trace_store: keyed_store tr_trace_id trace_put trace_get trace_list "store_ok tr_trace_id"
  by unfold_locales (auto simp: trace_put_def trace_get_def trace_list_def store_laws)

interpretation checkpoint_store:
  deletable_store cp_id checkpoint_put checkpoint_get store_values "store_ok cp_id" checkpoint_delete
  by unfold_locales (auto simp: checkpoint_put_def checkpoint_get_def checkpoint_delete_def store_laws)

section \<open>Checkpoints\<close>

lemma latest_scan_spec:
  "case latest_scan t acc cs of
     None \<Rightarrow> acc = None \<and> (\<forall>c \<in> set cs. cp_task_id c \<noteq> t)
   | Some l \<Rightarrow> (acc = Some l \<or> l \<in> set cs \<and> cp_task_id l = t) \<and>
       (\<forall>c \<in> set cs. cp_task_id c = t \<longrightarrow> cp_step c \<le> cp_step l) \<and>
       (\<forall>a. acc = Some a \<longrightarrow> cp_step a \<le> cp_step l)"
proof (induction t acc cs rule: latest_scan.induct)
  case (2 t latest c cs)
  let ?acc = "if cp_task_id c = t \<and> (case latest of None \<Rightarrow> True | Some l \<Rightarrow> cp_step l < cp_step c)
                    then Some c else latest"
  from "2.IH" show ?case
    by (cases latest; cases "latest_scan t ?acc cs")
      (auto split: if_splits simp: not_less intro: order_trans less_imp_le)
qed (auto split: option.split)

text \<open>
  Recovery finds the right checkpoint: \<open>latest_for\<close> returns nothing iff the task has no checkpoint,
  and otherwise a stored checkpoint of that task that no other exceeds in step number, whatever
  the hash map's iteration order.
\<close>

theorem checkpoint_latest_is_max:
  "case checkpoint_latest_for s t of
     None \<Rightarrow> \<not> (\<exists>c. c \<in> set (store_values s) \<and> cp_task_id c = t)
   | Some l \<Rightarrow> l \<in> set (store_values s) \<and> cp_task_id l = t \<and>
       \<not> (\<exists>c. c \<in> set (store_values s) \<and> cp_task_id c = t \<and> cp_step l < cp_step c)"
  using latest_scan_spec[where t = t and acc = None and cs = "store_values s"]
  by (auto simp: checkpoint_latest_for_def leD split: option.splits)

section \<open>The entity index\<close>

definition ix_at :: "((string \<times> string) \<rightharpoonup> nat list) \<Rightarrow> string \<times> string \<Rightarrow> nat list" where
  "ix_at ix k = (case ix k of None \<Rightarrow> [] | Some is \<Rightarrow> is)"

definition refs_entity :: "string \<Rightarrow> string \<Rightarrow> entity_ref_lite list \<Rightarrow> bool" where
  "refs_entity tenant e refs \<longleftrightarrow>
     (\<exists>r \<in> set refs. er_entity_id r = e \<and> (er_tenant r = None \<or> er_tenant r = Some tenant))"

lemma set_ix_at_index_refs:
  "set (ix_at (index_refs tenant idx refs ix) (t, e)) =
     set (ix_at ix (t, e)) \<union> (if t = tenant \<and> refs_entity tenant e refs then {idx} else {})"
proof (induction refs arbitrary: ix)
  case (Cons r rs)
  define foreign where "foreign = (case er_tenant r of Some rt \<Rightarrow> rt \<noteq> tenant | None \<Rightarrow> False)"
  let ?k = "(tenant, er_entity_id r)"
  have refs: "refs_entity tenant e (r # rs) \<longleftrightarrow> (\<not> foreign \<and> er_entity_id r = e) \<or> refs_entity tenant e rs"
    by (auto simp: refs_entity_def foreign_def split: option.splits)
  have upd: "set (ix_at (ix(?k \<mapsto> (case ix ?k of None \<Rightarrow> [] | Some is \<Rightarrow> is) @ [idx])) (t, e)) =
      set (ix_at ix (t, e)) \<union> (if t = tenant \<and> er_entity_id r = e then {idx} else {})"
    by (auto simp: ix_at_def)
  show ?case
  proof (cases foreign)
    case True
    then show ?thesis using Cons.IH[of ix] refs by (simp add: foreign_def)
  next
    case False
    then have step: "index_refs tenant idx (r # rs) ix =
        index_refs tenant idx rs (ix(?k \<mapsto> (case ix ?k of None \<Rightarrow> [] | Some is \<Rightarrow> is) @ [idx]))"
      unfolding foreign_def index_refs.simps Let_def by (rule if_not_P)
    show ?thesis unfolding step Cons.IH upd refs using False by auto
  qed
qed (simp add: refs_entity_def)

inductive long_term_reachable :: "long_term_store \<Rightarrow> bool" where
  lt_new: "long_term_reachable long_term_new"
| lt_insert: "long_term_reachable s \<Longrightarrow> long_term_reachable (long_term_insert s r)"

lemma long_term_index:
  "long_term_reachable s \<Longrightarrow>
     set (ix_at (lts_entity_index s) (t, e)) =
       {i. i < length (lts_records s) \<and> ltr_tenant (lts_records s ! i) = t \<and>
           refs_entity t e (ltr_entity_refs (lts_records s ! i))}"
proof (induction arbitrary: t e rule: long_term_reachable.induct)
  case (lt_insert s r)
  then show ?case
    by (auto simp: long_term_insert_def set_ix_at_index_refs nth_append less_Suc_eq split: if_splits)
qed (simp add: long_term_new_def ix_at_def)

lemma search_by_entity_alt:
  "long_term_search_by_entity s tenant e limit =
     take limit (filter (\<lambda>r. ltr_tenant r = tenant)
       (List.map_filter (\<lambda>i. if i < length (lts_records s) then Some (lts_records s ! i) else None)
         (ix_at (lts_entity_index s) (tenant, er_entity_id e))))"
  by (auto simp: long_term_search_by_entity_def ix_at_def map_filter_def split: option.splits)

text \<open>
  C31. Long-term memory is isolated by tenant and its entity index is exact: with a limit that does not
  cut, a search by entity returns precisely the stored records of that tenant that reference the
  entity (a reference naming another tenant does not count), and no search of either kind ever
  returns another tenant's record.
\<close>

theorem long_term_search_exact:
  assumes "long_term_reachable s"
  shows "set (long_term_search_by_entity s tenant e limit)
           \<subseteq> {r \<in> set (lts_records s). ltr_tenant r = tenant \<and> refs_entity tenant (er_entity_id e) (ltr_entity_refs r)}
       \<and> (length (ix_at (lts_entity_index s) (tenant, er_entity_id e)) \<le> limit \<longrightarrow>
           set (long_term_search_by_entity s tenant e limit)
             = {r \<in> set (lts_records s). ltr_tenant r = tenant \<and> refs_entity tenant (er_entity_id e) (ltr_entity_refs r)})
       \<and> set (long_term_search s tenant q limit) \<subseteq> {r \<in> set (lts_records s). ltr_tenant r = tenant}"
proof -
  let ?is = "ix_at (lts_entity_index s) (tenant, er_entity_id e)"
  let ?get = "\<lambda>i. if i < length (lts_records s) then Some (lts_records s ! i) else None"
  let ?all = "filter (\<lambda>r. ltr_tenant r = tenant) (List.map_filter ?get ?is)"
  have all: "set ?all = {r \<in> set (lts_records s). ltr_tenant r = tenant \<and> refs_entity tenant (er_entity_id e) (ltr_entity_refs r)}"
    using long_term_index[OF assms, of tenant "er_entity_id e"]
    by (auto simp: map_filter_def in_set_conv_nth image_iff)
  have len: "length ?all \<le> length ?is"
    by (rule order_trans[OF length_filter_le]) (simp add: map_filter_def)
  have kw: "set (long_term_search s tenant q limit) \<subseteq> {r \<in> set (lts_records s). ltr_tenant r = tenant}"
    by (auto simp: long_term_search_def Let_def dest!: in_set_takeD)
  show ?thesis
    unfolding search_by_entity_alt all[symmetric]
    using set_take_subset[of limit ?all] order_trans[OF len] take_all[of ?all limit] kw by presburger
qed

theorem long_term_search_exact_witness:
  "set (long_term_search_by_entity (long_term_insert long_term_new
      \<lparr>ltr_tenant = ''t'', ltr_kind = [], ltr_content = [], ltr_payload = JNull,
       ltr_entity_refs = [entity_ref_new ''order'']\<rparr>) ''u'' (entity_ref_new ''order'') 10) = {}"
proof -
  let ?s = "long_term_insert long_term_new
      \<lparr>ltr_tenant = ''t'', ltr_kind = [], ltr_content = [], ltr_payload = JNull,
       ltr_entity_refs = [entity_ref_new ''order'']\<rparr>"
  have "long_term_reachable ?s" by (intro long_term_reachable.intros)
  moreover have "{r \<in> set (lts_records ?s). ltr_tenant r = ''u'' \<and> X r} = {}" for X
    by (auto simp: long_term_insert_def long_term_new_def)
  ultimately show ?thesis
    using long_term_search_exact[of ?s "''u''" "entity_ref_new ''order''" 10] by (simp only: subset_empty)
qed

text \<open>
  Context sections never exceed their token budget: whatever the text, the fitted section is a prefix
  of it whose estimated token count is at most the section's cap, and a text within the cap is
  kept whole.
\<close>

theorem fit_within_budget:
  "approx_tokens (fit b sec text) \<le> section_cap b sec \<and>
   (\<exists>rest. text = fit b sec text @ rest) \<and>
   (length text \<le> 4 * section_cap b sec \<and> length text < 2 ^ 64 \<longrightarrow> fit b sec text = text)"
proof -
  let ?cap = "section_cap b sec"
  have l: "length (fit b sec text) \<le> ?cap * 4"
    by (auto simp: fit_def truncate_text_def Let_def)
  then have "approx_tokens (fit b sec text) \<le> ?cap" by (simp add: approx_tokens_def)
  moreover have "\<exists>rest. text = fit b sec text @ rest"
    by (rule exI[of _ "drop (min (?cap * 4) (2 ^ 64 - 1)) text"]) (auto simp: fit_def truncate_text_def Let_def)
  ultimately show ?thesis by (auto simp: fit_def truncate_text_def Let_def)
qed

end
