(* ===== verification/Registry.thy ===== *)
theory Registry
  imports Storage Trust
begin

text \<open>
  The capability registry (\<open>aaf-registry\<close>): registration with contract validation, attestation-gated
  lookup, rate-limited reputation updates, lexical and entity discovery, the automated registration
  pipeline, version comparison and the A2A card projection. A registry is its store and the
  reputation rate map; the clock is an argument.
\<close>

datatype registry_error =
    RE_Storage storage_error
  | RE_Invalid contract_error
  | RE_NoMatch string
  | RE_InsufficientAttestation attestation_level attestation_level
  | RE_RateLimited string
  | RE_NotFound string

record registry =
  rg_store :: "capability_contract store"
  rg_rate :: "timestamp hashmap"

definition registry_in_memory :: registry where
  "registry_in_memory = \<lparr>rg_store = [], rg_rate = Map.empty\<rparr>"

definition reputation_rate_limit :: int where
  "reputation_rate_limit = 60 * 1000000000"

definition lift_storage :: "('a, storage_error) result \<Rightarrow> ('a, registry_error) result" where
  "lift_storage r = (case r of Inl e \<Rightarrow> Err (RE_Storage e) | Inr x \<Rightarrow> Ok x)"

definition registry_register :: "registry \<Rightarrow> capability_contract \<Rightarrow> registry \<times> (unit, registry_error) result" where
  "registry_register g cap =
     (case validate_capability cap of
        Inl e \<Rightarrow> (g, Err (RE_Invalid e))
      | Inr _ \<Rightarrow> (g\<lparr>rg_store := rs_upsert (rg_store g) cap\<rparr>, Ok ()))"

definition registry_get :: "registry \<Rightarrow> string \<Rightarrow> (capability_contract, registry_error) result" where
  "registry_get g i = lift_storage (rs_get (rg_store g) i)"

definition get_for_attestation ::
  "registry \<Rightarrow> string \<Rightarrow> attestation_level \<Rightarrow> (capability_contract, registry_error) result" where
  "get_for_attestation g i presented =
     bind_result (lift_storage (rs_get (rg_store g) i)) (\<lambda>cap.
       case cap_required_attestation_level cap of
         Some required \<Rightarrow>
           if presented < required then Err (RE_InsufficientAttestation required presented) else Ok cap
       | None \<Rightarrow> Ok cap)"

definition registry_deregister :: "registry \<Rightarrow> string \<Rightarrow> registry" where
  "registry_deregister g i = g\<lparr>rg_store := rs_delete (rg_store g) i\<rparr>"

definition registry_list :: "registry \<Rightarrow> capability_contract list" where
  "registry_list g = rs_list (rg_store g)"

definition find_by_name :: "registry \<Rightarrow> string \<Rightarrow> (capability_contract, registry_error) result" where
  "find_by_name g name =
     (case find (\<lambda>c. cap_name c = name) (registry_list g) of
        Some c \<Rightarrow> Ok c | None \<Rightarrow> Err (RE_NotFound name))"

definition update_reputation ::
  "timestamp \<Rightarrow> registry \<Rightarrow> string \<Rightarrow> f32 \<Rightarrow> learned_rule_ref \<Rightarrow> registry \<times> (unit, registry_error) result" where
  "update_reputation now g i new_score evidence =
     (if (case rg_rate g i of Some prev \<Rightarrow> now - prev < reputation_rate_limit | None \<Rightarrow> False)
      then (g, Err (RE_RateLimited i))
      else let g1 = g\<lparr>rg_rate := (rg_rate g)(i \<mapsto> now)\<rparr>
           in case rs_get (rg_store g1) i of
                Inl e \<Rightarrow> (g1, Err (RE_Storage e))
              | Inr cap \<Rightarrow>
                  (g1\<lparr>rg_store := rs_upsert (rg_store g1)
                     (cap\<lparr>cap_reputation := fclamp new_score (Fin 0) (Fin 1),
                          cap_learned_rules := cap_learned_rules cap @ [evidence]\<rparr>)\<rparr>, Ok ()))"

section \<open>Discovery\<close>

record discovery_query =
  dq_query :: string
  dq_domain :: "string option"
  dq_limit :: nat

definition discovery_query_new :: "string \<Rightarrow> discovery_query" where
  "discovery_query_new q = \<lparr>dq_query = q, dq_domain = None, dq_limit = 5\<rparr>"

record discovery_result =
  dr_capability :: capability_contract
  dr_score :: f64

definition lexical_score :: "string \<Rightarrow> string \<Rightarrow> f64" where
  "lexical_score q haystack =
     (let q_terms = split_whitespace (to_lowercase q); h = to_lowercase haystack
      in if q_terms = [] then Fin 0
         else fdiv (f64_of_nat (length (filter (\<lambda>t. contains_str h t) q_terms)))
                   (f64_of_nat (length q_terms)))"

definition haystack_of :: "capability_contract \<Rightarrow> string" where
  "haystack_of cap = cap_name cap @ '' '' @ cap_description cap @ '' '' @ join_with '' '' (cap_tags cap)"

fun discover_scan :: "discovery_query \<Rightarrow> capability_contract list \<Rightarrow> discovery_result list" where
  "discover_scan q [] = []"
| "discover_scan q (cap # caps) =
     (if (case dq_domain q of Some d \<Rightarrow> d \<notin> set (cap_domains cap) | None \<Rightarrow> False)
      then discover_scan q caps
      else let score = lexical_score (dq_query q) (haystack_of cap)
           in if flt (Fin 0) score
              then \<lparr>dr_capability = cap, dr_score = score\<rparr> # discover_scan q caps
              else discover_scan q caps)"

definition by_score_desc :: "discovery_result \<Rightarrow> discovery_result \<Rightarrow> bool" where
  "by_score_desc a b \<longleftrightarrow> \<not> flt (dr_score a) (dr_score b)"

definition discover :: "registry \<Rightarrow> discovery_query \<Rightarrow> discovery_result list" where
  "discover g q = take (dq_limit q) (stable_sort_by by_score_desc (discover_scan q (registry_list g)))"

datatype entity_query_kind = EQ_Reads | EQ_Writes | EQ_Emits

definition declares_entity :: "entity_query_kind \<Rightarrow> string \<Rightarrow> capability_contract \<Rightarrow> bool" where
  "declares_entity kind e cap =
     (case kind of
        EQ_Reads \<Rightarrow> \<exists>r \<in> set (cap_reads cap). er_entity_id r = e
      | EQ_Writes \<Rightarrow> \<exists>r \<in> set (cap_writes cap). er_entity_id r = e
      | EQ_Emits \<Rightarrow> \<exists>ev \<in> set (cap_emits cap). evr_id ev = e)"

definition discover_by_entity :: "registry \<Rightarrow> entity_ref_lite \<Rightarrow> entity_query_kind \<Rightarrow> capability_contract list" where
  "discover_by_entity g entity kind = filter (declares_entity kind (er_entity_id entity)) (registry_list g)"

section \<open>Registration pipeline\<close>

datatype registration_error =
    RegRegistry registry_error
  | RegConflict string
  | HealthCheckFailed string string

record registration_result =
  rgr_capability_id :: string
  rgr_replaced :: bool
  rgr_initial_trust :: f64
  rgr_health_ok :: bool

definition pipeline_register ::
  "(capability_contract \<Rightarrow> (unit, string) result) \<Rightarrow> registry \<Rightarrow> trust_registry \<Rightarrow> capability_contract \<Rightarrow> bool
     \<Rightarrow> registry \<times> trust_registry \<times> (registration_result, registration_error) result" where
  "pipeline_register health_check g tr cap force =
     (case validate_capability cap of
        Inl e \<Rightarrow> (g, tr, Err (RegRegistry (RE_Invalid e)))
      | Inr _ \<Rightarrow>
          (case health_check cap of
             Inl reason \<Rightarrow> (g, tr, Err (HealthCheckFailed (cap_id cap) reason))
           | Inr _ \<Rightarrow>
               let existing = is_ok (registry_get g (cap_id cap))
               in if existing \<and> \<not> force then (g, tr, Err (RegConflict (cap_id cap)))
                  else let (g', r) = registry_register g cap
                       in case r of
                            Inl e \<Rightarrow> (g', tr, Err (RegRegistry e))
                          | Inr _ \<Rightarrow>
                              let tr' = trust_register tr (cap_id cap)
                              in (g', tr', Ok \<lparr>rgr_capability_id = cap_id cap, rgr_replaced = existing,
                                   rgr_initial_trust = ts_value (trust_get tr' (cap_id cap)),
                                   rgr_health_ok = True\<rparr>)))"

section \<open>Versions\<close>

datatype version_ordering = VO_Older | VO_Equal | VO_Newer | VO_Invalid

definition is_digit :: "char \<Rightarrow> bool" where
  "is_digit c \<longleftrightarrow> CHR ''0'' \<le> c \<and> c \<le> CHR ''9''"

fun digits_value :: "string \<Rightarrow> nat \<Rightarrow> nat" where
  "digits_value [] acc = acc"
| "digits_value (c # cs) acc = digits_value cs (acc * 10 + (of_char c - 48))"

text \<open>\<open>str::parse::<u32>\<close>: an optional plus sign, then at least one digit, in range.\<close>

definition parse_u32 :: "string \<Rightarrow> u32 option" where
  "parse_u32 s =
     (let ds = (case s of c # cs \<Rightarrow> if c = CHR ''+'' then cs else s | [] \<Rightarrow> [])
      in if ds \<noteq> [] \<and> list_all is_digit ds \<and> digits_value ds 0 < 2 ^ 32
         then Some (of_nat (digits_value ds 0)) else None)"

definition parse_version :: "string \<Rightarrow> (u32 \<times> u32 \<times> u32) option" where
  "parse_version s =
     (case split_on CHR ''.'' (dropWhile (\<lambda>c. c = CHR ''v'') s) of
        a # b # rest \<Rightarrow>
          do { maj \<leftarrow> parse_u32 a; mi \<leftarrow> parse_u32 b;
               pat \<leftarrow> parse_u32 (case rest of c # _ \<Rightarrow> c | [] \<Rightarrow> ''0'');
               Some (maj, mi, pat) }
      | _ \<Rightarrow> None)"

definition version_less :: "u32 \<times> u32 \<times> u32 \<Rightarrow> u32 \<times> u32 \<times> u32 \<Rightarrow> bool" where
  "version_less a b =
     (case (a, b) of ((a1, a2, a3), (b1, b2, b3)) \<Rightarrow>
        a1 < b1 \<or> (a1 = b1 \<and> (a2 < b2 \<or> (a2 = b2 \<and> a3 < b3))))"

definition compare_versions :: "string \<Rightarrow> string \<Rightarrow> version_ordering" where
  "compare_versions a b =
     (case (parse_version a, parse_version b) of
        (Some x, Some y) \<Rightarrow> if version_less x y then VO_Older else if x = y then VO_Equal else VO_Newer
      | _ \<Rightarrow> VO_Invalid)"

section \<open>A2A cards\<close>

record agent_card =
  ac_id :: string
  ac_name :: string
  ac_description :: string
  ac_version :: string
  ac_endpoint_kind :: endpoint_kind
  ac_endpoint_address :: string
  ac_side_effect :: side_effect
  ac_domains :: "string list"

definition card_from_contract :: "capability_contract \<Rightarrow> agent_card" where
  "card_from_contract c =
     \<lparr>ac_id = cap_id c, ac_name = cap_name c, ac_description = cap_description c,
      ac_version = cap_version c, ac_endpoint_kind = ep_kind (cap_endpoint c),
      ac_endpoint_address = ep_address (cap_endpoint c), ac_side_effect = cap_side_effect c,
      ac_domains = cap_domains c\<rparr>"

definition card_into_contract :: "agent_card \<Rightarrow> string \<Rightarrow> capability_contract" where
  "card_into_contract k required_scope =
     \<lparr>cap_id = ac_id k, cap_name = ac_name k, cap_description = ac_description k,
      cap_version = ac_version k, cap_provider_agent = ''a2a-import'',
      cap_endpoint = \<lparr>ep_kind = ac_endpoint_kind k, ep_address = ac_endpoint_address k, ep_method = None\<rparr>,
      cap_input_schema = JObject [], cap_output_schema = JObject [], cap_side_effect = ac_side_effect k,
      cap_idempotent = False, cap_reversible = False, cap_deterministic = False,
      cap_compensation = None,
      cap_sla = \<lparr>latency_p50_ms = 0, latency_p99_ms = 0, availability = Fin 0\<rparr>,
      cap_cost = \<lparr>per_request = Fin 0, currency = []\<rparr>, cap_required_scope = required_scope,
      cap_data_classification = DC_Internal, cap_degradation = [], cap_depends_on = [],
      cap_conflicts_with = [], cap_tags = [''a2a'', ''imported''], cap_domains = ac_domains k,
      cap_reads = [], cap_writes = [], cap_emits = [], cap_entity_scope = None,
      cap_required_attestation_level = None, cap_reputation = to_f32 (1 / 2), cap_learned_rules = []\<rparr>"

section \<open>What the registry promises\<close>

definition registry_inv :: "registry \<Rightarrow> bool" where
  "registry_inv g \<longleftrightarrow> store_ok cap_id (rg_store g) \<and> (\<forall>c \<in> set (registry_list g). validate_capability c = Ok ())"

inductive registry_reachable :: "registry \<Rightarrow> bool" where
  rr_new: "registry_reachable registry_in_memory"
| rr_register: "registry_reachable g \<Longrightarrow> registry_reachable (fst (registry_register g cap))"
| rr_deregister: "registry_reachable g \<Longrightarrow> registry_reachable (registry_deregister g i)"
| rr_reputation: "registry_reachable g \<Longrightarrow> registry_reachable (fst (update_reputation now g i score evidence))"

lemma registry_get_Ok_iff:
  "registry_get g i = Ok c \<longleftrightarrow> rs_get (rg_store g) i = Ok c"
  by (auto simp: registry_get_def lift_storage_def split: sum.splits)

lemma registry_inv_upsert:
  "registry_inv g \<Longrightarrow> validate_capability c = Ok () \<Longrightarrow>
     registry_inv (g\<lparr>rg_store := rs_upsert (rg_store g) c\<rparr>)"
  by (auto simp: registry_inv_def registry_list_def capability_store.ok_put capability_store.list_put)

lemma registry_inv_rate [simp]: "registry_inv (g\<lparr>rg_rate := r\<rparr>) = registry_inv g"
  by (simp add: registry_inv_def registry_list_def)

lemma registry_inv_get:
  "registry_inv g \<Longrightarrow> rs_get (rg_store g) i = Ok c \<Longrightarrow> cap_id c = i \<and> validate_capability c = Ok ()"
  by (auto simp: registry_inv_def registry_list_def capability_store.get_list)

lemma registry_inv_reputation:
  assumes "registry_inv g" shows "registry_inv (fst (update_reputation now g i score evidence))"
proof (cases "rs_get (rg_store g) i")
  case (Inl e)
  with assms show ?thesis by (simp add: update_reputation_def Let_def)
next
  case (Inr c)
  let ?c = "c\<lparr>cap_reputation := fclamp score (Fin 0) (Fin 1), cap_learned_rules := cap_learned_rules c @ [evidence]\<rparr>"
  have "validate_capability ?c = Ok ()"
    using registry_inv_get[OF assms Inr] by (simp add: validate_capability_Ok_iff)
  with assms Inr registry_inv_upsert[of "g\<lparr>rg_rate := (rg_rate g)(i \<mapsto> now)\<rparr>" ?c]
  show ?thesis by (simp add: update_reputation_def Let_def)
qed

lemma registry_reachable_inv: "registry_reachable g \<Longrightarrow> registry_inv g"
proof (induction rule: registry_reachable.induct)
  case rr_new
  then show ?case
    by (simp add: registry_inv_def registry_in_memory_def registry_list_def rs_list_def store_values_def store_ok_def)
next
  case (rr_register g cap)
  then show ?case by (auto simp: registry_register_def registry_inv_upsert split: sum.splits)
next
  case (rr_deregister g i)
  then show ?case
    by (auto simp: registry_deregister_def registry_inv_def registry_list_def
        capability_store.ok_remove capability_store.list_remove)
next
  case (rr_reputation g now i score evidence)
  then show ?case by (simp add: registry_inv_reputation)
qed

lemma set_discover: "r \<in> set (discover g q) \<Longrightarrow> r \<in> set (discover_scan q (registry_list g))"
  unfolding discover_def by (drule in_set_takeD) simp

definition discovery_hit :: "discovery_query \<Rightarrow> capability_contract \<Rightarrow> bool" where
  "discovery_hit q c \<longleftrightarrow> (case dq_domain q of Some d \<Rightarrow> d \<in> set (cap_domains c) | None \<Rightarrow> True) \<and>
     flt (Fin 0) (lexical_score (dq_query q) (haystack_of c))"

definition scored :: "discovery_query \<Rightarrow> capability_contract \<Rightarrow> discovery_result" where
  "scored q c = \<lparr>dr_capability = c, dr_score = lexical_score (dq_query q) (haystack_of c)\<rparr>"

lemma scored_simps [simp]:
  "dr_capability (scored q c) = c" "dr_score (scored q c) = lexical_score (dq_query q) (haystack_of c)"
  by (simp_all add: scored_def)

lemma discover_scan_alt: "discover_scan q caps = map (scored q) (filter (discovery_hit q) caps)"
  by (induction caps) (auto simp: discovery_hit_def scored_def Let_def split: option.splits)

lemma flt_total_trans:
  "a \<noteq> NaN \<Longrightarrow> b \<noteq> NaN \<Longrightarrow> \<not> flt a b \<or> \<not> flt b a"
  "a \<noteq> NaN \<Longrightarrow> b \<noteq> NaN \<Longrightarrow> c \<noteq> NaN \<Longrightarrow> \<not> flt a b \<Longrightarrow> \<not> flt b c \<Longrightarrow> \<not> flt a c"
  by (cases a; cases b; auto) (cases a; cases b; cases c; auto)

lemma discovery_hit_not_NaN: "discovery_hit q c \<Longrightarrow> lexical_score (dq_query q) (haystack_of c) \<noteq> NaN"
  by (auto simp: discovery_hit_def)

lemma sorted_scan: "sorted_wrt by_score_desc (stable_sort_by by_score_desc (discover_scan q caps))"
proof (rule sorted_stable_sort_by)
  have n: "dr_score r \<noteq> NaN" if "r \<in> set (discover_scan q caps)" for r
    using that by (auto simp: discover_scan_alt dest: discovery_hit_not_NaN)
  show "by_score_desc a b \<or> by_score_desc b a"
    if "a \<in> set (discover_scan q caps)" "b \<in> set (discover_scan q caps)" for a b
    using flt_total_trans(1)[OF n n, OF that] by (simp add: by_score_desc_def)
  show "by_score_desc a c" if "a \<in> set (discover_scan q caps)" "b \<in> set (discover_scan q caps)"
    "c \<in> set (discover_scan q caps)" "by_score_desc a b" "by_score_desc b c" for a b c
    using flt_total_trans(2)[OF n n n, OF that(1-3)] that(4,5) by (simp add: by_score_desc_def)
qed

lemma sorted_take_drop:
  assumes "sorted_wrt le xs" "x \<in> set xs" "x \<notin> set (take n xs)" "y \<in> set (take n xs)"
  shows "le y x"
proof -
  have "x \<in> set (drop n xs)" using assms(2,3) by (metis append_take_drop_id Un_iff set_append)
  moreover have "sorted_wrt le (take n xs @ drop n xs)" using assms(1) by simp
  ultimately show ?thesis using assms(4) by (auto simp only: sorted_wrt_append)
qed

text \<open>C23. Rule 9 at the registry: whatever sequence of registrations, removals and reputation updates
  was run, every capability the registry hands out carries the id it was asked for, has a name and
  a version, and declares a compensation when its side effect is write-class; discovery hands out
  only such capabilities too.\<close>

theorem registry_serves_only_valid:
  assumes "registry_reachable g" "registry_get g i = Ok c \<or> c \<in> dr_capability ` set (discover g q)"
  shows "(registry_get g i = Ok c \<longrightarrow> cap_id c = i) \<and> trim (cap_name c) \<noteq> [] \<and> trim (cap_version c) \<noteq> []
    \<and> (requires_compensation (cap_side_effect c) \<longrightarrow> cap_compensation c \<noteq> None)"
proof -
  have inv: "registry_inv g" by (rule registry_reachable_inv[OF assms(1)])
  then have "c \<in> dr_capability ` set (discover g q) \<Longrightarrow> validate_capability c = Ok ()"
    by (auto dest!: set_discover simp: discover_scan_alt registry_inv_def)
  with assms(2) inv have "validate_capability c = Ok ()" "registry_get g i = Ok c \<longrightarrow> cap_id c = i"
    by (auto simp: registry_get_Ok_iff dest: registry_inv_get)
  then show ?thesis by (simp add: validate_capability_Ok_iff)
qed

definition ex_registry :: registry where
  "ex_registry = fst (registry_register registry_in_memory ex_capability)"

lemma ex_capability_simps [simp]:
  "cap_id ex_capability = ''cap-1''" "cap_domains ex_capability = [''shop'']" "cap_depends_on ex_capability = []"
  "cap_side_effect ex_capability = SE_Read" "cap_writes ex_capability = []" "cap_reads ex_capability = []"
  by (simp_all add: ex_capability_def)

lemma ex_capability_valid: "validate_capability ex_capability = Ok ()"
  by (simp add: validate_capability_def ex_capability_def trim_def is_whitespace_def requires_compensation_def)

lemma ex_registry_eq: "ex_registry = \<lparr>rg_store = [(''cap-1'', ex_capability)], rg_rate = Map.empty\<rparr>"
  by (simp add: ex_registry_def registry_register_def ex_capability_valid registry_in_memory_def rs_upsert_def
      store_insert_def)

lemma registry_get_ex:
  "registry_get ex_registry i = (if i = ''cap-1'' then Ok ex_capability else Err (RE_Storage (NotFound i)))"
  by (simp add: registry_get_def ex_registry_eq rs_get_def store_lookup_def lift_storage_def)

theorem registry_serves_only_valid_witness:
  "registry_get ex_registry ''cap-1'' = Ok ex_capability \<and> trim (cap_name ex_capability) \<noteq> []"
proof -
  have g: "registry_get ex_registry ''cap-1'' = Ok ex_capability" by (simp add: registry_get_ex)
  have "registry_reachable ex_registry"
    unfolding ex_registry_def by (intro registry_reachable.intros)
  from registry_serves_only_valid[OF this, of "''cap-1''" ex_capability] g show ?thesis by blast
qed

text \<open>Discovery is a ranked, limited search that loses nothing it should not: the result has the
  length of the smaller of the limit and the number of matching capabilities, it is in
  descending order of score, every entry is a matching capability with its own lexical score,
  and a matching capability that is left out scores no higher than any entry returned.\<close>

theorem discover_ranked:
  "length (discover g q) = min (length (filter (discovery_hit q) (registry_list g))) (dq_limit q)
   \<and> sorted_wrt (\<lambda>a b. \<not> flt (dr_score a) (dr_score b)) (discover g q)
   \<and> (\<forall>r \<in> set (discover g q). \<exists>c \<in> set (registry_list g). discovery_hit q c \<and> r = scored q c)
   \<and> (\<forall>c \<in> set (registry_list g). discovery_hit q c \<longrightarrow> scored q c \<in> set (discover g q)
        \<or> (\<forall>r \<in> set (discover g q). \<not> flt (dr_score r) (dr_score (scored q c))))"
proof (intro conjI)
  show "length (discover g q) = min (length (filter (discovery_hit q) (registry_list g))) (dq_limit q)"
    by (simp add: discover_def discover_scan_alt)
  show "sorted_wrt (\<lambda>a b. \<not> flt (dr_score a) (dr_score b)) (discover g q)"
    using sorted_scan[of q "registry_list g"] by (simp add: discover_def by_score_desc_def[abs_def] sorted_wrt_take)
  show "\<forall>r \<in> set (discover g q). \<exists>c \<in> set (registry_list g). discovery_hit q c \<and> r = scored q c"
    by (auto dest!: set_discover simp: discover_scan_alt)
  show "\<forall>c \<in> set (registry_list g). discovery_hit q c \<longrightarrow> scored q c \<in> set (discover g q)
        \<or> (\<forall>r \<in> set (discover g q). \<not> flt (dr_score r) (dr_score (scored q c)))"
  proof (intro ballI impI)
    fix c assume "c \<in> set (registry_list g)" "discovery_hit q c"
    then have "scored q c \<in> set (stable_sort_by by_score_desc (discover_scan q (registry_list g)))"
      by (simp add: discover_scan_alt)
    from sorted_take_drop[OF sorted_scan this, of "dq_limit q"]
    show "scored q c \<in> set (discover g q) \<or> (\<forall>r \<in> set (discover g q). \<not> flt (dr_score r) (dr_score (scored q c)))"
      unfolding discover_def[symmetric] by_score_desc_def by blast
  qed
qed

text \<open>A reputation update is rate limited per capability: once an update was accepted at time
  \<open>t\<close>, an update of the same capability is refused and changes nothing until sixty seconds have
  passed and is accepted from then on; the accepted one stored the score clamped to the unit
  interval and appended its evidence to the capability, leaving the other capabilities alone.\<close>

theorem reputation_rate_limited:
  assumes "registry_reachable g" "update_reputation t g i s e = (g', Ok ())"
  shows "(t' - t < 60 * 1000000000 \<longrightarrow> update_reputation t' g' i s' e' = (g', Err (RE_RateLimited i)))
    \<and> (60 * 1000000000 \<le> t' - t \<longrightarrow> snd (update_reputation t' g' i s' e') = Ok ())
    \<and> (\<exists>c. registry_get g i = Ok c \<and>
          registry_get g' i = Ok (c\<lparr>cap_reputation := fclamp s (Fin 0) (Fin 1), cap_learned_rules := cap_learned_rules c @ [e]\<rparr>))
    \<and> (j \<noteq> i \<longrightarrow> registry_get g' j = registry_get g j)"
proof -
  from assms(2) obtain c where c: "rs_get (rg_store g) i = Ok c"
    and g': "g' = g\<lparr>rg_rate := (rg_rate g)(i \<mapsto> t), rg_store := rs_upsert (rg_store g)
       (c\<lparr>cap_reputation := fclamp s (Fin 0) (Fin 1), cap_learned_rules := cap_learned_rules c @ [e]\<rparr>)\<rparr>"
    by (auto simp: update_reputation_def Let_def split: if_splits sum.splits)
  have "cap_id c = i"
    using registry_inv_get[OF registry_reachable_inv[OF assms(1)] c] by simp
  with c g' show ?thesis
    by (auto simp: registry_get_def lift_storage_def capability_store.get_put update_reputation_def
        Let_def reputation_rate_limit_def)
qed

text \<open>C24. The registration pipeline is all or nothing: a refused registration leaves the capability
  registry and the trust registry as they were, and a successful one makes exactly the given,
  validated, health-checked capability the registry's answer for its id, with a fresh trust
  record, even where a forced registration replaces a capability with a history of violations.\<close>

theorem pipeline_register_atomic:
  "case pipeline_register hc g tr cap force of
     (g', tr', Inl e) \<Rightarrow> g' = g \<and> tr' = tr
   | (g', tr', Inr r) \<Rightarrow>
       validate_capability cap = Ok () \<and> hc cap = Ok () \<and> (rgr_replaced r \<longrightarrow> force)
       \<and> (\<forall>i. registry_get g' i = (if i = cap_id cap then Ok cap else registry_get g i))
       \<and> (\<forall>a. trg_inner tr' a = (if a = cap_id cap then Some fresh_record else trg_inner tr a))
       \<and> r = \<lparr>rgr_capability_id = cap_id cap, rgr_replaced = is_ok (registry_get g (cap_id cap)),
              rgr_initial_trust = ts_value trust_initial, rgr_health_ok = True\<rparr>"
  by (auto simp: pipeline_register_def Let_def registry_register_def registry_get_def lift_storage_def
      capability_store.get_put trust_register_def trust_get_def fresh_record_def
      split: sum.splits if_splits)

theorem pipeline_register_atomic_witness:
  "snd (snd (pipeline_register (\<lambda>_. Ok ()) ex_registry trust_registry_new ex_capability True)) =
     Ok \<lparr>rgr_capability_id = ''cap-1'', rgr_replaced = True, rgr_initial_trust = ts_value trust_initial, rgr_health_ok = True\<rparr>"
proof -
  obtain g' tr' r where run: "pipeline_register (\<lambda>_. Ok ()) ex_registry trust_registry_new ex_capability True = (g', tr', r)"
    by (cases "pipeline_register (\<lambda>_. Ok ()) ex_registry trust_registry_new ex_capability True") auto
  have "is_ok (snd (snd (pipeline_register (\<lambda>_. Ok ()) ex_registry trust_registry_new ex_capability True)))"
    "is_ok (registry_get ex_registry ''cap-1'')" "cap_id ex_capability = ''cap-1''"
    by (simp_all add: registry_get_ex pipeline_register_def registry_register_def ex_capability_valid Let_def)
  with pipeline_register_atomic[where hc = "\<lambda>_. Ok ()" and g = ex_registry and tr = trust_registry_new
    and cap = ex_capability and force = True]
  show ?thesis unfolding run by (cases r) simp_all
qed

text \<open>A card survives import and export: exporting an imported card gives the card back; and an
  imported card with a write-class side effect is refused by registration whatever scope it is
  given, because an import carries no compensation.\<close>

theorem a2a_import_export:
  "card_from_contract (card_into_contract k scope) = k
   \<and> (requires_compensation (ac_side_effect k) \<longrightarrow>
        fst (registry_register g (card_into_contract k scope)) = g
        \<and> \<not> is_ok (snd (registry_register g (card_into_contract k scope))))"
proof
  show "card_from_contract (card_into_contract k scope) = k"
    by (simp add: card_from_contract_def card_into_contract_def)
  have "cap_side_effect (card_into_contract k scope) = ac_side_effect k" "cap_compensation (card_into_contract k scope) = None"
    by (simp_all add: card_into_contract_def)
  then show "requires_compensation (ac_side_effect k) \<longrightarrow>
        fst (registry_register g (card_into_contract k scope)) = g
        \<and> \<not> is_ok (snd (registry_register g (card_into_contract k scope)))"
    by (auto simp: registry_register_def validate_capability_Ok_iff split: sum.split)
qed

end
