(* ===== verification/Trace.thy ===== *)
theory Trace
  imports Storage
begin

text \<open>
  The trace recorder (\<open>aaf-trace\<close>): opening, recording and closing execution traces over a trace
  store, the cost attribution of a closed trace, the metrics over a set of traces and the replay
  projection. Subscribers run in spawned tasks that the recorder does not wait for; the model keeps
  the observations offered to them, in order.
\<close>

datatype recorder_error = RcStorage storage_error | AlreadyClosed | NotOpened string

record recorder =
  rc_store :: "execution_trace store"
  rc_open :: "execution_trace hashmap"
  rc_offered :: "observation list"

definition recorder_in_memory :: recorder where
  "recorder_in_memory = \<lparr>rc_store = [], rc_open = Map.empty, rc_offered = []\<rparr>"

definition notify_subscribers :: "recorder \<Rightarrow> observation \<Rightarrow> recorder" where
  "notify_subscribers r ob = r\<lparr>rc_offered := rc_offered r @ [ob]\<rparr>"

definition recorder_open :: "timestamp \<Rightarrow> recorder \<Rightarrow> string \<Rightarrow> string \<Rightarrow> recorder \<times> (unit, recorder_error) result" where
  "recorder_open now r tid iid =
     (let trace = trace_open now tid iid
      in (r\<lparr>rc_store := trace_put (rc_store r) trace, rc_open := (rc_open r)(tid \<mapsto> trace)\<rparr>, Ok ()))"

definition record_step :: "recorder \<Rightarrow> trace_step \<Rightarrow> recorder \<times> (unit, recorder_error) result" where
  "record_step r s =
     (let tid = ob_trace_id (tst_observation s);
          r1 = notify_subscribers r (tst_observation s)
      in case rc_open r1 tid of
           None \<Rightarrow> (r1, Err (NotOpened tid))
         | Some trace \<Rightarrow>
             if tr_status trace \<noteq> Tr_Running then (r1, Err AlreadyClosed)
             else let snapshot = trace_record trace s
                  in (r1\<lparr>rc_open := (rc_open r1)(tid \<mapsto> snapshot),
                         rc_store := trace_put (rc_store r1) snapshot\<rparr>, Ok ()))"

definition record_observation ::
  "recorder \<Rightarrow> observation \<Rightarrow> string \<Rightarrow> f64 \<Rightarrow> u64 \<Rightarrow> u64 \<Rightarrow> u64 \<Rightarrow> string option
     \<Rightarrow> recorder \<times> (unit, recorder_error) result" where
  "record_observation r ob step_type cost duration tokens_in tokens_out model =
     record_step r \<lparr>tst_step = ob_step ob, tst_node_id = ob_node_id ob, tst_step_type = step_type,
       tst_model = model, tst_tokens_in = tokens_in, tst_tokens_out = tokens_out, tst_cost_usd = cost,
       tst_duration_ms = duration, tst_observation = ob\<rparr>"

definition recorder_close ::
  "timestamp \<Rightarrow> recorder \<Rightarrow> string \<Rightarrow> trace_status \<Rightarrow> recorder \<times> (unit, recorder_error) result" where
  "recorder_close now r tid st =
     (case rc_open r tid of
        None \<Rightarrow> (r, Err (NotOpened tid))
      | Some trace \<Rightarrow>
          let snapshot = trace_close now trace st
          in (r\<lparr>rc_open := (rc_open r)(tid \<mapsto> snapshot),
                 rc_store := trace_put (rc_store r) snapshot\<rparr>, Ok ()))"

definition recorder_get :: "recorder \<Rightarrow> string \<Rightarrow> (execution_trace, recorder_error) result" where
  "recorder_get r tid =
     (case rc_open r tid of
        Some trace \<Rightarrow> Ok trace
      | None \<Rightarrow> (case trace_get (rc_store r) tid of Inl e \<Rightarrow> Err (RcStorage e) | Inr t \<Rightarrow> Ok t))"

section \<open>Cost attribution\<close>

record cost_bucket =
  cbk_department :: string
  cbk_cost_usd :: f64
  cbk_reason :: string

record cost_attribution =
  cat_total_cost_usd :: f64
  cat_buckets :: "cost_bucket list"

record attribution_rule =
  atr_model_glob :: string
  atr_department :: string
  atr_reason :: string

record cost_attributor =
  car_rules :: "attribution_rule list"
  car_default_department :: string

definition attributor_new :: "string \<Rightarrow> cost_attributor" where
  "attributor_new d = \<lparr>car_rules = [], car_default_department = d\<rparr>"

definition attributor_add_rule :: "cost_attributor \<Rightarrow> attribution_rule \<Rightarrow> cost_attributor" where
  "attributor_add_rule a r = a\<lparr>car_rules := car_rules a @ [r]\<rparr>"

definition department_of :: "cost_attributor \<Rightarrow> trace_step \<Rightarrow> string \<times> string" where
  "department_of a s =
     (let model = (case tst_model s of None \<Rightarrow> [] | Some m \<Rightarrow> m)
      in case find (\<lambda>r. atr_model_glob r = ''*'' \<or> atr_model_glob r = model) (car_rules a) of
           None \<Rightarrow> (car_default_department a, ''default for model `'' @ model @ ''`'')
         | Some r \<Rightarrow> (atr_department r, atr_reason r))"

text \<open>\<open>BTreeMap::entry(k).or_insert(v)\<close> followed by an update of the value, keys kept in order.\<close>

fun btree_entry :: "'k::linorder \<Rightarrow> 'v \<Rightarrow> ('v \<Rightarrow> 'v) \<Rightarrow> ('k \<times> 'v) list \<Rightarrow> ('k \<times> 'v) list" where
  "btree_entry k v f [] = [(k, f v)]"
| "btree_entry k v f ((k', v') # m) =
     (if k < k' then (k, f v) # (k', v') # m
      else if k = k' then (k', f v') # m
      else (k', v') # btree_entry k v f m)"

definition attribute_step ::
  "cost_attributor \<Rightarrow> (string \<times> f64 \<times> string) list \<Rightarrow> trace_step \<Rightarrow> (string \<times> f64 \<times> string) list" where
  "attribute_step a acc s =
     (case department_of a s of (dept, reason) \<Rightarrow>
        btree_entry dept (Fin 0, reason) (\<lambda>(c, r). (fadd c (tst_cost_usd s), r)) acc)"

definition attribute :: "cost_attributor \<Rightarrow> execution_trace \<Rightarrow> cost_attribution" where
  "attribute a t =
     \<lparr>cat_total_cost_usd = tr_total_cost_usd t,
      cat_buckets = map (\<lambda>(d, c, r). \<lparr>cbk_department = d, cbk_cost_usd = c, cbk_reason = r\<rparr>)
        (foldl (attribute_step a) [] (tr_steps t))\<rparr>"

section \<open>Metrics and replay\<close>

record trace_metrics =
  tm_total_traces :: u64
  tm_completed :: u64
  tm_failed :: u64
  tm_partial :: u64
  tm_cancelled :: u64
  tm_total_cost_usd :: f64
  tm_mean_cost_usd :: f64
  tm_mean_steps :: f64
  tm_intent_resolution_rate :: f64

definition metrics_default :: trace_metrics where
  "metrics_default = \<lparr>tm_total_traces = 0, tm_completed = 0, tm_failed = 0, tm_partial = 0, tm_cancelled = 0,
     tm_total_cost_usd = Fin 0, tm_mean_cost_usd = Fin 0, tm_mean_steps = Fin 0,
     tm_intent_resolution_rate = Fin 0\<rparr>"

definition f64_of_u64 :: "u64 \<Rightarrow> f64" where
  "f64_of_u64 w = f64_of_nat (unat w)"

definition metrics_add :: "trace_metrics \<times> u64 \<Rightarrow> execution_trace \<Rightarrow> trace_metrics \<times> u64" where
  "metrics_add acc t =
     (case acc of (m, total_steps) \<Rightarrow>
        let m1 = m\<lparr>tm_total_traces := tm_total_traces m + 1,
                   tm_total_cost_usd := fadd (tm_total_cost_usd m) (tr_total_cost_usd t)\<rparr>;
            m2 = (case tr_status t of
                    Tr_Completed \<Rightarrow> m1\<lparr>tm_completed := tm_completed m1 + 1\<rparr>
                  | Tr_Failed \<Rightarrow> m1\<lparr>tm_failed := tm_failed m1 + 1\<rparr>
                  | Tr_Partial \<Rightarrow> m1\<lparr>tm_partial := tm_partial m1 + 1\<rparr>
                  | Tr_Cancelled \<Rightarrow> m1\<lparr>tm_cancelled := tm_cancelled m1 + 1\<rparr>
                  | Tr_Running \<Rightarrow> m1)
        in (m2, total_steps + of_nat (length (tr_steps t))))"

definition metrics_compute :: "execution_trace list \<Rightarrow> trace_metrics" where
  "metrics_compute traces =
     (case foldl metrics_add (metrics_default, 0) traces of (m, total_steps) \<Rightarrow>
        if tm_total_traces m > 0
        then m\<lparr>tm_mean_cost_usd := fdiv (tm_total_cost_usd m) (f64_of_u64 (tm_total_traces m)),
                tm_mean_steps := fdiv (f64_of_u64 total_steps) (f64_of_u64 (tm_total_traces m)),
                tm_intent_resolution_rate := fdiv (f64_of_u64 (tm_completed m)) (f64_of_u64 (tm_total_traces m))\<rparr>
        else m)"

datatype replay_error = OutOfRange u32

definition replay_project :: "execution_trace \<Rightarrow> u32 \<Rightarrow> (trace_step list, replay_error) result" where
  "replay_project t up_to =
     (let mx = foldr max (map tst_step (tr_steps t)) 0
      in if up_to > mx \<and> up_to \<noteq> 0 then Err (OutOfRange up_to)
         else Ok (filter (\<lambda>s. tst_step s \<le> up_to) (tr_steps t)))"

section \<open>The contract of a trace recorder\<close>

text \<open>What the graph executor relies on, over the trace a client can see under an id.\<close>

locale trace_recorder =
  fixes opn :: "timestamp \<Rightarrow> 'r \<Rightarrow> string \<Rightarrow> string \<Rightarrow> 'r \<times> (unit, recorder_error) result"
    and step :: "'r \<Rightarrow> trace_step \<Rightarrow> 'r \<times> (unit, recorder_error) result"
    and close :: "timestamp \<Rightarrow> 'r \<Rightarrow> string \<Rightarrow> trace_status \<Rightarrow> 'r \<times> (unit, recorder_error) result"
    and view :: "'r \<Rightarrow> execution_trace hashmap"
  assumes open_law: "snd (opn now r t i) = Ok ()" "view (fst (opn now r t i)) = (view r)(t \<mapsto> trace_open now t i)"
    and step_running: "view r (ob_trace_id (tst_observation s)) = Some tr \<Longrightarrow> tr_status tr = Tr_Running \<Longrightarrow>
      snd (step r s) = Ok () \<and> view (fst (step r s)) = (view r)(ob_trace_id (tst_observation s) \<mapsto> trace_record tr s)"
    and step_refused: "(case view r (ob_trace_id (tst_observation s)) of None \<Rightarrow> True | Some tr \<Rightarrow> tr_status tr \<noteq> Tr_Running) \<Longrightarrow>
      \<not> is_ok (snd (step r s)) \<and> view (fst (step r s)) = view r"
    and close_law: "view r t = Some tr \<Longrightarrow>
      snd (close now r t st) = Ok () \<and> view (fst (close now r t st)) = (view r)(t \<mapsto> trace_close now tr st)"
begin

lemma record_all:
  assumes "view r t = Some tr" "tr_status tr = Tr_Running" "\<forall>s \<in> set ss. ob_trace_id (tst_observation s) = t"
  shows "view (foldl (\<lambda>r s. fst (step r s)) r ss) = (view r)(t \<mapsto> foldl trace_record tr ss)"
  using assms
proof (induction ss arbitrary: r tr)
  case (Cons s ss)
  have "view (fst (step r s)) = (view r)(t \<mapsto> trace_record tr s)"
    using step_running[of r s tr] Cons.prems by simp
  moreover have "tr_status (trace_record tr s) = Tr_Running" using Cons.prems by (simp add: trace_record_def)
  ultimately show ?case using Cons.IH[of "fst (step r s)" "trace_record tr s"] Cons.prems by (auto simp: fun_eq_iff)
qed auto

lemma closed_is_final:
  assumes "view r t = Some tr" "tr_status tr \<noteq> Tr_Running" "\<forall>s \<in> set ss. ob_trace_id (tst_observation s) = t"
  shows "view (foldl (\<lambda>r s. fst (step r s)) r ss) t = Some tr"
  using assms(1,3) by (induction ss arbitrary: r) (simp_all add: step_refused assms(2))

end

interpretation recorder: trace_recorder recorder_open record_step recorder_close rc_open
  by unfold_locales
    (auto simp: recorder_open_def record_step_def recorder_close_def notify_subscribers_def Let_def
      split: option.splits)

section \<open>Histories\<close>

text \<open>The calls a client makes on a recorder.\<close>

datatype recorder_op =
    RecOpen timestamp string string
  | RecStep trace_step
  | RecClose timestamp string trace_status

fun recorder_apply :: "recorder \<Rightarrow> recorder_op \<Rightarrow> recorder" where
  "recorder_apply r (RecOpen now tid iid) = fst (recorder_open now r tid iid)"
| "recorder_apply r (RecStep s) = fst (record_step r s)"
| "recorder_apply r (RecClose now tid st) = fst (recorder_close now r tid st)"

definition recorder_after :: "recorder_op list \<Rightarrow> recorder" where
  "recorder_after ops = foldl recorder_apply recorder_in_memory ops"

text \<open>What a history of operations says about one trace, apart from the recorder: nothing until the trace is opened,
  then the steps that named it while it was running, and its status.\<close>

fun log_step :: "string \<Rightarrow> (trace_step list \<times> trace_status) option \<Rightarrow> recorder_op \<Rightarrow> (trace_step list \<times> trace_status) option" where
  "log_step tid l (RecOpen now t iid) = (if t = tid then Some ([], Tr_Running) else l)"
| "log_step tid l (RecStep s) =
     (case l of
        Some (ss, Tr_Running) \<Rightarrow> if ob_trace_id (tst_observation s) = tid then Some (ss @ [s], Tr_Running) else l
      | _ \<Rightarrow> l)"
| "log_step tid l (RecClose now t st) =
     (case l of Some (ss, _) \<Rightarrow> if t = tid then Some (ss, st) else l | None \<Rightarrow> None)"

definition log_of :: "string \<Rightarrow> recorder_op list \<Rightarrow> (trace_step list \<times> trace_status) option" where
  "log_of tid ops = foldl (log_step tid) None ops"

lemma log_of_opened: "log_of tid ops \<noteq> None \<longleftrightarrow> (\<exists>now iid. RecOpen now tid iid \<in> set ops)"
proof (induction ops rule: rev_induct)
  case (snoc op ops)
  then show ?case
    by (cases op) (auto simp: log_of_def split: option.splits trace_status.splits)
qed (simp add: log_of_def)

text \<open>A recorder shows a log when its cache and its store both hold a trace with these steps and this status.\<close>

definition shows_log :: "recorder \<Rightarrow> string \<Rightarrow> (trace_step list \<times> trace_status) option \<Rightarrow> bool" where
  "shows_log r tid l \<longleftrightarrow>
     (case l of
        None \<Rightarrow> rc_open r tid = None \<and> trace_get (rc_store r) tid = Err (NotFound tid)
      | Some (ss, st) \<Rightarrow> \<exists>t. rc_open r tid = Some t \<and> trace_get (rc_store r) tid = Ok t \<and> tr_trace_id t = tid
          \<and> tr_steps t = ss \<and> tr_status t = st \<and> tr_total_cost_usd t = foldl fadd (Fin 0) (map tst_cost_usd ss))"

lemma shows_log_put:
  assumes "shows_log r tid l" "rc_store r' = trace_put (rc_store r) t" "rc_open r' = (rc_open r)(k \<mapsto> t)" "tr_trace_id t = k"
  shows "shows_log r' tid (if k = tid then Some (ss, st) else l) \<longleftrightarrow> k \<noteq> tid \<or>
    tr_steps t = ss \<and> tr_status t = st \<and> tr_total_cost_usd t = foldl fadd (Fin 0) (map tst_cost_usd ss)"
  using assms by (auto simp: shows_log_def trace_store.get_put split: option.splits)

lemma shows_log_offered [simp]: "shows_log (r\<lparr>rc_offered := obs\<rparr>) tid l = shows_log r tid l"
  by (cases l) (auto simp: shows_log_def)

lemma recorder_apply_log:
  assumes "\<And>tid. shows_log r tid (l tid)"
  shows "shows_log (recorder_apply r op) tid (log_step tid (l tid) op)"
proof (cases op)
  case (RecOpen now k iid)
  then show ?thesis
    using shows_log_put[OF assms[of tid], where k = k and r' = "recorder_apply r op" and t = "trace_open now k iid"
        and ss = "[]" and st = Tr_Running]
    by (simp add: recorder_open_def trace_open_def Let_def)
next
  case (RecStep s)
  let ?k = "ob_trace_id (tst_observation s)"
  show ?thesis
  proof (cases "\<exists>ss. l ?k = Some (ss, Tr_Running)")
    case True
    then obtain ss where ss: "l ?k = Some (ss, Tr_Running)" by blast
    with assms[of ?k] obtain t where t: "rc_open r ?k = Some t" "tr_trace_id t = ?k" "tr_steps t = ss" "tr_status t = Tr_Running"
      "tr_total_cost_usd t = foldl fadd (Fin 0) (map tst_cost_usd ss)" by (auto simp: shows_log_def)
    have "log_step tid (l tid) op = (if ?k = tid then Some (ss @ [s], Tr_Running) else l tid)"
      using ss RecStep by (auto split: option.splits trace_status.splits)
    then show ?thesis
      using shows_log_put[OF assms[of tid], where k = ?k and r' = "recorder_apply r op" and t = "trace_record t s"
          and ss = "ss @ [s]" and st = Tr_Running] t RecStep
      by (simp add: record_step_def notify_subscribers_def trace_record_def Let_def)
  next
    case False
    then have "log_step tid (l tid) op = l tid" using RecStep by (auto split: option.splits trace_status.splits)
    moreover have "\<exists>obs. recorder_apply r op = r\<lparr>rc_offered := obs\<rparr>"
      using assms[of ?k] False RecStep
      by (auto simp: shows_log_def record_step_def notify_subscribers_def Let_def split: option.splits)
    ultimately show ?thesis using assms by auto
  qed
next
  case (RecClose now k st)
  show ?thesis
  proof (cases "l k")
    case None
    with assms[of k] have "recorder_apply r op = r" using RecClose by (simp add: shows_log_def recorder_close_def)
    moreover have "log_step tid (l tid) op = l tid" using None RecClose by (auto split: option.splits)
    ultimately show ?thesis using assms by simp
  next
    case (Some p)
    obtain ss st0 where p: "p = (ss, st0)" by fastforce
    with Some assms[of k] obtain t where t: "rc_open r k = Some t" "tr_trace_id t = k" "tr_steps t = ss"
      "tr_total_cost_usd t = foldl fadd (Fin 0) (map tst_cost_usd ss)" by (auto simp: shows_log_def)
    have "log_step tid (l tid) op = (if k = tid then Some (ss, st) else l tid)"
      using Some p RecClose by (auto split: option.splits)
    then show ?thesis
      using shows_log_put[OF assms[of tid], where k = k and r' = "recorder_apply r op" and t = "trace_close now t st"
          and ss = ss and st = st] t RecClose
      by (simp add: recorder_close_def trace_close_def Let_def)
  qed
qed

lemma recorder_after_log: "shows_log (recorder_after ops) tid (log_of tid ops)"
proof (induction ops arbitrary: tid rule: rev_induct)
  case Nil
  show ?case by (simp add: recorder_after_def log_of_def shows_log_def recorder_in_memory_def trace_get_def store_lookup_def)
next
  case (snoc op ops)
  from recorder_apply_log[where l = "\<lambda>tid. log_of tid ops", OF snoc] show ?case by (simp add: recorder_after_def log_of_def)
qed

lemma log_of_steps_named: "log_of tid ops = Some (ss, st) \<Longrightarrow> \<forall>s \<in> set ss. ob_trace_id (tst_observation s) = tid"
proof (induction ops arbitrary: ss st rule: rev_induct)
  case (snoc op ops)
  then show ?case
    by (cases op) (auto simp: log_of_def split: option.splits trace_status.splits if_splits)
qed (simp add: log_of_def)

text \<open>C32. The recorder is a faithful log: after any sequence of opens, steps and closes, an id that was never
  opened is neither in the cache nor in the store; a trace that was opened is served, the same from both, with exactly the steps
  that named it since it was last opened and before it was closed, in order, with the status of that history
  and the running double sum of these steps' costs. A further step is accepted
  exactly when its trace was opened and is running, and otherwise refused with the error that says which.\<close>

theorem recorder_consistent:
  "(case log_of tid ops of
      None \<Rightarrow> (\<nexists>now iid. RecOpen now tid iid \<in> set ops)
        \<and> recorder_get (recorder_after ops) tid = Err (RcStorage (NotFound tid))
        \<and> trace_get (rc_store (recorder_after ops)) tid = Err (NotFound tid)
    | Some (ss, st) \<Rightarrow> (\<exists>now iid. RecOpen now tid iid \<in> set ops) \<and> filter (\<lambda>s. ob_trace_id (tst_observation s) = tid) ss = ss
        \<and> (\<exists>t. recorder_get (recorder_after ops) tid = Ok t \<and> trace_get (rc_store (recorder_after ops)) tid = Ok t
            \<and> tr_trace_id t = tid \<and> tr_steps t = ss \<and> tr_status t = st
            \<and> tr_total_cost_usd t = foldl fadd (Fin 0) (map tst_cost_usd ss)))
   \<and> snd (record_step (recorder_after ops) s) =
       (case log_of (ob_trace_id (tst_observation s)) ops of
          None \<Rightarrow> Err (NotOpened (ob_trace_id (tst_observation s)))
        | Some (_, st) \<Rightarrow> if st = Tr_Running then Ok () else Err AlreadyClosed)"
proof
  note log = recorder_after_log[of ops, unfolded shows_log_def]
  show "case log_of tid ops of
      None \<Rightarrow> (\<nexists>now iid. RecOpen now tid iid \<in> set ops)
        \<and> recorder_get (recorder_after ops) tid = Err (RcStorage (NotFound tid))
        \<and> trace_get (rc_store (recorder_after ops)) tid = Err (NotFound tid)
    | Some (ss, st) \<Rightarrow> (\<exists>now iid. RecOpen now tid iid \<in> set ops) \<and> filter (\<lambda>s. ob_trace_id (tst_observation s) = tid) ss = ss
        \<and> (\<exists>t. recorder_get (recorder_after ops) tid = Ok t \<and> trace_get (rc_store (recorder_after ops)) tid = Ok t
            \<and> tr_trace_id t = tid \<and> tr_steps t = ss \<and> tr_status t = st
            \<and> tr_total_cost_usd t = foldl fadd (Fin 0) (map tst_cost_usd ss))"
    using log[of tid] log_of_opened[of tid ops] log_of_steps_named[of tid ops]
    by (auto simp: recorder_get_def filter_id_conv split: option.splits)
  show "snd (record_step (recorder_after ops) s) =
       (case log_of (ob_trace_id (tst_observation s)) ops of
          None \<Rightarrow> Err (NotOpened (ob_trace_id (tst_observation s)))
        | Some (_, st) \<Rightarrow> if st = Tr_Running then Ok () else Err AlreadyClosed)"
    using log[of "ob_trace_id (tst_observation s)"]
    by (auto simp: record_step_def notify_subscribers_def Let_def split: option.splits)
qed

definition ex_trace_step :: "string \<Rightarrow> f64 \<Rightarrow> trace_step" where
  "ex_trace_step tid cost =
     \<lparr>tst_step = 1, tst_node_id = ''n'', tst_step_type = ''node_run'', tst_model = None, tst_tokens_in = 1,
      tst_tokens_out = 2, tst_cost_usd = cost, tst_duration_ms = 3,
      tst_observation = observation_minimal 0 tid ''n'' 1 ''a'' SO_Success\<rparr>"

theorem recorder_consistent_witness:
  "\<exists>t. recorder_get (recorder_after [RecOpen 0 ''t1'' ''i1'', RecStep (ex_trace_step ''t1'' (Fin 1)),
        RecStep (ex_trace_step ''t2'' (Fin 5)), RecClose 9 ''t1'' Tr_Completed]) ''t1'' = Ok t
     \<and> tr_total_cost_usd t = Fin 1 \<and> tr_status t = Tr_Completed"
  using recorder_consistent[of "''t1''" "[RecOpen 0 ''t1'' ''i1'', RecStep (ex_trace_step ''t1'' (Fin 1)),
        RecStep (ex_trace_step ''t2'' (Fin 5)), RecClose 9 ''t1'' Tr_Completed]"]
  by (auto simp: log_of_def ex_trace_step_def observation_minimal_def)

section \<open>Attribution partitions the cost\<close>

lemma map_of_btree_entry:
  "sorted_wrt (<) (map fst m) \<Longrightarrow>
     map_of (btree_entry k v f m) = (map_of m)(k \<mapsto> f (case map_of m k of None \<Rightarrow> v | Some w \<Rightarrow> w))"
proof (induction k v f m rule: btree_entry.induct)
  case (2 k v f k' v' m)
  have "k < k' \<Longrightarrow> map_of m k = None"
    using "2.prems" by (auto simp: map_of_eq_None_iff dest: less_trans)
  with 2 show ?case by (auto simp: fun_eq_iff)
qed simp

lemma set_btree_entry: "fst ` set (btree_entry k v f m) = insert k (fst ` set m)"
  by (induction k v f m rule: btree_entry.induct) auto

lemma sorted_btree_entry:
  "sorted_wrt (<) (map fst m) \<Longrightarrow> sorted_wrt (<) (map fst (btree_entry k v f m))"
proof (induction k v f m rule: btree_entry.induct)
  case (2 k v f k' v' m)
  have "\<forall>x \<in> fst ` set (btree_entry k v f m). k' < x" if "\<not> k < k'" "k \<noteq> k'"
    unfolding set_btree_entry using that "2.prems" by auto
  with 2 show ?case by auto
qed simp

definition dept_costs :: "cost_attributor \<Rightarrow> string \<Rightarrow> trace_step list \<Rightarrow> f64 list" where
  "dept_costs a d ss = map tst_cost_usd (filter (\<lambda>s. fst (department_of a s) = d) ss)"

lemma attribute_fold:
  "sorted_wrt (<) (map fst (foldl (attribute_step a) [] ss))
   \<and> (\<forall>d. map_option fst (map_of (foldl (attribute_step a) [] ss) d) =
        (if dept_costs a d ss = [] then None else Some (foldl fadd (Fin 0) (dept_costs a d ss))))"
proof (induction ss rule: rev_induct)
  case (snoc s ss)
  let ?m = "foldl (attribute_step a) [] ss"
  obtain d0 r0 where d0: "department_of a s = (d0, r0)" by fastforce
  have st: "foldl (attribute_step a) [] (ss @ [s]) =
      btree_entry d0 (Fin 0, r0) (\<lambda>(c, r). (fadd c (tst_cost_usd s), r)) ?m"
    by (simp add: attribute_step_def d0)
  have m: "map_option fst (map_of ?m d) =
      (if dept_costs a d ss = [] then None else Some (foldl fadd (Fin 0) (dept_costs a d ss)))" for d
    using snoc by blast
  have "map_option fst (map_of (btree_entry d0 (Fin 0, r0) (\<lambda>(c, r). (fadd c (tst_cost_usd s), r)) ?m) d) =
      (if dept_costs a d (ss @ [s]) = [] then None else Some (foldl fadd (Fin 0) (dept_costs a d (ss @ [s]))))" for d
  proof (cases "d = d0")
    case False
    with m[of d] snoc show ?thesis by (simp add: d0 map_of_btree_entry dept_costs_def)
  next
    case True
    with m[of d] snoc show ?thesis
      by (cases "map_of ?m d0")
        (auto simp: d0 map_of_btree_entry dept_costs_def split: if_splits)
  qed
  moreover have "sorted_wrt (<) (map fst (foldl (attribute_step a) [] (ss @ [s])))"
    unfolding st using snoc by (simp add: sorted_btree_entry)
  ultimately show ?case unfolding st by blast
qed (simp add: dept_costs_def)

text \<open>Cost attribution is a partition: the buckets are in strictly ascending order of department,
  a department has a bucket exactly when some step is attributed to it, and the bucket's amount
  is the double sum, in order, of the costs of exactly those steps.\<close>

theorem attribute_partitions:
  "sorted_wrt (<) (map cbk_department (cat_buckets (attribute a t)))
   \<and> {(cbk_department b, cbk_cost_usd b) | b. b \<in> set (cat_buckets (attribute a t))} =
       {(d, foldl fadd (Fin 0) (dept_costs a d (tr_steps t))) | d. dept_costs a d (tr_steps t) \<noteq> []}"
proof -
  let ?m = "foldl (attribute_step a) [] (tr_steps t)"
  have s: "sorted_wrt (<) (map fst ?m)" and
    m: "\<And>d. map_option fst (map_of ?m d) = (if dept_costs a d (tr_steps t) = [] then None
          else Some (foldl fadd (Fin 0) (dept_costs a d (tr_steps t))))"
    using attribute_fold by blast+
  have "distinct (map fst ?m)" using s strict_sorted_iff by blast
  then have "(\<exists>r. (d, c, r) \<in> set ?m) \<longleftrightarrow> map_option fst (map_of ?m d) = Some c" for d c
    by (simp add: map_of_eq_Some_iff)
  then have "(\<exists>r. (d, c, r) \<in> set ?m) \<longleftrightarrow> dept_costs a d (tr_steps t) \<noteq> [] \<and>
      c = foldl fadd (Fin 0) (dept_costs a d (tr_steps t))" for d c
    by (auto simp: m)
  moreover have "(\<exists>b \<in> set (cat_buckets (attribute a t)). cbk_department b = d \<and> cbk_cost_usd b = c)
      \<longleftrightarrow> (\<exists>r. (d, c, r) \<in> set ?m)" for d c
    by (force simp: attribute_def)
  moreover have "map cbk_department (cat_buckets (attribute a t)) = map fst ?m"
    by (auto simp: attribute_def)
  ultimately have e: "(\<exists>b \<in> set (cat_buckets (attribute a t)). cbk_department b = d \<and> cbk_cost_usd b = c)
      \<longleftrightarrow> dept_costs a d (tr_steps t) \<noteq> [] \<and> c = foldl fadd (Fin 0) (dept_costs a d (tr_steps t))"
    and k: "map cbk_department (cat_buckets (attribute a t)) = map fst ?m" for d c
    by simp_all
  show ?thesis unfolding k using s e by (auto simp: set_eq_iff) metis
qed

end
