(* ===== verification/Graph.thy ===== *)
theory Graph
  imports AAF_Prelude
begin

text \<open>
  Execution graphs (\<open>aaf-runtime/src/graph.rs\<close>, \<open>scheduler.rs\<close>): validation by Kahn's algorithm and
  the grouping of a validated graph into parallel levels. The model is generic in the node type.
  A \<open>HashMap\<close> of nodes is an association list with distinct keys whose order stands for the map's
  iteration order. The work-list loop runs on fuel; one unit per node is enough.
\<close>

datatype graph_validation_error = Cycle string | MissingNode string | Empty

type_synonym edge = "string \<times> string"

record 'n graph =
  gr_nodes :: "(string \<times> 'n) list"
  gr_edges :: "edge list"
  gr_order :: "string list"
  gr_compensators :: "(string \<times> 'n) list"

fun missing_endpoint :: "(string \<times> 'n) list \<Rightarrow> edge list \<Rightarrow> string option" where
  "missing_endpoint nodes [] = None"
| "missing_endpoint nodes ((a, b) # es) =
     (if map_of nodes a = None then Some a
      else if map_of nodes b = None then Some b
      else missing_endpoint nodes es)"

definition initial_indegree :: "(string \<times> 'n) list \<Rightarrow> edge list \<Rightarrow> nat hashmap" where
  "initial_indegree nodes edges =
     foldl (\<lambda>m e. m(snd e \<mapsto> (case m (snd e) of None \<Rightarrow> 0 | Some d \<Rightarrow> d) + 1))
       (\<lambda>k. if k \<in> set (map fst nodes) then Some 0 else None) edges"

definition children_of :: "edge list \<Rightarrow> string \<Rightarrow> string list" where
  "children_of edges n = map snd (filter (\<lambda>e. fst e = n) edges)"

text \<open>One pass over the children of a popped node: an in-degree that drops to zero puts the child on
  the work list, which is kept sorted.\<close>

fun relax :: "string list \<Rightarrow> nat hashmap \<Rightarrow> string list \<Rightarrow> nat hashmap \<times> string list" where
  "relax [] indeg queue = (indeg, queue)"
| "relax (c # cs) indeg queue =
     (case indeg c of
        None \<Rightarrow> relax cs indeg queue
      | Some d \<Rightarrow> relax cs (indeg(c \<mapsto> d - 1)) (if d - 1 = 0 then sort (queue @ [c]) else queue))"

fun kahn :: "nat \<Rightarrow> edge list \<Rightarrow> nat hashmap \<Rightarrow> string list \<Rightarrow> string list \<Rightarrow> string list option" where
  "kahn fuel edges indeg [] order = Some order"
| "kahn 0 edges indeg queue order = None"
| "kahn (Suc fuel) edges indeg queue order =
     (let n = last queue; (indeg', queue') = relax (children_of edges n) indeg (butlast queue)
      in kahn fuel edges indeg' queue' (order @ [n]))"

definition topo_order :: "(string \<times> 'n) list \<Rightarrow> edge list \<Rightarrow> string list option" where
  "topo_order nodes edges =
     (let indeg = initial_indegree nodes edges
      in kahn (length nodes) edges indeg (sort (filter (\<lambda>k. indeg k = Some 0) (map fst nodes))) [])"

definition validate_with_compensators ::
  "(string \<times> 'n) list \<Rightarrow> edge list \<Rightarrow> (string \<times> 'n) list \<Rightarrow> ('n graph, graph_validation_error) result option" where
  "validate_with_compensators nodes edges compensators =
     (if nodes = [] then Some (Err Empty)
      else case missing_endpoint nodes edges of
             Some k \<Rightarrow> Some (Err (MissingNode k))
           | None \<Rightarrow>
               (case find (\<lambda>k. map_of nodes k = None) (map fst compensators) of
                  Some k \<Rightarrow> Some (Err (MissingNode (''compensator-for-'' @ k)))
                | None \<Rightarrow>
                    (case topo_order nodes edges of
                       None \<Rightarrow> None
                     | Some order \<Rightarrow>
                         if card (set order) \<noteq> length nodes
                         then Some (Err (Cycle (case find (\<lambda>k. k \<notin> set order) (map fst nodes) of
                                 Some k \<Rightarrow> k | None \<Rightarrow> ''unknown'')))
                         else Some (Ok \<lparr>gr_nodes = nodes, gr_edges = edges, gr_order = order,
                                gr_compensators = compensators\<rparr>))))"

definition graph_validate :: "(string \<times> 'n) list \<Rightarrow> edge list \<Rightarrow> ('n graph, graph_validation_error) result option" where
  "graph_validate nodes edges = validate_with_compensators nodes edges []"

section \<open>Builder\<close>

record 'n graph_builder =
  gb_nodes :: "(string \<times> 'n) list"
  gb_edges :: "edge list"
  gb_compensators :: "(string \<times> 'n) list"

definition builder_new :: "'n graph_builder" where
  "builder_new = \<lparr>gb_nodes = [], gb_edges = [], gb_compensators = []\<rparr>"

definition add_node :: "('n \<Rightarrow> string) \<Rightarrow> 'n graph_builder \<Rightarrow> 'n \<Rightarrow> 'n graph_builder" where
  "add_node node_id b n = b\<lparr>gb_nodes := AList.update (node_id n) n (gb_nodes b)\<rparr>"

definition add_edge :: "'n graph_builder \<Rightarrow> string \<Rightarrow> string \<Rightarrow> 'n graph_builder" where
  "add_edge b src dst = b\<lparr>gb_edges := gb_edges b @ [(src, dst)]\<rparr>"

definition add_compensator :: "'n graph_builder \<Rightarrow> string \<Rightarrow> 'n \<Rightarrow> 'n graph_builder" where
  "add_compensator b for_step n = b\<lparr>gb_compensators := AList.update for_step n (gb_compensators b)\<rparr>"

definition builder_build :: "'n graph_builder \<Rightarrow> ('n graph, graph_validation_error) result option" where
  "builder_build b = validate_with_compensators (gb_nodes b) (gb_edges b) (gb_compensators b)"

section \<open>Parallel levels\<close>

definition level_of :: "edge list \<Rightarrow> nat hashmap \<Rightarrow> string \<Rightarrow> nat" where
  "level_of edges level n =
     foldr max (map (\<lambda>e. (case level (fst e) of None \<Rightarrow> 0 | Some l \<Rightarrow> l) + 1) (filter (\<lambda>e. snd e = n) edges)) 0"

definition levels_map :: "'n graph \<Rightarrow> nat hashmap" where
  "levels_map g = foldl (\<lambda>level n. level(n \<mapsto> level_of (gr_edges g) level n)) Map.empty (gr_order g)"

definition parallel_levels :: "'n graph \<Rightarrow> string list list" where
  "parallel_levels g =
     (let level = levels_map g;
          lv = (\<lambda>n. case level n of None \<Rightarrow> 0 | Some l \<Rightarrow> l);
          keys = remdups (gr_order g);
          max_level = foldr max (map lv keys) 0
      in map (\<lambda>l. sort (filter (\<lambda>n. lv n = l) keys)) [0..<Suc max_level])"

section \<open>Kahn's algorithm is correct\<close>

definition remaining :: "edge list \<Rightarrow> string set \<Rightarrow> string \<Rightarrow> nat" where
  "remaining E V n = length (filter (\<lambda>e. snd e = n \<and> fst e \<notin> V) E)"

definition on_nodes :: "string set \<Rightarrow> (string \<Rightarrow> nat) \<Rightarrow> nat hashmap" where
  "on_nodes N f = (\<lambda>n. if n \<in> N then Some (f n) else None)"

lemma initial_indegree_eq:
  "snd ` set edges \<subseteq> fst ` set nodes \<Longrightarrow>
     initial_indegree nodes edges = on_nodes (fst ` set nodes) (remaining edges {})"
proof (induction edges rule: rev_induct)
  case (snoc e es)
  then show ?case
    by (auto simp: initial_indegree_def on_nodes_def remaining_def fun_eq_iff)
qed (simp add: initial_indegree_def on_nodes_def remaining_def fun_eq_iff)

lemma remaining_insert:
  "n \<notin> V \<Longrightarrow> remaining E V m = remaining E (insert n V) m + count_list (children_of E n) m"
  by (induction E) (auto simp: remaining_def children_of_def)

lemma relax_spec:
  assumes "set cs \<subseteq> N" "\<And>c. count_list cs c \<le> f c" "distinct queue" "set cs \<inter> set queue = {}"
  shows "\<exists>q. relax cs (on_nodes N f) queue = (on_nodes N (\<lambda>n. f n - count_list cs n), q)
    \<and> set q = set queue \<union> {c \<in> set cs. f c = count_list cs c} \<and> distinct q"
  using assms
proof (induction cs arbitrary: f queue)
  case (Cons c cs)
  let ?f = "f(c := f c - 1)" and ?q = "if f c - 1 = 0 then sort (queue @ [c]) else queue"
  have c: "1 \<le> f c" "c \<in> N" "count_list cs c \<le> f c - 1" using Cons.prems(1) Cons.prems(2)[of c] by auto
  have fresh: "f c - 1 = 0 \<Longrightarrow> c \<notin> set cs" using c(3) count_list_0_iff[of cs c] by auto
  have upd: "(on_nodes N f)(c \<mapsto> f c - 1) = on_nodes N ?f" using c by (auto simp: on_nodes_def)
  have "\<exists>q. relax cs (on_nodes N ?f) ?q = (on_nodes N (\<lambda>n. ?f n - count_list cs n), q)
    \<and> set q = set ?q \<union> {c \<in> set cs. ?f c = count_list cs c} \<and> distinct q"
  proof (rule Cons.IH)
    show "count_list cs d \<le> ?f d" for d using c(3) Cons.prems(2)[of d] by (auto split: if_splits)
    show "set cs \<inter> set ?q = {}" "distinct ?q" using Cons.prems fresh by (auto simp: distinct_insort)
  qed (use Cons.prems in auto)
  then obtain q where q: "relax cs (on_nodes N ?f) ?q = (on_nodes N (\<lambda>n. ?f n - count_list cs n), q)"
    "set q = set ?q \<union> {c \<in> set cs. ?f c = count_list cs c}" "distinct q" by blast
  have "set q = set queue \<union> {d \<in> set (c # cs). f d = count_list (c # cs) d}"
    unfolding q(2) using c fresh count_list_0_iff[of cs c] by (auto split: if_splits)
  moreover have "(\<lambda>n. ?f n - count_list cs n) = (\<lambda>n. f n - count_list (c # cs) n)" by auto
  moreover have "on_nodes N f c = Some (f c)" using c by (simp add: on_nodes_def)
  ultimately show ?case using q(1,3) upd by simp
qed auto

definition kahn_inv :: "string set \<Rightarrow> edge list \<Rightarrow> string list \<Rightarrow> string list \<Rightarrow> bool" where
  "kahn_inv N E queue order \<longleftrightarrow> distinct (order @ queue) \<and> set (order @ queue) = {n \<in> N. remaining E (set order) n = 0}
     \<and> (\<forall>i < length order. remaining E (set (take i order)) (order ! i) = 0)"

lemma kahn_step:
  assumes inv: "kahn_inv N E queue order" and q: "queue \<noteq> []" and E: "set E \<subseteq> N \<times> N"
  shows "\<exists>q. relax (children_of E (last queue)) (on_nodes N (remaining E (set order))) (butlast queue)
      = (on_nodes N (remaining E (set (order @ [last queue]))), q) \<and> kahn_inv N E q (order @ [last queue])"
proof -
  let ?n = "last queue" and ?V = "set order" and ?cs = "children_of E (last queue)"
  have qd: "queue = butlast queue @ [?n]" using q by simp
  have n: "?n \<notin> ?V" "?n \<notin> set (butlast queue)" "distinct (butlast queue)" "remaining E ?V ?n = 0"
    and old: "set order \<union> set (butlast queue) \<union> {?n} = {m \<in> N. remaining E ?V m = 0}"
    using inv unfolding kahn_inv_def by (subst (asm) qd, auto)+
  have rem: "remaining E ?V m = remaining E (insert ?n ?V) m + count_list ?cs m" for m
    by (rule remaining_insert[OF n(1)])
  have pos: "m \<in> set ?cs \<Longrightarrow> remaining E ?V m \<noteq> 0" for m
    using rem[of m] count_list_0_iff[of ?cs m] by auto
  have csN: "set ?cs \<subseteq> N" using E by (auto simp: children_of_def)
  have "\<exists>q. relax ?cs (on_nodes N (remaining E ?V)) (butlast queue)
      = (on_nodes N (\<lambda>m. remaining E ?V m - count_list ?cs m), q)
      \<and> set q = set (butlast queue) \<union> {c \<in> set ?cs. remaining E ?V c = count_list ?cs c} \<and> distinct q"
  proof (rule relax_spec[OF csN _ n(3)])
    show "count_list ?cs c \<le> remaining E ?V c" for c using rem[of c] by simp
    show "set ?cs \<inter> set (butlast queue) = {}" using old pos by blast
  qed
  then obtain q where q: "relax ?cs (on_nodes N (remaining E ?V)) (butlast queue)
      = (on_nodes N (\<lambda>m. remaining E ?V m - count_list ?cs m), q)"
    "set q = set (butlast queue) \<union> {c \<in> set ?cs. remaining E ?V c = count_list ?cs c}" "distinct q" by blast
  have diff: "(\<lambda>m. remaining E ?V m - count_list ?cs m) = remaining E (set (order @ [?n]))"
    using rem by (auto simp: fun_eq_iff)
  have new: "set order \<union> {?n} \<union> set q = {m \<in> N. remaining E (insert ?n ?V) m = 0}"
  proof -
    have "m \<in> set ?cs \<and> remaining E ?V m = count_list ?cs m \<longleftrightarrow> remaining E ?V m \<noteq> 0 \<and> remaining E (insert ?n ?V) m = 0" for m
      using rem[of m] count_list_0_iff[of ?cs m] by auto
    then show ?thesis unfolding q(2) using old csN rem by auto
  qed
  have disj: "set (order @ [?n]) \<inter> set q = {}"
  proof -
    have "set order \<inter> set (butlast queue) = {}"
      using inv in_set_butlastD[of _ queue] by (auto simp: kahn_inv_def)
    moreover have z: "remaining E ?V m = 0" if "m \<in> set order \<union> {?n}" for m
    proof -
      have "m \<in> {m \<in> N. remaining E ?V m = 0}" unfolding old[symmetric] using that by blast
      then show ?thesis by simp
    qed
    moreover have "c \<notin> set order \<union> {?n}" if "c \<in> set ?cs" for c
      using pos[OF that] z[of c] by (rule contrapos_nn)
    ultimately show ?thesis unfolding q(2) using n(2) by auto
  qed
  have topo: "\<forall>i < length (order @ [?n]). remaining E (set (take i (order @ [?n]))) ((order @ [?n]) ! i) = 0"
    using inv n(4) by (auto simp: kahn_inv_def nth_append less_Suc_eq)
  have "kahn_inv N E q (order @ [?n])"
    unfolding kahn_inv_def using inv n(1) q(3) disj new topo by (auto simp: kahn_inv_def)
  with q(1) diff show ?thesis by auto
qed

lemma kahn_pop:
  "queue \<noteq> [] \<Longrightarrow> relax (children_of E (last queue)) indeg (butlast queue) = (indeg', q) \<Longrightarrow>
     kahn (Suc fuel) E indeg queue order = kahn fuel E indeg' q (order @ [last queue])"
  by (cases queue) (simp_all only: kahn.simps Let_def prod.case list.distinct not_False_eq_True)

lemma kahn_runs:
  assumes "kahn_inv N E queue order" "set E \<subseteq> N \<times> N" "finite N" "card N \<le> length order + fuel"
  shows "\<exists>order'. kahn fuel E (on_nodes N (remaining E (set order))) queue order = Some order' \<and> kahn_inv N E [] order'"
  using assms(1,4)
proof (induction fuel arbitrary: queue order)
  case 0
  have "card (set (order @ queue)) \<le> card N"
    using 0 assms(3) by (intro card_mono) (auto simp: kahn_inv_def)
  moreover have "card (set (order @ queue)) = length (order @ queue)"
    using 0 by (intro distinct_card) (simp add: kahn_inv_def)
  ultimately have "length queue \<le> 0" using 0(2) unfolding length_append by linarith
  then have "queue = []" by simp
  with 0 show ?case by simp
next
  case (Suc fuel)
  show ?case
  proof (cases "queue = []")
    case True
    with Suc show ?thesis by simp
  next
    case False
    from kahn_step[OF Suc.prems(1) False assms(2)] obtain q where q:
      "relax (children_of E (last queue)) (on_nodes N (remaining E (set order))) (butlast queue)
        = (on_nodes N (remaining E (set (order @ [last queue]))), q)"
      "kahn_inv N E q (order @ [last queue])" by blast
    have "card N \<le> length (order @ [last queue]) + fuel" using Suc.prems(2) by simp
    from Suc.IH[OF q(2) this] show ?thesis unfolding kahn_pop[OF False q(1)] .
  qed
qed

lemma topo_order_spec:
  assumes "distinct (map fst nodes)" "set edges \<subseteq> fst ` set nodes \<times> fst ` set nodes"
  shows "\<exists>order. topo_order nodes edges = Some order \<and> kahn_inv (fst ` set nodes) edges [] order"
proof -
  let ?N = "fst ` set nodes"
  have i: "initial_indegree nodes edges = on_nodes ?N (remaining edges {})"
    using assms(2) by (intro initial_indegree_eq) auto
  have "kahn_inv ?N edges (sort (filter (\<lambda>k. on_nodes ?N (remaining edges {}) k = Some 0) (map fst nodes))) []"
    using assms(1) by (auto simp: kahn_inv_def on_nodes_def)
  moreover have "card ?N \<le> length nodes" using card_length[of "map fst nodes"] by simp
  ultimately show ?thesis
    using kahn_runs[of ?N edges _ "[]" "length nodes"] assms(2) by (simp add: topo_order_def i Let_def)
qed

lemma missing_endpoint_None_iff:
  "missing_endpoint nodes edges = None \<longleftrightarrow> set edges \<subseteq> fst ` set nodes \<times> fst ` set nodes"
  by (induction nodes edges rule: missing_endpoint.induct) (auto simp: map_of_eq_None_iff)

lemma kahn_inv_before:
  assumes "kahn_inv N E [] order" "(a, b) \<in> set E" "b \<in> set order"
  shows "\<exists>xs ys zs. order = xs @ a # ys @ b # zs"
proof -
  from assms(3) obtain i where i: "i < length order" "order ! i = b" by (auto simp: in_set_conv_nth)
  with assms(1) have "remaining E (set (take i order)) b = 0" by (auto simp: kahn_inv_def)
  with assms(2) have "a \<in> set (take i order)" by (auto simp: remaining_def filter_empty_conv)
  then obtain xs ys where "take i order = xs @ a # ys" by (meson split_list)
  then have "order = xs @ a # ys @ b # drop (Suc i) order"
    using i id_take_nth_drop[of i order] by simp
  then show ?thesis by blast
qed

lemma before_acyclic:
  assumes "distinct order" "\<And>a b. (a, b) \<in> set E \<Longrightarrow> \<exists>xs ys zs. order = xs @ a # ys @ b # zs"
  shows "acyclic (set E)"
proof -
  define pos where "pos x = (THE i. i < length order \<and> order ! i = x)" for x
  have pos: "i < length order \<Longrightarrow> pos (order ! i) = i" for i
    unfolding pos_def using assms(1) by (intro the_equality) (auto simp: nth_eq_iff_index_eq)
  have "pos a < pos b" if "(a, b) \<in> set E" for a b
  proof -
    from assms(2)[OF that] obtain xs ys zs where o: "order = xs @ a # ys @ b # zs" by blast
    have "pos (order ! length xs) = length xs" "pos (order ! (length xs + 1 + length ys)) = length xs + 1 + length ys"
      by (intro pos; simp add: o)+
    then show ?thesis by (simp add: o nth_append)
  qed
  then have "set E \<subseteq> measure pos" by auto
  then show ?thesis by (rule acyclic_subset[OF wf_acyclic[OF wf_measure]])
qed

lemma kahn_inv_complete:
  assumes "kahn_inv N E [] order" "acyclic (set E)" "set E \<subseteq> N \<times> N"
  shows "set order = N"
proof (rule ccontr)
  assume "set order \<noteq> N"
  then obtain x where "x \<in> N - set order" using assms(1) by (auto simp: kahn_inv_def)
  moreover have "wf (set E)" using assms(2) by (intro finite_acyclic_wf) auto
  ultimately obtain m where m: "m \<in> N - set order" "\<And>y. (y, m) \<in> set E \<Longrightarrow> y \<notin> N - set order"
    by (meson wfE_min)
  then have "remaining E (set order) m = 0"
    using assms(3) by (auto simp: remaining_def filter_empty_conv)
  with m(1) assms(1) show False by (auto simp: kahn_inv_def)
qed

lemma validate_unfold:
  assumes "distinct (map fst nodes)"
  shows "\<exists>r. validate_with_compensators nodes edges comps = Some r \<and>
    (case r of
       Inl e \<Rightarrow> \<not> (nodes \<noteq> [] \<and> set edges \<subseteq> fst ` set nodes \<times> fst ` set nodes
                  \<and> fst ` set comps \<subseteq> fst ` set nodes \<and> acyclic (set edges))
     | Inr g \<Rightarrow> nodes \<noteq> [] \<and> set edges \<subseteq> fst ` set nodes \<times> fst ` set nodes \<and> fst ` set comps \<subseteq> fst ` set nodes
         \<and> kahn_inv (fst ` set nodes) edges [] (gr_order g) \<and> set (gr_order g) = fst ` set nodes
         \<and> gr_nodes g = nodes \<and> gr_edges g = edges \<and> gr_compensators g = comps)"
proof (cases "nodes \<noteq> [] \<and> set edges \<subseteq> fst ` set nodes \<times> fst ` set nodes \<and> fst ` set comps \<subseteq> fst ` set nodes")
  case False
  then show ?thesis
    by (auto simp: validate_with_compensators_def missing_endpoint_None_iff map_of_eq_None_iff find_None_iff
        split: option.splits)
next
  case True
  then have me: "missing_endpoint nodes edges = None"
    and fc: "find (\<lambda>k. map_of nodes k = None) (map fst comps) = None"
    by (auto simp: missing_endpoint_None_iff find_None_iff map_of_eq_None_iff)
  from True have "set edges \<subseteq> fst ` set nodes \<times> fst ` set nodes" by simp
  from topo_order_spec[OF assms this] obtain order where
    o: "topo_order nodes edges = Some order" "kahn_inv (fst ` set nodes) edges [] order" by (elim exE conjE)
  have card: "card (fst ` set nodes) = length nodes" using assms by (metis distinct_card length_map set_map)
  have sub: "set order \<subseteq> fst ` set nodes" using o(2) by (auto simp: kahn_inv_def)
  have eq: "card (set order) = length nodes \<longleftrightarrow> set order = fst ` set nodes"
    using card sub by (metis card_subset_eq finite_imageI finite_set)
  show ?thesis using True me fc o eq kahn_inv_complete[OF o(2)]
    by (auto simp: validate_with_compensators_def)
qed

text \<open>C8. Graph validation decides acyclicity and yields an execution order: for a map of nodes the
  work-list loop always ends, validation succeeds exactly when there is at least one node, every
  edge and every compensator names an existing node and the edges have no cycle, and then the
  order lists every node exactly once with the source of every edge before its target.\<close>

theorem graph_validation_correct:
  assumes "distinct (map fst nodes)"
  shows "\<exists>r. validate_with_compensators nodes edges comps = Some r
    \<and> (is_ok r \<longleftrightarrow> nodes \<noteq> [] \<and> set edges \<subseteq> fst ` set nodes \<times> fst ` set nodes
         \<and> fst ` set comps \<subseteq> fst ` set nodes \<and> acyclic (set edges))
    \<and> (\<forall>g. r = Ok g \<longrightarrow> distinct (gr_order g) \<and> set (gr_order g) = fst ` set nodes
         \<and> (\<forall>(a, b) \<in> set edges. \<exists>xs ys zs. gr_order g = xs @ a # ys @ b # zs))"
proof -
  from validate_unfold[OF assms, of edges comps] obtain r where
    r: "validate_with_compensators nodes edges comps = Some r" and
    c: "case r of
       Inl e \<Rightarrow> \<not> (nodes \<noteq> [] \<and> set edges \<subseteq> fst ` set nodes \<times> fst ` set nodes
                  \<and> fst ` set comps \<subseteq> fst ` set nodes \<and> acyclic (set edges))
     | Inr g \<Rightarrow> nodes \<noteq> [] \<and> set edges \<subseteq> fst ` set nodes \<times> fst ` set nodes \<and> fst ` set comps \<subseteq> fst ` set nodes
         \<and> kahn_inv (fst ` set nodes) edges [] (gr_order g) \<and> set (gr_order g) = fst ` set nodes
         \<and> gr_nodes g = nodes \<and> gr_edges g = edges \<and> gr_compensators g = comps" by blast
  show ?thesis
  proof (cases r)
    case (Inl e)
    with r c show ?thesis by auto
  next
    case (Inr g)
    with c have k: "kahn_inv (fst ` set nodes) edges [] (gr_order g)" and s: "set (gr_order g) = fst ` set nodes"
      and ok: "nodes \<noteq> []" "set edges \<subseteq> fst ` set nodes \<times> fst ` set nodes" "fst ` set comps \<subseteq> fst ` set nodes" by auto
    have d: "distinct (gr_order g)" using k by (simp add: kahn_inv_def)
    have b: "\<exists>xs ys zs. gr_order g = xs @ a # ys @ b # zs" if "(a, b) \<in> set edges" for a b
      using kahn_inv_before[OF k that] that ok(2) unfolding s by blast
    have "acyclic (set edges)" by (rule before_acyclic[OF d b])
    with r Inr ok d s b show ?thesis by auto
  qed
qed

theorem graph_validation_correct_witness:
  "\<exists>g. validate_with_compensators [(''a'', ()), (''b'', ()), (''c'', ())] [(''a'', ''b''), (''c'', ''a'')] [] = Some (Ok g)
     \<and> gr_order g = [''c'', ''a'', ''b'']
     \<and> (\<exists>xs ys zs. gr_order g = xs @ ''c'' # ys @ ''a'' # zs)"
proof -
  let ?v = "validate_with_compensators [(''a'', ()), (''b'', ()), (''c'', ())] [(''a'', ''b''), (''c'', ''a'')] []"
  have "?v = Some (Ok \<lparr>gr_nodes = [(''a'', ()), (''b'', ()), (''c'', ())], gr_edges = [(''a'', ''b''), (''c'', ''a'')],
      gr_order = [''c'', ''a'', ''b''], gr_compensators = []\<rparr>)" by code_simp
  with graph_validation_correct[of "[(''a'', ()), (''b'', ()), (''c'', ())]" "[(''a'', ''b''), (''c'', ''a'')]" "[]"]
  show ?thesis by auto
qed

section \<open>Levels\<close>

lemma foldr_max_ge: "x \<in> set xs \<Longrightarrow> x \<le> foldr max xs (0::nat)"
  by (induction xs) auto

definition lm :: "edge list \<Rightarrow> string list \<Rightarrow> nat hashmap" where
  "lm E xs = foldl (\<lambda>level n. level(n \<mapsto> level_of E level n)) Map.empty xs"

lemma lm_snoc: "lm E (xs @ [n]) = (lm E xs)(n \<mapsto> level_of E (lm E xs) n)"
  by (simp add: lm_def)

lemma dom_lm: "dom (lm E xs) = set xs"
  by (induction xs rule: rev_induct) (simp add: lm_def, simp add: lm_snoc del: fun_upd_apply)

lemma level_of_gt: "(a, n) \<in> set E \<Longrightarrow> level a = Some l \<Longrightarrow> l < level_of E level n"
  unfolding level_of_def using foldr_max_ge[of "l + 1"] by (force simp: Suc_le_eq)

lemma lm_edge:
  assumes "distinct xs" "\<And>i a. i < length xs \<Longrightarrow> (a, xs ! i) \<in> set E \<Longrightarrow> a \<in> set (take i xs)"
    and "(a, b) \<in> set E" "b \<in> set xs"
  shows "\<exists>la lb. lm E xs a = Some la \<and> lm E xs b = Some lb \<and> la < lb"
  using assms
proof (induction xs arbitrary: b rule: rev_induct)
  case (snoc n xs)
  have pre: "\<And>i a. i < length xs \<Longrightarrow> (a, xs ! i) \<in> set E \<Longrightarrow> a \<in> set (take i xs)"
    using snoc.prems(2) by (metis append_Nil2 diff_is_0_eq length_append_singleton less_Suc_eq less_imp_le nth_append take0 take_append)
  show ?case
  proof (cases "b = n")
    case True
    with snoc.prems(2)[of "length xs" a] snoc.prems(3) have a: "a \<in> set xs" by simp
    then obtain l where "lm E xs a = Some l" using dom_lm[of E xs] by blast
    with a snoc.prems(1,3) True level_of_gt[of a n E "lm E xs" l] show ?thesis by (auto simp: lm_snoc)
  next
    case False
    with snoc.prems(4) have b: "b \<in> set xs" by simp
    with snoc.prems(1,2,3) have "a \<in> set xs"
      using pre by (metis in_set_conv_nth in_set_takeD)
    with snoc.prems(1) False snoc.IH[OF _ pre snoc.prems(3) b] show ?thesis by (auto simp: lm_snoc)
  qed
qed simp

lemma mset_concat_buckets:
  "(\<And>x. x \<in> set xs \<Longrightarrow> f x < n) \<Longrightarrow> mset (concat (map (\<lambda>l. sort (filter (\<lambda>x. f x = l) xs)) [0..<n])) = mset xs"
proof (induction n arbitrary: xs)
  case (Suc n)
  have "mset (concat (map (\<lambda>l. sort (filter (\<lambda>x. f x = l) xs)) [0..<n])) =
      mset (concat (map (\<lambda>l. sort (filter (\<lambda>x. f x = l) (filter (\<lambda>x. f x < n) xs))) [0..<n]))"
    by (intro arg_cong[where f = mset] arg_cong[where f = concat] map_cong refl arg_cong[where f = sort])
      (auto intro!: filter_cong)
  also have "\<dots> = mset (filter (\<lambda>x. f x < n) xs)" by (rule Suc.IH) simp
  also have "\<dots> + mset (filter (\<lambda>x. f x = n) xs) = mset xs"
    using Suc.prems by (induction xs) (auto simp: less_Suc_eq)
  finally show ?case by simp
next
  case 0
  then have "xs = []" by (cases xs) auto
  then show ?case by simp
qed

text \<open>C21. The levels of a validated graph are a sound parallel schedule: together they hold every
  node exactly once, and every edge leads from a level to a strictly later one, so the nodes of
  one level never depend on each other.\<close>

theorem parallel_levels_sound:
  assumes "distinct (map fst nodes)" "validate_with_compensators nodes edges comps = Some (Ok g)"
  shows "mset (concat (parallel_levels g)) = mset (map fst nodes)
    \<and> (\<forall>(a, b) \<in> set edges. \<exists>i j. i < j \<and> j < length (parallel_levels g)
         \<and> a \<in> set (parallel_levels g ! i) \<and> b \<in> set (parallel_levels g ! j))"
proof -
  from validate_unfold[OF assms(1), of edges comps] assms(2)
  have k: "kahn_inv (fst ` set nodes) edges [] (gr_order g)" and s: "set (gr_order g) = fst ` set nodes"
    and e: "gr_edges g = edges" "set edges \<subseteq> fst ` set nodes \<times> fst ` set nodes" by auto
  have d: "distinct (gr_order g)" using k by (simp add: kahn_inv_def)
  define lv where "lv n = (case lm edges (gr_order g) n of None \<Rightarrow> 0 | Some l \<Rightarrow> l)" for n
  define top where "top = foldr max (map lv (gr_order g)) 0"
  have pl: "parallel_levels g = map (\<lambda>l. sort (filter (\<lambda>n. lv n = l) (gr_order g))) [0..<Suc top]"
    using d by (simp add: parallel_levels_def levels_map_def lm_def lv_def[abs_def] top_def e Let_def distinct_remdups_id)
  have bound: "n \<in> set (gr_order g) \<Longrightarrow> lv n < Suc top" for n
    unfolding top_def using foldr_max_ge[of "lv n" "map lv (gr_order g)"] by simp
  have "mset (concat (parallel_levels g)) = mset (gr_order g)"
    unfolding pl by (rule mset_concat_buckets) (rule bound)
  also have "\<dots> = mset (map fst nodes)" using d s assms(1) by (metis set_eq_iff_mset_eq_distinct set_map)
  finally have part: "mset (concat (parallel_levels g)) = mset (map fst nodes)" .
  have "\<exists>i j. i < j \<and> j < length (parallel_levels g) \<and> a \<in> set (parallel_levels g ! i) \<and> b \<in> set (parallel_levels g ! j)"
    if ab: "(a, b) \<in> set edges" for a b
  proof -
    have in_order: "a \<in> set (gr_order g)" "b \<in> set (gr_order g)" using ab e(2) s by auto
    have "a \<in> set (take i (gr_order g))" if "i < length (gr_order g)" "(a, gr_order g ! i) \<in> set edges" for i a
    proof -
      have "remaining edges (set (take i (gr_order g))) (gr_order g ! i) = 0"
        using k that(1) by (simp add: kahn_inv_def)
      with that(2) show ?thesis by (auto simp: remaining_def filter_empty_conv)
    qed
    from lm_edge[OF d this ab in_order(2)] have "lv a < lv b" by (auto simp: lv_def)
    moreover have "lv b < Suc top" "lv a < Suc top" using bound in_order by auto
    moreover have "parallel_levels g ! l = sort (filter (\<lambda>n. lv n = l) (gr_order g))" if "l < Suc top" for l
      unfolding pl using that by (simp del: upt_Suc)
    moreover have "length (parallel_levels g) = Suc top" by (simp add: pl)
    ultimately show ?thesis using in_order by (intro exI[of _ "lv a"] exI[of _ "lv b"]) simp
  qed
  with part show ?thesis by auto
qed

theorem parallel_levels_sound_witness:
  "\<exists>g. validate_with_compensators [(''a'', ()), (''b'', ()), (''c'', ())] [(''a'', ''b''), (''a'', ''c'')] [] = Some (Ok g)
     \<and> parallel_levels g = [[''a''], [''b'', ''c'']]
     \<and> mset (concat (parallel_levels g)) = {# ''a'', ''b'', ''c'' #}"
proof -
  let ?g = "\<lparr>gr_nodes = [(''a'', ()), (''b'', ()), (''c'', ())], gr_edges = [(''a'', ''b''), (''a'', ''c'')],
      gr_order = [''a'', ''c'', ''b''], gr_compensators = []\<rparr>"
  have "validate_with_compensators [(''a'', ()), (''b'', ()), (''c'', ())] [(''a'', ''b''), (''a'', ''c'')] [] = Some (Ok ?g)"
    by code_simp
  moreover have "parallel_levels ?g = [[''a''], [''b'', ''c'']]" by code_simp
  ultimately show ?thesis
    using parallel_levels_sound[of "[(''a'', ()), (''b'', ()), (''c'', ())]" "[(''a'', ''b''), (''a'', ''c'')]" "[]" ?g]
    by (intro exI[of _ ?g]) simp
qed

end
