(* ===== verification/LLM.thy ===== *)
theory LLM
  imports Contracts
begin

text \<open>
  The language-model layer (\<open>aaf-llm\<close>): messages, requests and responses, the call budget, pricing,
  value-based routing and the two mock providers. A provider may have effects: it is a function on
  a world the model leaves open. The HTTP provider is such a
  function too; theory Anthropic defines it.
\<close>

datatype role = R_System | R_User | R_Assistant | R_ToolUse | R_ToolResult

record chat_message =
  cm_role :: role
  cm_content :: string
  cm_tool_use :: "tool_use_block option"
  cm_tool_result :: "tool_result_block option"

definition msg_system :: "string \<Rightarrow> chat_message" where
  "msg_system c = \<lparr>cm_role = R_System, cm_content = c, cm_tool_use = None, cm_tool_result = None\<rparr>"

definition msg_user :: "string \<Rightarrow> chat_message" where
  "msg_user c = \<lparr>cm_role = R_User, cm_content = c, cm_tool_use = None, cm_tool_result = None\<rparr>"

definition msg_assistant :: "string \<Rightarrow> chat_message" where
  "msg_assistant c = \<lparr>cm_role = R_Assistant, cm_content = c, cm_tool_use = None, cm_tool_result = None\<rparr>"

definition tool_use_msg :: "tool_use_block \<Rightarrow> chat_message" where
  "tool_use_msg b = \<lparr>cm_role = R_ToolUse, cm_content = [], cm_tool_use = Some b, cm_tool_result = None\<rparr>"

definition tool_result_msg :: "tool_result_block \<Rightarrow> chat_message" where
  "tool_result_msg b =
     \<lparr>cm_role = R_ToolResult, cm_content = trb_content b, cm_tool_use = None, cm_tool_result = Some b\<rparr>"

record chat_request =
  crq_model :: string
  crq_temperature :: f32
  crq_max_output_tokens :: u32
  crq_messages :: "chat_message list"
  crq_tools :: "tool_definition list"
  crq_tool_choice :: tool_choice

record chat_response =
  crs_content :: string
  crs_tokens_in :: u32
  crs_tokens_out :: u32
  crs_cost_usd :: f64
  crs_model :: string
  crs_stop_reason :: stop_reason
  crs_tool_use :: "tool_use_block option"

record provider_metrics =
  pm_model :: string
  pm_input_tokens :: u32
  pm_output_tokens :: u32
  pm_cost_usd :: f64
  pm_latency_ms :: u64
  pm_provider_name :: string
  pm_stop_reason :: stop_reason

definition metrics_from_response :: "chat_response \<Rightarrow> u64 \<Rightarrow> string \<Rightarrow> provider_metrics" where
  "metrics_from_response r latency name =
     \<lparr>pm_model = crs_model r, pm_input_tokens = crs_tokens_in r, pm_output_tokens = crs_tokens_out r,
      pm_cost_usd = crs_cost_usd r, pm_latency_ms = latency, pm_provider_name = name,
      pm_stop_reason = crs_stop_reason r\<rparr>"

datatype llm_error =
    LE_Provider string | LE_BudgetExceeded | LE_RateLimited u64 | LE_InvalidRequest string
  | LE_AuthError string | LE_Timeout

text \<open>A provider's \<open>chat\<close>, as a function on the world it acts on.\<close>

type_synonym 'w llm_provider = "'w \<Rightarrow> chat_request \<Rightarrow> 'w \<times> (chat_response, llm_error) result"

section \<open>Call budget\<close>

datatype call_budget_error = CB_Exhausted | CB_Provider llm_error

definition call_budget_call ::
  "'w llm_provider \<Rightarrow> 'w \<Rightarrow> budget_contract \<Rightarrow> chat_request
     \<Rightarrow> 'w \<times> budget_contract \<times> (chat_response, call_budget_error) result" where
  "call_budget_call chat w remaining req =
     (if max_tokens remaining = 0 \<or> fle (max_cost_usd remaining) (Fin 0)
      then (w, remaining, Err CB_Exhausted)
      else case chat w req of
             (w', Inl e) \<Rightarrow> (w', remaining, Err (CB_Provider e))
           | (w', Inr resp) \<Rightarrow>
               let used_tokens = ucast (crs_tokens_in resp) + ucast (crs_tokens_out resp)
               in (w', remaining\<lparr>max_tokens := saturating_sub (max_tokens remaining) used_tokens,
                          max_cost_usd := fmax (fsub (max_cost_usd remaining) (crs_cost_usd resp)) (Fin 0)\<rparr>,
                   Ok resp))"

section \<open>Pricing\<close>

record model_pricing =
  mpr_model_prefix :: string
  mpr_input_per_mtok :: f64
  mpr_output_per_mtok :: f64

definition calculate_cost :: "model_pricing list \<Rightarrow> string \<Rightarrow> u32 \<Rightarrow> u32 \<Rightarrow> f64" where
  "calculate_cost table model input_tokens output_tokens =
     (case find (\<lambda>p. starts_with model (mpr_model_prefix p)) table of
        Some p \<Rightarrow>
          fdiv (fadd (fmul (f64_of_nat (unat input_tokens)) (mpr_input_per_mtok p))
                     (fmul (f64_of_nat (unat output_tokens)) (mpr_output_per_mtok p)))
               (Fin 1000000)
      | None \<Rightarrow> Fin 0)"

definition mk_pricing :: "string \<Rightarrow> rat \<Rightarrow> rat \<Rightarrow> model_pricing" where
  "mk_pricing p i out = \<lparr>mpr_model_prefix = p, mpr_input_per_mtok = to_f64 i, mpr_output_per_mtok = to_f64 out\<rparr>"

definition anthropic_pricing :: "model_pricing list" where
  "anthropic_pricing =
     [mk_pricing ''claude-opus-4'' 15 75, mk_pricing ''claude-sonnet-4'' 3 15,
      mk_pricing ''claude-haiku-4'' (4 / 5) 4, mk_pricing ''claude-3-5-sonnet'' 3 15,
      mk_pricing ''claude-3-5-haiku'' (4 / 5) 4, mk_pricing ''claude-3-opus'' 15 75]"

section \<open>Routing\<close>

datatype routing_tier = TierHigh | TierStandard | TierLow

definition default_choose :: "intent_envelope \<Rightarrow> routing_tier" where
  "default_choose i =
     (case int_risk_tier i of
        RT_Governance \<Rightarrow> TierHigh
      | RT_Write \<Rightarrow> TierStandard
      | RT_Delegation \<Rightarrow> TierStandard
      | RT_Read \<Rightarrow> TierLow
      | RT_Advisory \<Rightarrow> TierLow)"

fun debug_intent_type :: "intent_type \<Rightarrow> string" where
  "debug_intent_type TransactionalIntent = ''TransactionalIntent''"
| "debug_intent_type AnalyticalIntent = ''AnalyticalIntent''"
| "debug_intent_type PlanningIntent = ''PlanningIntent''"
| "debug_intent_type DelegationIntent = ''DelegationIntent''"
| "debug_intent_type GovernanceIntent = ''GovernanceIntent''"

fun debug_risk_tier :: "risk_tier \<Rightarrow> string" where
  "debug_risk_tier RT_Read = ''Read''"
| "debug_risk_tier RT_Write = ''Write''"
| "debug_risk_tier RT_Advisory = ''Advisory''"
| "debug_risk_tier RT_Delegation = ''Delegation''"
| "debug_risk_tier RT_Governance = ''Governance''"

type_synonym learned_routing_policy = "(string \<times> string) \<rightharpoonup> routing_tier"

definition learned_set :: "learned_routing_policy \<Rightarrow> string \<Rightarrow> string \<Rightarrow> routing_tier \<Rightarrow> learned_routing_policy" where
  "learned_set p ity rt tier = p((ity, rt) \<mapsto> tier)"

definition learned_choose :: "learned_routing_policy \<Rightarrow> intent_envelope \<Rightarrow> routing_tier" where
  "learned_choose p i =
     (case p (debug_intent_type (int_type i), debug_risk_tier (int_risk_tier i)) of
        Some tier \<Rightarrow> tier
      | None \<Rightarrow> default_choose i)"

record 'p value_router =
  vr_providers :: "(routing_tier \<times> 'p) list"
  vr_policy :: "intent_envelope \<Rightarrow> routing_tier"

definition value_router_new :: "'p value_router" where
  "value_router_new = \<lparr>vr_providers = [], vr_policy = default_choose\<rparr>"

definition router_with_policy :: "'p value_router \<Rightarrow> (intent_envelope \<Rightarrow> routing_tier) \<Rightarrow> 'p value_router" where
  "router_with_policy r p = r\<lparr>vr_policy := p\<rparr>"

definition router_register :: "'p value_router \<Rightarrow> routing_tier \<Rightarrow> 'p \<Rightarrow> 'p value_router" where
  "router_register r tier p = r\<lparr>vr_providers := AList.update tier p (vr_providers r)\<rparr>"

definition router_choose :: "'p value_router \<Rightarrow> routing_tier \<Rightarrow> 'p option" where
  "router_choose r tier =
     (case map_of (vr_providers r) tier of
        Some p \<Rightarrow> Some p
      | None \<Rightarrow>
          (case map_of (vr_providers r) TierStandard of
             Some p \<Rightarrow> Some p
           | None \<Rightarrow> (case vr_providers r of [] \<Rightarrow> None | (t, p) # _ \<Rightarrow> Some p)))"

definition choose_for_intent :: "'p value_router \<Rightarrow> intent_envelope \<Rightarrow> 'p option" where
  "choose_for_intent r i = router_choose r (vr_policy r i)"

section \<open>Mock providers\<close>

definition last_user :: "chat_message list \<Rightarrow> string" where
  "last_user ms = (case find (\<lambda>m. cm_role m = R_User) (rev ms) of Some m \<Rightarrow> cm_content m | None \<Rightarrow> [])"

definition mock_tokens :: "string \<Rightarrow> u32" where
  "mock_tokens s = of_nat (length s div 4 + 1)"

definition mock_tokens_in :: "chat_message list \<Rightarrow> u32" where
  "mock_tokens_in ms = sum_list (map (\<lambda>m. mock_tokens (cm_content m)) ms)"

definition mock_cost :: "f64 \<Rightarrow> u32 \<Rightarrow> u32 \<Rightarrow> f64" where
  "mock_cost per_1k tin tout = fmul per_1k (fdiv (f64_of_nat (unat (tin + tout))) (Fin 1000))"

definition mock_chat :: "string \<Rightarrow> f64 \<Rightarrow> 'w llm_provider" where
  "mock_chat name per_1k w req =
     (let user = last_user (crq_messages req);
          tin = mock_tokens_in (crq_messages req);
          tout = mock_tokens user;
          resp = \<lparr>crs_content = ''[mock:'' @ name @ ''] '' @ user, crs_tokens_in = tin, crs_tokens_out = tout,
                  crs_cost_usd = mock_cost per_1k tin tout, crs_model = crq_model req,
                  crs_stop_reason = EndTurn, crs_tool_use = None\<rparr>
      in case crq_tools req of
           t # _ \<Rightarrow> (w, Ok (resp\<lparr>crs_content := [], crs_stop_reason := ToolUse,
                      crs_tool_use := Some \<lparr>tu_id = ''mock-tc-1'', tu_name = td_name t, tu_input = JObject []\<rparr>\<rparr>))
         | [] \<Rightarrow> (w, Ok resp))"

text \<open>The multi-turn mock counts its calls; the count is its world.\<close>

definition multi_turn_chat :: "string \<Rightarrow> f64 \<Rightarrow> u32 \<Rightarrow> u32 llm_provider" where
  "multi_turn_chat name per_1k calls_before_end cnt req =
     (let current = cnt + 1;
          tin = mock_tokens_in (crq_messages req);
          tout = mock_tokens (last_user (crq_messages req));
          resp = \<lparr>crs_content = ''[mock:'' @ name @ ''] final answer after '' @ show_nat (unat current) @ '' calls'',
                  crs_tokens_in = tin, crs_tokens_out = tout, crs_cost_usd = mock_cost per_1k tin tout,
                  crs_model = crq_model req, crs_stop_reason = EndTurn, crs_tool_use = None\<rparr>
      in if crq_tools req \<noteq> [] \<and> current \<le> calls_before_end
         then (current, Ok (resp\<lparr>crs_content := [], crs_stop_reason := ToolUse,
                 crs_tool_use := Some \<lparr>tu_id = ''mock-tc-'' @ show_nat (unat current),
                   tu_name = td_name (crq_tools req ! ((unat current - 1) mod length (crq_tools req))),
                   tu_input = JObject [(''turn'', JInt (uint current))]\<rparr>\<rparr>))
         else (current, Ok resp))"

section \<open>Facts\<close>

lemma router_choose_None_iff: "router_choose r tier = None \<longleftrightarrow> vr_providers r = []"
  by (auto simp: router_choose_def split: option.splits list.splits)

text \<open>Spending through the budget never adds tokens, and a spent budget stops the provider.\<close>

lemma call_budget_tokens:
  "unat (max_tokens (fst (snd (call_budget_call chat w b req)))) \<le> unat (max_tokens b)"
  by (auto simp: call_budget_call_def Let_def unat_saturating_sub split: prod.splits sum.splits)

lemma call_budget_exhausted:
  "max_tokens b = 0 \<or> fle (max_cost_usd b) (Fin 0) \<Longrightarrow> call_budget_call chat w b req = (w, b, Err CB_Exhausted)"
  by (simp add: call_budget_call_def)

end
