(* ===== verification/Nodes.thy ===== *)
theory Nodes
  imports Policy LLM Graph Registry Trace
begin

text \<open>
  The runtime's building blocks (\<open>aaf-runtime\<close>): the budget tracker, graph nodes of every kind, the
  capability invocation bridge, the compensation chain and the checkpoint writer.

  A node may have effects: its \<open>run\<close> is a function on a world \<open>'w\<close> the model leaves open. Children
  of a fork are spawned together; the model runs them one after the other in their order, every
  child, also after another failed. Measured durations are arguments.
\<close>

section \<open>Budget tracker\<close>

datatype budget_tracker_error = BTokens u64 | BCost f64 | BTime u64

record budget_tracker =
  bt_initial :: budget_contract
  bt_used_tokens :: u64
  bt_used_cost :: f64
  bt_used_ms :: u64

definition budget_tracker_new :: "budget_contract \<Rightarrow> budget_tracker" where
  "budget_tracker_new b = \<lparr>bt_initial = b, bt_used_tokens = 0, bt_used_cost = Fin 0, bt_used_ms = 0\<rparr>"

definition charge ::
  "budget_tracker \<Rightarrow> u64 \<Rightarrow> f64 \<Rightarrow> u64 \<Rightarrow> budget_tracker \<times> (unit, budget_tracker_error) result" where
  "charge s tokens cost_usd elapsed_ms =
     (let s' = s\<lparr>bt_used_tokens := saturating_add (bt_used_tokens s) tokens,
                 bt_used_cost := fadd (bt_used_cost s) cost_usd,
                 bt_used_ms := saturating_add (bt_used_ms s) elapsed_ms\<rparr>;
          b = bt_initial s'
      in (s', if bt_used_tokens s' > max_tokens b then Err (BTokens (max_tokens b))
              else if flt (max_cost_usd b) (bt_used_cost s') then Err (BCost (max_cost_usd b))
              else if bt_used_ms s' > max_latency_ms b then Err (BTime (max_latency_ms b))
              else Ok ()))"

definition budget_remaining :: "budget_tracker \<Rightarrow> budget_contract" where
  "budget_remaining s =
     \<lparr>max_tokens = saturating_sub (max_tokens (bt_initial s)) (bt_used_tokens s),
      max_cost_usd = fmax (fsub (max_cost_usd (bt_initial s)) (bt_used_cost s)) (Fin 0),
      max_latency_ms = saturating_sub (max_latency_ms (bt_initial s)) (bt_used_ms s)\<rparr>"

section \<open>Nodes\<close>

datatype invocation_error =
    Unreachable string | InvTimeout u64 | ServiceError nat string | UnsupportedKind string
  | CapabilityNotFound string | HandlerError string

datatype node_message = Msg string | MsgRecorder recorder_error | MsgLLM llm_error | MsgInvocation invocation_error

datatype runtime_error =
    StepTimeout string u64
  | BudgetExceeded budget_tracker_error
  | RE_PolicyViolation "policy_violation list"
  | GraphError graph_validation_error
  | StorageErr storage_error
  | CompensationFailed string runtime_error
  | NodeErr node_message
  | RE_Revoked string string

record node_output =
  no_data :: json
  no_tokens :: u64
  no_cost_usd :: f64
  no_duration_ms :: u64
  no_model :: "string option"

definition node_output_default :: node_output where
  "node_output_default = \<lparr>no_data = JNull, no_tokens = 0, no_cost_usd = Fin 0, no_duration_ms = 0, no_model = None\<rparr>"

datatype node_kind = NK_Deterministic | NK_Agent | NK_Approval | NK_Fork | NK_EventWait

text \<open>The outputs so far: a hash map, as an association list with distinct keys.\<close>

type_synonym outputs = "(string \<times> node_output) list"

type_synonym 'w runner = "'w \<Rightarrow> intent_envelope \<Rightarrow> outputs \<Rightarrow> 'w \<times> (node_output, runtime_error) result"

record 'w node =
  nd_id :: string
  nd_kind :: node_kind
  nd_side_effect :: side_effect
  nd_run :: "'w runner"

subsection \<open>Deterministic nodes\<close>

definition deterministic_node ::
  "u64 \<Rightarrow> string \<Rightarrow> side_effect \<Rightarrow> ('w \<Rightarrow> intent_envelope \<Rightarrow> outputs \<Rightarrow> 'w \<times> (json, runtime_error) result) \<Rightarrow> 'w node" where
  "deterministic_node elapsed i se func =
     \<lparr>nd_id = i, nd_kind = NK_Deterministic, nd_side_effect = se,
      nd_run = (\<lambda>w intent prior.
        case func w intent prior of
          (w', Inl e) \<Rightarrow> (w', Err e)
        | (w', Inr d) \<Rightarrow> (w', Ok \<lparr>no_data = d, no_tokens = 0, no_cost_usd = Fin 0, no_duration_ms = elapsed,
                                 no_model = None\<rparr>))\<rparr>"

subsection \<open>Approval nodes\<close>

datatype approval_mode = AutoApprove | Workflow

definition approval_run ::
  "timestamp \<Rightarrow> approval_mode \<Rightarrow> string \<Rightarrow> approval_workflow \<Rightarrow> intent_envelope
     \<Rightarrow> approval_workflow \<times> (node_output, runtime_error) result" where
  "approval_run now mode reason flow intent =
     (case mode of
        AutoApprove \<Rightarrow>
          (flow, Ok (node_output_default\<lparr>no_data := json_object [(''approved'', JBool True), (''via'', JString ''auto'')]\<rparr>))
      | Workflow \<Rightarrow>
          (case approval_get flow (''appr-'' @ int_id intent) of
             Some req \<Rightarrow>
               (flow, case ar_state req of
                  AS_Approved \<Rightarrow>
                    Ok (node_output_default\<lparr>no_data := json_object [(''approved'', JBool True), (''via'', JString ''workflow'')]\<rparr>)
                | AS_Rejected \<Rightarrow> Err (NodeErr (Msg (''approval rejected for intent '' @ int_id intent)))
                | AS_Pending \<Rightarrow> Err (NodeErr (Msg (''approval pending for intent '' @ int_id intent)))
                | AS_Expired \<Rightarrow> Err (NodeErr (Msg (''approval expired for intent '' @ int_id intent))))
           | None \<Rightarrow>
               (fst (approval_open now flow (int_id intent) reason []),
                Err (NodeErr (Msg (''approval opened for intent '' @ int_id intent @ '', awaiting reviewer''))))))"

text \<open>The workflow is shared state: it is a part of the world the node reads and writes.\<close>

definition approval_node ::
  "('w \<Rightarrow> approval_workflow) \<Rightarrow> (approval_workflow \<Rightarrow> 'w \<Rightarrow> 'w) \<Rightarrow> timestamp \<Rightarrow> string \<Rightarrow> approval_mode \<Rightarrow> string \<Rightarrow> 'w node" where
  "approval_node get_wf put_wf now i mode reason =
     \<lparr>nd_id = i, nd_kind = NK_Approval, nd_side_effect = SE_None,
      nd_run = (\<lambda>w intent prior.
        let (flow', r) = approval_run now mode reason (get_wf w) intent in (put_wf flow' w, r))\<rparr>"

subsection \<open>Fork nodes\<close>

fun run_children ::
  "'w node list \<Rightarrow> 'w \<Rightarrow> intent_envelope \<Rightarrow> outputs \<Rightarrow> 'w \<times> (node_output, runtime_error) result list" where
  "run_children [] w intent prior = (w, [])"
| "run_children (c # cs) w intent prior =
     (let (w1, r) = nd_run c w intent prior; (w2, rs) = run_children cs w1 intent prior in (w2, r # rs))"

fun join_children ::
  "nat \<Rightarrow> (node_output, runtime_error) result list \<Rightarrow> u64 \<Rightarrow> f64 \<Rightarrow> (string \<times> json) list
     \<Rightarrow> (u64 \<times> f64 \<times> (string \<times> json) list, runtime_error) result" where
  "join_children idx [] tokens cost combined = Ok (tokens, cost, combined)"
| "join_children idx (r # rs) tokens cost combined =
     (case r of
        Inl e \<Rightarrow> Err e
      | Inr out \<Rightarrow> join_children (Suc idx) rs (saturating_add tokens (no_tokens out)) (fadd cost (no_cost_usd out))
                   (combined @ [(''child_'' @ show_nat idx, no_data out)]))"

definition fork_node :: "u64 \<Rightarrow> string \<Rightarrow> 'w node list \<Rightarrow> 'w node" where
  "fork_node elapsed i children =
     \<lparr>nd_id = i, nd_kind = NK_Fork, nd_side_effect = SE_None,
      nd_run = (\<lambda>w intent prior.
        let (w', rs) = run_children children w intent prior
        in (w', bind_result (join_children 0 rs 0 (Fin 0) []) (\<lambda>(tokens, cost, combined).
              Ok \<lparr>no_data = json_object combined, no_tokens = tokens, no_cost_usd = cost,
                  no_duration_ms = elapsed, no_model = None\<rparr>)))\<rparr>"

subsection \<open>Event-wait nodes\<close>

definition DEFAULT_TIMEOUT_ms :: u64 where
  "DEFAULT_TIMEOUT_ms = 30000"

definition effective_timeout :: "u64 option \<Rightarrow> intent_envelope \<Rightarrow> u64" where
  "effective_timeout timeout intent =
     (case timeout of
        Some t \<Rightarrow> t
      | None \<Rightarrow> let ms = max_latency_ms (int_budget intent) in if ms > 0 then ms else DEFAULT_TIMEOUT_ms)"

text \<open>What arrives on the watch channel, with the time in milliseconds since the wait began; an event
  that arrives at the deadline is late.\<close>

datatype channel_event = Sent "json option" | ChannelClosed

fun await_event :: "string \<Rightarrow> u64 \<Rightarrow> json option \<Rightarrow> (u64 \<times> channel_event) list \<Rightarrow> (node_output, runtime_error) result" where
  "await_event i timeout (Some v) es = Ok (node_output_default\<lparr>no_data := v\<rparr>)"
| "await_event i timeout None [] = Err (StepTimeout i timeout)"
| "await_event i timeout None ((t, ev) # es) =
     (if t \<ge> timeout then Err (StepTimeout i timeout)
      else case ev of
             Sent v \<Rightarrow> await_event i timeout v es
           | ChannelClosed \<Rightarrow> Err (NodeErr (Msg ''event channel closed'')))"

definition event_wait_node ::
  "('w \<Rightarrow> json option \<times> (u64 \<times> channel_event) list) \<Rightarrow> string \<Rightarrow> u64 option \<Rightarrow> 'w node" where
  "event_wait_node channel i timeout =
     \<lparr>nd_id = i, nd_kind = NK_EventWait, nd_side_effect = SE_None,
      nd_run = (\<lambda>w intent prior.
        let (current, es) = channel w in (w, await_event i (effective_timeout timeout intent) current es))\<rparr>"

subsection \<open>Agent nodes\<close>

definition DEFAULT_MAX_TOOL_CALLS :: u32 where
  "DEFAULT_MAX_TOOL_CALLS = 10"

type_synonym 'w tool_executor = "'w \<Rightarrow> string \<Rightarrow> json \<Rightarrow> 'w \<times> (string, runtime_error) result"

record tool_call_record =
  tcr_name :: string
  tcr_input :: json
  tcr_output :: string
  tcr_duration_ms :: u64

record 'w agent_node =
  an_id :: string
  an_provider :: "'w llm_provider"
  an_system :: string
  an_model :: string
  an_max_output_tokens :: u32
  an_tools :: "tool_definition list"
  an_tool_executor :: "'w tool_executor option"
  an_max_tool_calls :: u32

definition agent_node_new :: "string \<Rightarrow> 'w llm_provider \<Rightarrow> string \<Rightarrow> string \<Rightarrow> u32 \<Rightarrow> 'w agent_node" where
  "agent_node_new i p system model max_out =
     \<lparr>an_id = i, an_provider = p, an_system = system, an_model = model, an_max_output_tokens = max_out,
      an_tools = [], an_tool_executor = None, an_max_tool_calls = DEFAULT_MAX_TOOL_CALLS\<rparr>"

definition with_tools :: "'w agent_node \<Rightarrow> tool_definition list \<Rightarrow> 'w tool_executor \<Rightarrow> 'w agent_node" where
  "with_tools a tools ex = a\<lparr>an_tools := tools, an_tool_executor := Some ex\<rparr>"

definition with_max_tool_calls :: "'w agent_node \<Rightarrow> u32 \<Rightarrow> 'w agent_node" where
  "with_max_tool_calls a m = a\<lparr>an_max_tool_calls := m\<rparr>"

record agent_acc =
  aa_messages :: "chat_message list"
  aa_tokens :: u64
  aa_cost :: f64
  aa_calls :: "tool_call_record list"

fun debug_stop_reason :: "stop_reason \<Rightarrow> string" where
  "debug_stop_reason EndTurn = ''EndTurn''"
| "debug_stop_reason ToolUse = ''ToolUse''"
| "debug_stop_reason MaxTokens = ''MaxTokens''"
| "debug_stop_reason BudgetExhausted = ''BudgetExhausted''"
| "debug_stop_reason Cancelled = ''Cancelled''"

definition tool_call_json :: "tool_call_record \<Rightarrow> json" where
  "tool_call_json c = json_object [(''name'', JString (tcr_name c)), (''input'', tcr_input c),
     (''output'', JString (tcr_output c)), (''duration_ms'', JInt (uint (tcr_duration_ms c)))]"

definition agent_output :: "u64 \<Rightarrow> agent_acc \<Rightarrow> string \<Rightarrow> stop_reason \<Rightarrow> string \<Rightarrow> node_output" where
  "agent_output elapsed acc content stop model =
     \<lparr>no_data = json_object [(''content'', JString content), (''stop_reason'', JString (debug_stop_reason stop)),
        (''tool_calls'', JArray (map tool_call_json (aa_calls acc)))],
      no_tokens = aa_tokens acc, no_cost_usd = aa_cost acc, no_duration_ms = elapsed, no_model = Some model\<rparr>"

definition agent_request :: "'w agent_node \<Rightarrow> agent_acc \<Rightarrow> chat_request" where
  "agent_request a acc =
     \<lparr>crq_model = an_model a, crq_temperature = to_f32 (1 / 5), crq_max_output_tokens = an_max_output_tokens a,
      crq_messages = aa_messages acc,
      crq_tools = (if an_tools a \<noteq> [] \<and> an_tool_executor a \<noteq> None then an_tools a else []),
      crq_tool_choice = TC_Auto\<rparr>"

definition agent_account :: "agent_acc \<Rightarrow> chat_response \<Rightarrow> agent_acc" where
  "agent_account acc resp =
     acc\<lparr>aa_tokens := aa_tokens acc + (ucast (crs_tokens_in resp) + ucast (crs_tokens_out resp)),
         aa_cost := fadd (aa_cost acc) (crs_cost_usd resp)\<rparr>"

definition agent_tool_turn :: "u64 \<Rightarrow> agent_acc \<Rightarrow> tool_use_block \<Rightarrow> string \<Rightarrow> agent_acc" where
  "agent_tool_turn duration acc tu res =
     acc\<lparr>aa_calls := aa_calls acc @ [\<lparr>tcr_name = tu_name tu, tcr_input = tu_input tu, tcr_output = res,
           tcr_duration_ms = duration\<rparr>],
         aa_messages := aa_messages acc @ [tool_use_msg tu,
           tool_result_msg \<lparr>trb_tool_use_id = tu_id tu, trb_content = res, trb_is_error = False\<rparr>]\<rparr>"

text \<open>The bounded loop: \<open>left\<close> is the number of tool calls still allowed, so the turn counter has
  reached \<open>max_tool_calls\<close> exactly when it is zero. \<open>dur\<close> gives the measured durations: of the whole
  run, and of the tool call made with \<open>left\<close> calls still allowed.\<close>

fun agent_loop ::
  "u64 \<times> (nat \<Rightarrow> u64) \<Rightarrow> 'w agent_node \<Rightarrow> nat \<Rightarrow> agent_acc \<Rightarrow> 'w \<Rightarrow> 'w \<times> (node_output, runtime_error) result" where
  "agent_loop dur a left acc w =
     (case an_provider a w (agent_request a acc) of
        (w1, Inl e) \<Rightarrow> (w1, Err (NodeErr (MsgLLM e)))
      | (w1, Inr resp) \<Rightarrow>
          let acc1 = agent_account acc resp
          in if crs_stop_reason resp \<noteq> ToolUse
             then (w1, Ok (agent_output (fst dur) acc1 (crs_content resp) (crs_stop_reason resp) (crs_model resp)))
             else (case left of
                     0 \<Rightarrow> (w1, Ok (agent_output (fst dur) acc1 (crs_content resp) BudgetExhausted (crs_model resp)))
                   | Suc left' \<Rightarrow>
                       (case (crs_tool_use resp, an_tool_executor a) of
                          (Some tu, Some ex) \<Rightarrow>
                            (case ex w1 (tu_name tu) (tu_input tu) of
                               (w2, Inl e) \<Rightarrow> (w2, Err e)
                             | (w2, Inr res) \<Rightarrow>
                                 agent_loop dur a left' (agent_tool_turn (snd dur left) acc1 tu res) w2)
                        | _ \<Rightarrow> (w1, Ok (agent_output (fst dur) acc1 (crs_content resp) ToolUse (crs_model resp))))))"

declare agent_loop.simps [simp del]

definition agent_run :: "u64 \<times> (nat \<Rightarrow> u64) \<Rightarrow> 'w agent_node \<Rightarrow> 'w runner" where
  "agent_run dur a w intent prior =
     agent_loop dur a (unat (an_max_tool_calls a))
       \<lparr>aa_messages = [msg_system (an_system a), msg_user (int_goal intent)], aa_tokens = 0, aa_cost = Fin 0, aa_calls = []\<rparr> w"

definition node_of_agent :: "u64 \<times> (nat \<Rightarrow> u64) \<Rightarrow> 'w agent_node \<Rightarrow> 'w node" where
  "node_of_agent dur a =
     \<lparr>nd_id = an_id a, nd_kind = NK_Agent, nd_side_effect = SE_None, nd_run = agent_run dur a\<rparr>"

section \<open>Invoking capabilities\<close>

record invocation_context =
  ic_trace_id :: string
  ic_timeout_ms :: u64
  ic_caller_scopes :: "string list"

record invocation_result =
  ir_output :: json
  ir_latency_ms :: u64

type_synonym 'w service_invoker =
  "'w \<Rightarrow> capability_contract \<Rightarrow> json \<Rightarrow> invocation_context \<Rightarrow> 'w \<times> (invocation_result, invocation_error) result"

text \<open>The in-process invoker: handlers by capability name and the log of calls.\<close>

record in_process_invoker =
  ipi_handlers :: "(json \<Rightarrow> (json, string) result) hashmap"
  ipi_call_log :: "(string \<times> json) list"

definition ipi_new :: in_process_invoker where
  "ipi_new = \<lparr>ipi_handlers = Map.empty, ipi_call_log = []\<rparr>"

definition ipi_register :: "in_process_invoker \<Rightarrow> string \<Rightarrow> (json \<Rightarrow> (json, string) result) \<Rightarrow> in_process_invoker" where
  "ipi_register s name h = s\<lparr>ipi_handlers := (ipi_handlers s)(name \<mapsto> h)\<rparr>"

definition ipi_register_fixed :: "in_process_invoker \<Rightarrow> string \<Rightarrow> json \<Rightarrow> in_process_invoker" where
  "ipi_register_fixed s name v = ipi_register s name (\<lambda>_. Ok v)"

definition ipi_invoke :: "u64 \<Rightarrow> in_process_invoker service_invoker" where
  "ipi_invoke latency s cap input ctx =
     (let s' = s\<lparr>ipi_call_log := ipi_call_log s @ [(cap_name cap, input)]\<rparr>
      in (s', case ipi_handlers s (cap_name cap) of
                None \<Rightarrow> Err (CapabilityNotFound (cap_name cap))
              | Some h \<Rightarrow>
                  (case h input of
                     Inl e \<Rightarrow> Err (HandlerError e)
                   | Inr out \<Rightarrow> Ok \<lparr>ir_output = out, ir_latency_ms = latency\<rparr>)))"

text \<open>The bridge from an agent's tool call to the invoker; \<open>to_string\<close> is the JSON printer.\<close>

definition governing_execute :: "(json \<Rightarrow> string) \<Rightarrow> registry \<Rightarrow> 'w service_invoker \<Rightarrow> 'w tool_executor" where
  "governing_execute to_string g invoke w name input =
     (case find_by_name g name of
        Inl _ \<Rightarrow> (w, Err (NodeErr (Msg (''capability not found: '' @ name))))
      | Inr cap \<Rightarrow>
          (case invoke w cap input \<lparr>ic_trace_id = [], ic_timeout_ms = 30000, ic_caller_scopes = []\<rparr> of
             (w', Inl e) \<Rightarrow> (w', Err (NodeErr (MsgInvocation e)))
           | (w', Inr r) \<Rightarrow> (w', Ok (to_string (ir_output r)))))"

section \<open>Compensation chain\<close>

type_synonym 'w compensation_chain = "(string \<times> 'w node) list"

definition chain_push :: "'w compensation_chain \<Rightarrow> string \<Rightarrow> 'w node \<Rightarrow> 'w compensation_chain" where
  "chain_push c for_step n = c @ [(for_step, n)]"

fun rollback_loop ::
  "intent_envelope \<Rightarrow> 'w compensation_chain \<Rightarrow> outputs \<Rightarrow> node_output list \<Rightarrow> 'w
     \<Rightarrow> 'w \<times> 'w compensation_chain \<times> (node_output list, runtime_error) result" where
  "rollback_loop intent [] prior out w = (w, [], Ok out)"
| "rollback_loop intent ((step_id, compensator) # rest) prior out w =
     (case nd_run compensator w intent prior of
        (w', Inr o') \<Rightarrow> rollback_loop intent rest (AList.update step_id o' prior) (out @ [o']) w'
      | (w', Inl e) \<Rightarrow> (w', rest, Err (CompensationFailed step_id e)))"

text \<open>The loop above takes the stack with its top first.\<close>

definition chain_rollback ::
  "'w compensation_chain \<Rightarrow> intent_envelope \<Rightarrow> 'w \<Rightarrow> 'w \<times> 'w compensation_chain \<times> (node_output list, runtime_error) result" where
  "chain_rollback c intent w =
     (case rollback_loop intent (rev c) [] [] w of (w', rest, r) \<Rightarrow> (w', rev rest, r))"

section \<open>Checkpoint writer\<close>

definition checkpoint_write ::
  "timestamp \<Rightarrow> string \<Rightarrow> checkpoint store \<Rightarrow> string \<Rightarrow> u32 \<Rightarrow> outputs \<Rightarrow> f64 \<Rightarrow> u64 \<Rightarrow> checkpoint store \<times> (string, runtime_error) result" where
  "checkpoint_write now fresh s task step outs remaining_usd remaining_ms =
     (checkpoint_put s \<lparr>cp_id = fresh, cp_task_id = task, cp_step = step,
        cp_state = json_object (map (\<lambda>(k, v). (k, no_data v)) outs),
        cp_remaining_budget_usd = remaining_usd, cp_remaining_time_ms = remaining_ms, cp_created_at = now\<rparr>,
      Ok fresh)"

section \<open>Facts about the building blocks\<close>

lemma bt_initial_charge [simp]: "bt_initial (fst (charge s t c m)) = bt_initial s"
  by (simp add: charge_def Let_def)

lemma charge_Ok:
  assumes "snd (charge s t c m) = Ok ()"
  shows "bt_used_tokens (fst (charge s t c m)) \<le> max_tokens (bt_initial s)
    \<and> \<not> flt (max_cost_usd (bt_initial s)) (bt_used_cost (fst (charge s t c m)))
    \<and> bt_used_ms (fst (charge s t c m)) \<le> max_latency_ms (bt_initial s)"
  using assms by (auto simp: charge_def Let_def not_less split: if_splits)

lemma saturating_add_ge: "a \<le> saturating_add a b" for a :: "'a::len word"
proof -
  have "unat a < 2 ^ LENGTH('a)" by (rule unsigned_less)
  then have "unat a \<le> 2 ^ LENGTH('a) - 1" by linarith
  then show ?thesis unfolding word_le_nat_alt unat_saturating_add by simp
qed

lemma charge_mono:
  "bt_used_tokens s \<le> bt_used_tokens (fst (charge s t c m)) \<and> bt_used_ms s \<le> bt_used_ms (fst (charge s t c m))"
  by (simp add: charge_def Let_def saturating_add_ge)

text \<open>Counting the calls a bounded agent loop makes, by any counters of the world.\<close>

lemma agent_loop_calls:
  assumes prov: "\<And>w req. p (fst (an_provider a w req)) \<le> p w + 1 \<and> q (fst (an_provider a w req)) \<le> q w"
    and tool: "\<And>ex w n i. an_tool_executor a = Some ex \<Longrightarrow> p (fst (ex w n i)) \<le> p w \<and> q (fst (ex w n i)) \<le> q w + 1"
  shows "p (fst (agent_loop dur a left acc w)) \<le> p w + left + 1 \<and> q (fst (agent_loop dur a left acc w)) \<le> q w + (left :: nat)"
proof (induction left arbitrary: acc w)
  case 0
  show ?case
    using prov[of w "agent_request a acc"]
    by (subst (1 2) agent_loop.simps) (auto simp: Let_def split: prod.splits sum.splits)
next
  case (Suc left)
  obtain w1 r where r: "an_provider a w (agent_request a acc) = (w1, r)" by fastforce
  have w1: "p w1 \<le> p w + 1" "q w1 \<le> q w" using prov[of w "agent_request a acc"] by (auto simp: r)
  show ?case
  proof (cases "\<exists>resp tu ex. r = Inr resp \<and> crs_stop_reason resp = ToolUse \<and> crs_tool_use resp = Some tu \<and> an_tool_executor a = Some ex")
    case False
    with w1 show ?thesis
      by (subst (1 2) agent_loop.simps) (auto simp: r Let_def split: sum.splits option.splits)
  next
    case True
    then obtain resp tu ex where c: "r = Inr resp" "crs_stop_reason resp = ToolUse" "crs_tool_use resp = Some tu"
      "an_tool_executor a = Some ex" by blast
    obtain w2 s where s: "ex w1 (tu_name tu) (tu_input tu) = (w2, s)" by fastforce
    have w2: "p w2 \<le> p w1" "q w2 \<le> q w1 + 1" using tool[OF c(4), of w1 "tu_name tu" "tu_input tu"] by (auto simp: s)
    show ?thesis
    proof (cases s)
      case (Inl e)
      with w1 w2 show ?thesis by (subst (1 2) agent_loop.simps) (auto simp: r c s Let_def)
    next
      case (Inr res)
      let ?acc = "agent_tool_turn (snd dur (Suc left)) (agent_account acc resp) tu res"
      have "agent_loop dur a (Suc left) acc w = agent_loop dur a left ?acc w2"
        by (subst agent_loop.simps) (simp add: r c s Inr Let_def)
      with Suc.IH[of ?acc w2] w1 w2 show ?thesis by simp
    qed
  qed
qed

text \<open>C22. The agentic loop is bounded: whatever the model answers, one run of an agent node calls the
  provider at most \<open>max_tool_calls + 1\<close> times and the tool executor at most \<open>max_tool_calls\<close> times,
  for any counters of the world that a provider call and a tool call advance by at most one.\<close>

theorem agent_run_bounded:
  assumes "\<And>w req. p (fst (an_provider a w req)) \<le> p w + 1 \<and> q (fst (an_provider a w req)) \<le> q w"
    and "\<And>ex w n i. an_tool_executor a = Some ex \<Longrightarrow> p (fst (ex w n i)) \<le> p w \<and> q (fst (ex w n i)) \<le> q w + 1"
  shows "p (fst (agent_run dur a w intent prior)) \<le> p w + unat (an_max_tool_calls a) + 1
    \<and> q (fst (agent_run dur a w intent prior)) \<le> q w + unat (an_max_tool_calls a)"
  unfolding agent_run_def by (rule agent_loop_calls) (use assms in auto)

text \<open>An agent whose model asks for a tool on every turn, over a world that counts both kinds of calls.\<close>

definition ex_greedy_provider :: "(nat \<times> nat) llm_provider" where
  "ex_greedy_provider w req =
     ((fst w + 1, snd w), Ok \<lparr>crs_content = [], crs_tokens_in = 1, crs_tokens_out = 1, crs_cost_usd = Fin 0,
        crs_model = ''m'', crs_stop_reason = ToolUse,
        crs_tool_use = Some \<lparr>tu_id = ''t'', tu_name = ''tool'', tu_input = JNull\<rparr>\<rparr>)"

definition ex_greedy_agent :: "(nat \<times> nat) agent_node" where
  "ex_greedy_agent =
     with_max_tool_calls (with_tools (agent_node_new ''agent'' ex_greedy_provider ''sys'' ''m'' 100) []
       (\<lambda>w name input. ((fst w, snd w + 1), Ok ''done''))) 3"

lemma ex_greedy_loop: "fst (agent_loop dur ex_greedy_agent k acc w) = (fst w + k + 1, snd w + k)"
proof -
  have a: "an_provider ex_greedy_agent = ex_greedy_provider"
    "an_tool_executor ex_greedy_agent = Some (\<lambda>w name input. ((fst w, snd w + 1), Ok ''done''))"
    by (simp_all add: ex_greedy_agent_def with_max_tool_calls_def with_tools_def agent_node_new_def)
  show ?thesis
    by (induction k arbitrary: acc w) (subst agent_loop.simps, simp add: a ex_greedy_provider_def Let_def)+
qed

theorem agent_run_bounded_witness:
  "fst (agent_run (0, \<lambda>_. 0) ex_greedy_agent (0, 0) ex_intent []) = (4, 3)
   \<and> fst (fst (agent_run (0, \<lambda>_. 0) ex_greedy_agent (0, 0) ex_intent [])) \<le> 0 + unat (an_max_tool_calls ex_greedy_agent) + 1"
proof
  show "fst (agent_run (0, \<lambda>_. 0) ex_greedy_agent (0, 0) ex_intent []) = (4, 3)"
    by (simp add: agent_run_def ex_greedy_loop) (simp add: ex_greedy_agent_def with_max_tool_calls_def)
  show "fst (fst (agent_run (0, \<lambda>_. 0) ex_greedy_agent (0, 0) ex_intent [])) \<le> 0 + unat (an_max_tool_calls ex_greedy_agent) + 1"
  proof -
    have "fst (fst (agent_run (0, \<lambda>_. 0) ex_greedy_agent (0, 0) ex_intent [])) \<le> fst (0 :: nat, 0 :: nat) + unat (an_max_tool_calls ex_greedy_agent) + 1"
      by (rule conjunct1[OF agent_run_bounded[of fst ex_greedy_agent snd]])
        (auto simp: ex_greedy_agent_def with_max_tool_calls_def with_tools_def agent_node_new_def ex_greedy_provider_def)
    then show ?thesis by simp
  qed
qed

end
