(* ===== verification/Executor.thy ===== *)
theory Executor
  imports Nodes Identity
begin

text \<open>
  The graph executor (\<open>aaf-runtime/src/executor.rs\<close>): revocation check, the four policy hooks, shadow
  mode, budget charging, observation recording and rollback, over the validated graph. The state a
  run changes is the world the nodes act on, the trace recorder and the budget tracker; the clock
  and the printer of JSON values are arguments. A reason string made from an error keeps the error.
\<close>

datatype execution_outcome =
    Completed outputs u32
  | PartialRun outputs u32 budget_tracker_error
  | PendingApproval outputs u32 policy_decision
  | RolledBack u32 runtime_error "string list"

record graph_executor =
  ge_policy :: policy_engine
  ge_revocation :: "revocation_registry option"
  ge_shadow :: bool

definition executor_new :: "policy_engine \<Rightarrow> graph_executor" where
  "executor_new p = \<lparr>ge_policy = p, ge_revocation = None, ge_shadow = False\<rparr>"

definition with_revocation :: "graph_executor \<Rightarrow> revocation_registry \<Rightarrow> graph_executor" where
  "with_revocation x r = x\<lparr>ge_revocation := Some r\<rparr>"

definition with_shadow :: "graph_executor \<Rightarrow> graph_executor" where
  "with_shadow x = x\<lparr>ge_shadow := True\<rparr>"

record 'w exec_state =
  xs_world :: 'w
  xs_recorder :: recorder
  xs_budget :: budget_tracker

text \<open>The times a run reads: at the opening and closing of the trace, at each observation, and the
  measured milliseconds of each step.\<close>

record clock =
  ck_open :: timestamp
  ck_step :: "u32 \<Rightarrow> timestamp"
  ck_close :: timestamp
  ck_elapsed :: "u32 \<Rightarrow> u64"

definition exec_context ::
  "intent_envelope \<Rightarrow> budget_tracker \<Rightarrow> string option \<Rightarrow> string option \<Rightarrow> side_effect option \<Rightarrow> u32 \<Rightarrow> policy_context" where
  "exec_context i b payload out se writes =
     \<lparr>ctx_intent = i, ctx_capability = None, ctx_requester = int_requester i, ctx_payload = payload,
      ctx_output = out, ctx_side_effect = se, ctx_remaining_budget = budget_remaining b,
      ctx_tenant = rq_tenant (int_requester i), ctx_composed_writes = writes,
      ctx_ontology_class_lookup = None\<rparr>"

type_synonym 'w run_result = "'w exec_state \<times> (execution_outcome, runtime_error) result"

definition close_trace :: "clock \<Rightarrow> 'w exec_state \<Rightarrow> string \<Rightarrow> trace_status \<Rightarrow> 'w exec_state \<times> (unit, runtime_error) result" where
  "close_trace ck st tid status =
     (case recorder_close (ck_close ck) (xs_recorder st) tid status of
        (r, Inl e) \<Rightarrow> (st\<lparr>xs_recorder := r\<rparr>, Err (NodeErr (MsgRecorder e)))
      | (r, Inr _) \<Rightarrow> (st\<lparr>xs_recorder := r\<rparr>, Ok ()))"

text \<open>Close the trace, then return: the shape of every exit of a run.\<close>

definition close_and_return ::
  "clock \<Rightarrow> intent_envelope \<Rightarrow> 'w exec_state \<Rightarrow> trace_status \<Rightarrow> (execution_outcome, runtime_error) result \<Rightarrow> 'w run_result" where
  "close_and_return ck i st status r =
     (case close_trace ck st (int_trace_id i) status of
        (st', Inl e) \<Rightarrow> (st', Err e)
      | (st', Inr _) \<Rightarrow> (st', r))"

fun debug_side_effect :: "side_effect \<Rightarrow> string" where
  "debug_side_effect SE_None = ''None''"
| "debug_side_effect SE_Read = ''Read''"
| "debug_side_effect SE_Write = ''Write''"
| "debug_side_effect SE_Delete = ''Delete''"
| "debug_side_effect SE_Send = ''Send''"
| "debug_side_effect SE_Payment = ''Payment''"

definition shadow_output :: "string \<Rightarrow> side_effect \<Rightarrow> node_output" where
  "shadow_output nid se = node_output_default\<lparr>no_data := json_object
     [(''shadow'', JBool True), (''would_have_run'', JString nid), (''side_effect'', JString (debug_side_effect se))]\<rparr>"

definition executor_rollback ::
  "'w compensation_chain \<Rightarrow> string list \<Rightarrow> intent_envelope \<Rightarrow> 'w \<Rightarrow> 'w \<times> (string list, runtime_error) result" where
  "executor_rollback chain targets i w =
     (if chain = [] then (w, Ok [])
      else case chain_rollback chain i w of
             (w', _, Inl e) \<Rightarrow> (w', Err e)
           | (w', _, Inr _) \<Rightarrow> (w', Ok targets))"

text \<open>A node failed: roll back the completed write steps, close the trace, report.\<close>

definition fail_step ::
  "clock \<Rightarrow> intent_envelope \<Rightarrow> 'w compensation_chain \<Rightarrow> string list \<Rightarrow> u32 \<Rightarrow> runtime_error \<Rightarrow> 'w exec_state \<Rightarrow> 'w run_result" where
  "fail_step ck i chain targets step e st =
     (case executor_rollback chain targets i (xs_world st) of
        (w', Inl e') \<Rightarrow> (st\<lparr>xs_world := w'\<rparr>, Err e')
      | (w', Inr compensated) \<Rightarrow>
          close_and_return ck i (st\<lparr>xs_world := w'\<rparr>) Tr_Failed
            (if compensated \<noteq> [] then Ok (RolledBack step e compensated) else Err e))"

fun debug_node_kind :: "node_kind \<Rightarrow> string" where
  "debug_node_kind NK_Deterministic = ''Deterministic''"
| "debug_node_kind NK_Agent = ''Agent''"
| "debug_node_kind NK_Approval = ''Approval''"
| "debug_node_kind NK_Fork = ''Fork''"
| "debug_node_kind NK_EventWait = ''EventWait''"

definition step_observation :: "clock \<Rightarrow> intent_envelope \<Rightarrow> string \<Rightarrow> 'w node \<Rightarrow> u32 \<Rightarrow> node_output \<Rightarrow> observation" where
  "step_observation ck i nid nd step out =
     \<lparr>ob_trace_id = int_trace_id i, ob_node_id = nid, ob_step = step, ob_agent = ''runtime'', ob_observed = [],
      ob_reasoning = ''ran node '' @ nid @ '' of kind '' @ debug_node_kind (nd_kind nd), ob_decision = ''continue'',
      ob_confidence = Fin 1, ob_alternatives = [], ob_outcome = SO_Success, ob_recorded_at = ck_step ck step,
      ob_outcome_detail = Some (outcome_minimal OS_Succeeded (no_duration_ms out)
        (if unat (no_tokens out) < 2 ^ 32 then ucast (no_tokens out) else - 1) (no_cost_usd out))\<rparr>"

definition record_node_run :: "clock \<Rightarrow> intent_envelope \<Rightarrow> string \<Rightarrow> 'w node \<Rightarrow> u32 \<Rightarrow> node_output \<Rightarrow> recorder \<Rightarrow> recorder \<times> (unit, recorder_error) result" where
  "record_node_run ck i nid nd step out r =
     record_observation r (step_observation ck i nid nd step out) ''node_run'' (no_cost_usd out) (no_duration_ms out)
       (no_tokens out div 2) (no_tokens out - no_tokens out div 2) (no_model out)"

section \<open>The run\<close>

text \<open>One iteration of the step loop ends the run or yields the step's output.\<close>

datatype step_result = Stop "(execution_outcome, runtime_error) result" | Continue node_output

definition stop :: "'w run_result \<Rightarrow> 'w exec_state \<times> step_result" where
  "stop r = (fst r, Stop (snd r))"

definition run_node :: "graph_executor \<Rightarrow> intent_envelope \<Rightarrow> string \<Rightarrow> 'w node \<Rightarrow> outputs \<Rightarrow> 'w \<Rightarrow> 'w \<times> (node_output, runtime_error) result" where
  "run_node x i nid nd outs w =
     (if ge_shadow x \<and> is_write_class (nd_side_effect nd) then (w, Ok (shadow_output nid (nd_side_effect nd)))
      else nd_run nd w i outs)"

definition after_node ::
  "(json \<Rightarrow> string) \<Rightarrow> clock \<Rightarrow> graph_executor \<Rightarrow> intent_envelope \<Rightarrow> string \<Rightarrow> 'w node \<Rightarrow> u32 \<Rightarrow> u32 \<Rightarrow> outputs
     \<Rightarrow> node_output \<Rightarrow> 'w exec_state \<Rightarrow> 'w exec_state \<times> step_result" where
  "after_node to_string ck x i nid nd step writes outs out st =
     (let (b, charged) = charge (xs_budget st) (no_tokens out) (no_cost_usd out) (ck_elapsed ck step);
          st1 = st\<lparr>xs_budget := b\<rparr>
      in case charged of
           Inl e \<Rightarrow> stop (close_and_return ck i st1 Tr_Partial (Ok (PartialRun outs (step - 1) e)))
         | Inr _ \<Rightarrow>
             let post = engine_evaluate (ge_policy x) PostStep
                   (exec_context i b None (Some (to_string (no_data out))) (Some (nd_side_effect nd)) writes)
             in case post of
                  Deny vs \<Rightarrow> stop (close_and_return ck i st1 Tr_Failed (Err (RE_PolicyViolation vs)))
                | RequireApproval _ \<Rightarrow>
                    stop (close_and_return ck i st1 Tr_Partial (Ok (PendingApproval (AList.update nid out outs) step post)))
                | _ \<Rightarrow>
                    (case record_node_run ck i nid nd step out (xs_recorder st1) of
                       (r, Inl e) \<Rightarrow> (st1\<lparr>xs_recorder := r\<rparr>, Stop (Err (NodeErr (MsgRecorder e))))
                     | (r, Inr _) \<Rightarrow> (st1\<lparr>xs_recorder := r\<rparr>, Continue out)))"

definition step_node ::
  "(json \<Rightarrow> string) \<Rightarrow> clock \<Rightarrow> graph_executor \<Rightarrow> intent_envelope \<Rightarrow> string \<Rightarrow> 'w node \<Rightarrow> u32 \<Rightarrow> u32
     \<Rightarrow> 'w compensation_chain \<Rightarrow> string list \<Rightarrow> outputs \<Rightarrow> 'w exec_state \<Rightarrow> 'w exec_state \<times> step_result" where
  "step_node to_string ck x i nid nd step writes chain targets outs st =
     (let pre = engine_evaluate (ge_policy x) PreStep
            (exec_context i (xs_budget st) (Some (int_goal i)) None (Some (nd_side_effect nd)) writes)
      in case pre of
           Deny vs \<Rightarrow> stop (close_and_return ck i st Tr_Failed (Err (RE_PolicyViolation vs)))
         | RequireApproval _ \<Rightarrow> stop (close_and_return ck i st Tr_Partial (Ok (PendingApproval outs step pre)))
         | _ \<Rightarrow>
             (case run_node x i nid nd outs (xs_world st) of
                (w', Inl e) \<Rightarrow> stop (fail_step ck i chain targets step e (st\<lparr>xs_world := w'\<rparr>))
              | (w', Inr out) \<Rightarrow> after_node to_string ck x i nid nd step writes outs out (st\<lparr>xs_world := w'\<rparr>)))"

definition pre_artifact ::
  "clock \<Rightarrow> graph_executor \<Rightarrow> intent_envelope \<Rightarrow> u32 \<Rightarrow> u32 \<Rightarrow> outputs \<Rightarrow> 'w exec_state \<Rightarrow> 'w run_result" where
  "pre_artifact ck x i step writes outs st =
     (let d = engine_evaluate (ge_policy x) PreArtifact (exec_context i (xs_budget st) None None None writes)
      in case d of
           Deny vs \<Rightarrow> close_and_return ck i st Tr_Failed (Err (RE_PolicyViolation vs))
         | RequireApproval _ \<Rightarrow> close_and_return ck i st Tr_Partial (Ok (PendingApproval outs step d))
         | _ \<Rightarrow> close_and_return ck i st Tr_Completed (Ok (Completed outs step)))"

fun run_steps ::
  "(json \<Rightarrow> string) \<Rightarrow> clock \<Rightarrow> graph_executor \<Rightarrow> intent_envelope \<Rightarrow> 'w node graph \<Rightarrow> string list \<Rightarrow> u32 \<Rightarrow> u32
     \<Rightarrow> 'w compensation_chain \<Rightarrow> string list \<Rightarrow> outputs \<Rightarrow> 'w exec_state \<Rightarrow> 'w run_result" where
  "run_steps to_string ck x i g [] step writes chain targets outs st = pre_artifact ck x i step writes outs st"
| "run_steps to_string ck x i g (nid # rest) step writes chain targets outs st =
     (case map_of (gr_nodes g) nid of
        None \<Rightarrow> (st, Err (NodeErr (Msg (''missing node '' @ nid))))
      | Some nd \<Rightarrow>
          (case step_node to_string ck x i nid nd (step + 1) writes chain targets outs st of
             (st', Stop r) \<Rightarrow> (st', r)
           | (st', Continue out) \<Rightarrow>
               let write = is_write_class (nd_side_effect nd);
                   writes' = (if write then writes + 1 else writes);
                   (chain', targets') =
                     (case map_of (gr_compensators g) nid of
                        Some c \<Rightarrow> if write then (chain_push chain nid c, targets @ [nid]) else (chain, targets)
                      | None \<Rightarrow> (chain, targets))
               in run_steps to_string ck x i g rest (step + 1) writes' chain' targets' (AList.update nid out outs) st'))"

definition revocation_check :: "graph_executor \<Rightarrow> intent_envelope \<Rightarrow> bool" where
  "revocation_check x i =
     (case ge_revocation x of
        None \<Rightarrow> False
      | Some reg \<Rightarrow> let candidate = rq_user_id (int_requester i)
                    in starts_with candidate ''did:aaf:'' \<and> is_revoked reg RK_Did candidate)"

definition executor_run ::
  "(json \<Rightarrow> string) \<Rightarrow> clock \<Rightarrow> graph_executor \<Rightarrow> 'w node graph \<Rightarrow> intent_envelope \<Rightarrow> 'w exec_state \<Rightarrow> 'w run_result" where
  "executor_run to_string ck x g i st =
     (if revocation_check x i
      then (st, Err (RE_Revoked (rq_user_id (int_requester i)) ''revoked in revocation registry''))
      else let pre = engine_evaluate (ge_policy x) PrePlan
                 (exec_context i (xs_budget st) (Some (int_goal i)) None None 0)
           in case recorder_open (ck_open ck) (xs_recorder st) (int_trace_id i) (int_id i) of
                (r, Inl e) \<Rightarrow> (st\<lparr>xs_recorder := r\<rparr>, Err (NodeErr (MsgRecorder e)))
              | (r, Inr _) \<Rightarrow>
                  let st1 = st\<lparr>xs_recorder := r\<rparr>
                  in case pre of
                       Deny vs \<Rightarrow> close_and_return ck i st1 Tr_Failed (Err (RE_PolicyViolation vs))
                     | RequireApproval _ \<Rightarrow> close_and_return ck i st1 Tr_Partial (Ok (PendingApproval [] 0 pre))
                     | _ \<Rightarrow> run_steps to_string ck x i g (gr_order g) 0 0 [] [] [] st1)"

definition fetch_trace :: "'w exec_state \<Rightarrow> string \<Rightarrow> (execution_trace, runtime_error) result" where
  "fetch_trace st tid =
     (case recorder_get (xs_recorder st) tid of Inl e \<Rightarrow> Err (NodeErr (MsgRecorder e)) | Inr t \<Rightarrow> Ok t)"

section \<open>What it means to run nodes\<close>

text \<open>The reference for runs and rollbacks, apart from the executor and from the compensation chain: a list
  of named nodes runs when each in turn succeeds on the world its predecessors left, with the
  outputs so far. A node of a shadow run that would write is replaced by one that leaves the world alone
  and returns a marker.\<close>

inductive runs_all :: "intent_envelope \<Rightarrow> (string \<times> 'w node) list \<Rightarrow> outputs \<Rightarrow> 'w \<Rightarrow> outputs \<Rightarrow> 'w \<Rightarrow> bool" for i where
  none: "runs_all i [] outs w outs w"
| step: "nd_run nd w i outs = (w1, Ok out) \<Longrightarrow> runs_all i rest (AList.update n out outs) w1 outs' w'
    \<Longrightarrow> runs_all i ((n, nd) # rest) outs w outs' w'"

inductive_simps runs_all_Nil [simp]: "runs_all i [] outs w outs' w'"
inductive_simps runs_all_Cons: "runs_all i ((n, nd) # rest) outs w outs' w'"

definition shadow_node :: "string \<Rightarrow> 'w node \<Rightarrow> 'w node" where
  "shadow_node n nd = nd\<lparr>nd_run := (\<lambda>w _ _. (w, Ok \<lparr>no_data = json_object
     [(''shadow'', JBool True), (''would_have_run'', JString n),
      (''side_effect'', JString (case nd_side_effect nd of SE_Write \<Rightarrow> ''Write'' | SE_Delete \<Rightarrow> ''Delete''
         | SE_Send \<Rightarrow> ''Send'' | SE_Payment \<Rightarrow> ''Payment'' | SE_Read \<Rightarrow> ''Read'' | SE_None \<Rightarrow> ''None''))],
     no_tokens = 0, no_cost_usd = Fin 0, no_duration_ms = 0, no_model = None\<rparr>))\<rparr>"

definition planned_node :: "graph_executor \<Rightarrow> string \<Rightarrow> 'w node \<Rightarrow> 'w node" where
  "planned_node x n nd =
     (if ge_shadow x \<and> nd_side_effect nd \<in> {SE_Write, SE_Delete, SE_Send, SE_Payment} then shadow_node n nd else nd)"

definition planned :: "graph_executor \<Rightarrow> 'w node graph \<Rightarrow> string list \<Rightarrow> (string \<times> 'w node) list" where
  "planned x g ns = map (\<lambda>n. (n, planned_node x n (the (map_of (gr_nodes g) n)))) ns"

text \<open>The compensators a prefix of the execution order has earned, in execution order.\<close>

fun compensable :: "'w node graph \<Rightarrow> string list \<Rightarrow> 'w compensation_chain" where
  "compensable g [] = []"
| "compensable g (n # ns) =
     (case (map_of (gr_nodes g) n, map_of (gr_compensators g) n) of
        (Some nd, Some c) \<Rightarrow>
          if nd_side_effect nd \<in> {SE_Write, SE_Delete, SE_Send, SE_Payment} then (n, c) # compensable g ns else compensable g ns
      | _ \<Rightarrow> compensable g ns)"

lemma runs_all_determ: "runs_all i ns outs w outs1 w1 \<Longrightarrow> runs_all i ns outs w outs2 w2 \<Longrightarrow> outs1 = outs2 \<and> w1 = w2"
  by (induction arbitrary: outs2 w2 rule: runs_all.induct) (auto simp: runs_all_Cons)

lemma runs_all_snoc:
  "runs_all i ns outs w outs1 w1 \<Longrightarrow> nd_run nd w1 i outs1 = (w2, Ok out)
    \<Longrightarrow> runs_all i (ns @ [(n, nd)]) outs w (AList.update n out outs1) w2"
  by (induction rule: runs_all.induct) (auto simp: runs_all_Cons)

lemma run_node_planned: "run_node x i n nd outs w = nd_run (planned_node x n nd) w i outs"
  by (cases "nd_side_effect nd")
    (auto simp: run_node_def planned_node_def shadow_node_def is_write_class_def shadow_output_def node_output_default_def)

lemma planned_node_fails: "nd_run (planned_node x n nd) w i outs = (w', Err e) \<Longrightarrow> nd_run nd w i outs = (w', Err e)"
  by (simp add: planned_node_def shadow_node_def split: if_splits)

lemma planned_snoc:
  assumes "map_of (gr_nodes g) n = Some nd" "runs_all i (planned x g ns) outs w outs1 w1"
    and "run_node x i n nd outs1 w1 = (w2, Ok out)"
  shows "runs_all i (planned x g (ns @ [n])) outs w (AList.update n out outs1) w2"
  using runs_all_snoc[OF assms(2)] assms(1,3) by (simp add: planned_def run_node_planned)

text \<open>Where running a list stops: everything before ran, this node failed.\<close>

definition fails_at :: "intent_envelope \<Rightarrow> (string \<times> 'w node) list \<Rightarrow> outputs \<Rightarrow> 'w \<Rightarrow> string \<Rightarrow> runtime_error \<Rightarrow> 'w \<Rightarrow> bool" where
  "fails_at i ns outs w n e w' \<longleftrightarrow> (\<exists>ran nd rest outs1 w1. ns = ran @ (n, nd) # rest
     \<and> runs_all i ran outs w outs1 w1 \<and> nd_run nd w1 i outs1 = (w', Err e))"

lemma fails_at_Nil [simp]: "\<not> fails_at i [] outs w n e w'"
  by (simp add: fails_at_def)

lemma fails_at_head: "nd_run nd w i outs = (w', Err e) \<Longrightarrow> fails_at i ((n, nd) # rest) outs w n e w'"
  unfolding fails_at_def by (rule exI[of _ "[]"]) (auto intro: runs_all.none)

lemma fails_at_tail:
  assumes "nd_run nd w i outs = (w1, Ok out)" "fails_at i rest (AList.update n out outs) w1 m e w'"
  shows "fails_at i ((n, nd) # rest) outs w m e w'"
proof -
  obtain ran nd' rest' outs1 w2 where "rest = ran @ (m, nd') # rest'" "runs_all i ran (AList.update n out outs) w1 outs1 w2"
    "nd_run nd' w2 i outs1 = (w', Err e)" using assms(2) by (auto simp: fails_at_def)
  then show ?thesis unfolding fails_at_def
    using runs_all.step[OF assms(1)] by (intro exI[of _ "(n, nd) # ran"] exI[of _ nd'] exI[of _ rest'] exI[of _ outs1] exI[of _ w2]) simp
qed

text \<open>The loop of the compensation chain runs its stack, or stops where it fails.\<close>

lemma rollback_loop_runs:
  "rollback_loop i pops prior out w = (w', rest, q) \<Longrightarrow>
     (case q of Inr _ \<Rightarrow> \<exists>os. runs_all i pops prior w os w'
      | Inl e \<Rightarrow> \<exists>n e'. e = CompensationFailed n e' \<and> fails_at i pops prior w n e' w')"
proof (induction i pops prior out w rule: rollback_loop.induct)
  case (2 i n c rest' prior out w)
  obtain w1 r where c: "nd_run c w i prior = (w1, r)" by fastforce
  show ?case
  proof (cases r)
    case (Inl e)
    with 2(2) c show ?thesis by (auto intro: fails_at_head)
  next
    case (Inr o')
    with 2(2) c have "rollback_loop i rest' (AList.update n o' prior) (out @ [o']) w1 = (w', rest, q)" by simp
    from 2(1)[OF c[symmetric] Inr this] c Inr show ?thesis
      by (cases q) (simp add: runs_all_Cons, blast intro: fails_at_tail, auto simp: runs_all_Cons)
  qed
qed auto

section \<open>Closing and recording\<close>

abbreviation trace_of :: "intent_envelope \<Rightarrow> 'w exec_state \<Rightarrow> execution_trace option" where
  "trace_of i st \<equiv> rc_open (xs_recorder st) (int_trace_id i)"

lemma record_node_run_open:
  assumes "rc_open r (int_trace_id i) = Some t" "tr_status t = Tr_Running"
  shows "\<exists>r' s. record_node_run ck i nid nd step out r = (r', Ok ()) \<and> tst_node_id s = nid
    \<and> rc_open r' (int_trace_id i) = Some (trace_record t s)"
proof -
  obtain s where s: "record_node_run ck i nid nd step out r = record_step r s" "tst_node_id s = nid"
    "ob_trace_id (tst_observation s) = int_trace_id i"
    by (simp add: record_node_run_def record_observation_def step_observation_def)
  have "snd (record_step r s) = Ok ()" "rc_open (fst (record_step r s)) (int_trace_id i) = Some (trace_record t s)"
    using recorder.step_running[of r s t] assms s(3) by simp_all
  with s show ?thesis
    by (intro exI[of _ "fst (record_step r s)"] exI[of _ s]) (simp add: prod_eq_iff)
qed

text \<open>A closed trace keeps the steps recorded so far.\<close>

definition closed_as :: "execution_trace \<Rightarrow> trace_status \<Rightarrow> execution_trace option \<Rightarrow> bool" where
  "closed_as t status v \<longleftrightarrow> (\<exists>t'. v = Some t' \<and> tr_status t' = status \<and> tr_steps t' = tr_steps t)"

lemma close_and_return_open:
  assumes "trace_of i st = Some t"
  shows "snd (close_and_return ck i st status r) = r"
    and "xs_world (fst (close_and_return ck i st status r)) = xs_world st"
    and "xs_budget (fst (close_and_return ck i st status r)) = xs_budget st"
    and "closed_as t status (trace_of i (fst (close_and_return ck i st status r)))"
proof -
  obtain r' u where c: "recorder_close (ck_close ck) (xs_recorder st) (int_trace_id i) status = (r', u)" by fastforce
  then have "u = Ok ()" "rc_open r' (int_trace_id i) = Some (trace_close (ck_close ck) t status)"
    using recorder.close_law[OF assms, of "ck_close ck" status] by simp_all
  with c have e: "close_and_return ck i st status r = (st\<lparr>xs_recorder := r'\<rparr>, r)"
    and "closed_as t status (rc_open r' (int_trace_id i))"
    by (simp_all add: close_and_return_def close_trace_def closed_as_def trace_close_def)
  then show "snd (close_and_return ck i st status r) = r"
    "xs_world (fst (close_and_return ck i st status r)) = xs_world st"
    "xs_budget (fst (close_and_return ck i st status r)) = xs_budget st"
    "closed_as t status (trace_of i (fst (close_and_return ck i st status r)))" by simp_all
qed

text \<open>No hook of the engine denies a step or asks for approval.\<close>

definition permissive :: "graph_executor \<Rightarrow> bool" where
  "permissive x \<longleftrightarrow> (\<forall>hook ctx. is_allowed (engine_evaluate (ge_policy x) hook ctx))"

lemma not_permissive: "\<not> is_allowed (engine_evaluate (ge_policy x) hook ctx) \<Longrightarrow> \<not> permissive x"
  by (auto simp: permissive_def)

lemma not_permissive_decision:
  "engine_evaluate (ge_policy x) hook ctx = Deny vs \<Longrightarrow> \<not> permissive x"
  "engine_evaluate (ge_policy x) hook ctx = RequireApproval vs \<Longrightarrow> \<not> permissive x"
  by (auto intro!: not_permissive[of x hook ctx] simp: is_allowed_def)

definition within_budget :: "budget_tracker \<Rightarrow> bool" where
  "within_budget b \<longleftrightarrow> bt_used_tokens b \<le> max_tokens (bt_initial b) \<and> \<not> flt (max_cost_usd (bt_initial b)) (bt_used_cost b)
     \<and> bt_used_ms b \<le> max_latency_ms (bt_initial b)"

lemma charge_within: "snd (charge b t c m) = Ok () \<longleftrightarrow> within_budget (fst (charge b t c m))"
  by (auto simp: charge_def Let_def within_budget_def not_less)

section \<open>One step\<close>

lemma after_node_cases:
  assumes open_t: "trace_of i st = Some t" "tr_status t = Tr_Running"
    and "after_node to_string ck x i nid nd step writes outs out st = (st', sr)"
  shows "xs_world st' = xs_world st
    \<and> xs_budget st' = fst (charge (xs_budget st) (no_tokens out) (no_cost_usd out) (ck_elapsed ck step))
    \<and> ((\<exists>e. sr = Stop (Ok (PartialRun outs (step - 1) e)) \<and> \<not> within_budget (xs_budget st') \<and> closed_as t Tr_Partial (trace_of i st'))
      \<or> (\<exists>vs. sr = Stop (Err (RE_PolicyViolation vs)) \<and> \<not> permissive x \<and> within_budget (xs_budget st') \<and> closed_as t Tr_Failed (trace_of i st'))
      \<or> (\<exists>vs. sr = Stop (Ok (PendingApproval (AList.update nid out outs) step (RequireApproval vs))) \<and> \<not> permissive x
            \<and> within_budget (xs_budget st') \<and> closed_as t Tr_Partial (trace_of i st'))
      \<or> (\<exists>s. sr = Continue out \<and> within_budget (xs_budget st') \<and> tst_node_id s = nid \<and> trace_of i st' = Some (trace_record t s)))"
proof -
  obtain b c where c: "charge (xs_budget st) (no_tokens out) (no_cost_usd out) (ck_elapsed ck step) = (b, c)" by fastforce
  let ?st = "st\<lparr>xs_budget := b\<rparr>"
  have t: "trace_of i ?st = Some t" using open_t by simp
  note closed = close_and_return_open[OF t]
  have w: "within_budget b \<longleftrightarrow> c = Ok ()"
    using charge_within[of "xs_budget st" "no_tokens out" "no_cost_usd out" "ck_elapsed ck step"] by (simp add: c)
  obtain r' s where rec: "record_node_run ck i nid nd step out (xs_recorder st) = (r', Ok ())" "tst_node_id s = nid"
      "rc_open r' (int_trace_id i) = Some (trace_record t s)"
    using record_node_run_open[OF open_t, of ck nid nd step out] by auto
  show ?thesis
  proof (cases c)
    case (Inl e)
    with assms(3) have "st' = fst (close_and_return ck i ?st Tr_Partial (Ok (PartialRun outs (step - 1) e)))"
      "sr = Stop (Ok (PartialRun outs (step - 1) e))" by (auto simp: after_node_def c stop_def closed)
    with Inl w show ?thesis by (simp add: closed c)
  next
    case (Inr u)
    define post where "post = engine_evaluate (ge_policy x) PostStep
      (exec_context i b None (Some (to_string (no_data out))) (Some (nd_side_effect nd)) writes)"
    show ?thesis
    proof (cases post)
      case (Deny vs)
      then have "\<not> permissive x" unfolding post_def by (rule not_permissive_decision)
      from Deny assms(3) Inr have "st' = fst (close_and_return ck i ?st Tr_Failed (Err (RE_PolicyViolation vs)))"
        "sr = Stop (Err (RE_PolicyViolation vs))" by (auto simp: after_node_def c stop_def closed post_def)
      with Inr w \<open>\<not> permissive x\<close> show ?thesis by (simp add: closed c)
    next
      case (RequireApproval vs)
      then have np: "\<not> permissive x" unfolding post_def by (rule not_permissive_decision)
      from RequireApproval assms(3) Inr
      have "st' = fst (close_and_return ck i ?st Tr_Partial (Ok (PendingApproval (AList.update nid out outs) step post)))"
        "sr = Stop (Ok (PendingApproval (AList.update nid out outs) step post))"
        by (auto simp: after_node_def c stop_def closed post_def Let_def)
      with Inr w RequireApproval np show ?thesis by (simp add: closed c)
    next
      case Allow
      with assms(3) Inr rec w show ?thesis by (auto simp: after_node_def c post_def)
    next
      case (AllowWithWarnings vs)
      with assms(3) Inr rec w show ?thesis by (auto simp: after_node_def c post_def)
    qed
  qed
qed

lemma fail_step_cases:
  assumes "trace_of i st = Some t" "fail_step ck i chain targets step e st = (st', r)"
  shows "xs_budget st' = xs_budget st
    \<and> ((\<exists>n e'. r = Err (CompensationFailed n e') \<and> xs_recorder st' = xs_recorder st
            \<and> fails_at i (rev chain) [] (xs_world st) n e' (xs_world st'))
      \<or> (chain = [] \<and> r = Err e \<and> xs_world st' = xs_world st \<and> closed_as t Tr_Failed (trace_of i st'))
      \<or> (chain \<noteq> [] \<and> (\<exists>os. runs_all i (rev chain) [] (xs_world st) os (xs_world st'))
          \<and> closed_as t Tr_Failed (trace_of i st') \<and> r = (if targets \<noteq> [] then Ok (RolledBack step e targets) else Err e)))"
proof (cases "chain = []")
  case True
  then have f: "fail_step ck i chain targets step e st = close_and_return ck i st Tr_Failed (Err e)"
    by (simp add: fail_step_def executor_rollback_def)
  from close_and_return_open[OF assms(1), where ck = ck and status = Tr_Failed and r = "Err e"] assms(2) True show ?thesis
    unfolding f by simp
next
  case False
  obtain w' rest q where l: "rollback_loop i (rev chain) [] [] (xs_world st) = (w', rest, q)"
    by (metis prod_cases3)
  note ran = rollback_loop_runs[OF l]
  show ?thesis
  proof (cases q)
    case (Inl e')
    with ran assms(2) False l show ?thesis
      by (auto simp: fail_step_def executor_rollback_def chain_rollback_def)
  next
    case (Inr outs)
    let ?r = "if targets \<noteq> [] then Ok (RolledBack step e targets) else Err e"
    have f: "fail_step ck i chain targets step e st = close_and_return ck i (st\<lparr>xs_world := w'\<rparr>) Tr_Failed ?r"
      using False l Inr by (simp add: fail_step_def executor_rollback_def chain_rollback_def)
    have "trace_of i (st\<lparr>xs_world := w'\<rparr>) = Some t" using assms(1) by simp
    from close_and_return_open[OF this, where ck = ck and status = Tr_Failed and r = ?r] assms(2) have
      "r = ?r" "xs_world st' = w'" "xs_budget st' = xs_budget st" "closed_as t Tr_Failed (trace_of i st')"
      unfolding f by simp_all
    with False ran Inr show ?thesis by auto
  qed
qed

lemma step_node_cases:
  assumes "trace_of i st = Some t" "step_node to_string ck x i nid nd step writes chain targets outs st = (st', sr)"
  obtains
    (denied) vs where "sr = Stop (Err (RE_PolicyViolation vs))" "xs_world st' = xs_world st" "xs_budget st' = xs_budget st"
      "closed_as t Tr_Failed (trace_of i st')" "\<not> permissive x"
  | (gated) vs where "sr = Stop (Ok (PendingApproval outs step (RequireApproval vs)))" "xs_world st' = xs_world st"
      "xs_budget st' = xs_budget st" "closed_as t Tr_Partial (trace_of i st')" "\<not> permissive x"
  | (failed) w' e r where "is_allowed (engine_evaluate (ge_policy x) PreStep
        (exec_context i (xs_budget st) (Some (int_goal i)) None (Some (nd_side_effect nd)) writes))"
      "run_node x i nid nd outs (xs_world st) = (w', Err e)" "sr = Stop r"
      "fail_step ck i chain targets step e (st\<lparr>xs_world := w'\<rparr>) = (st', r)"
  | (ran) w' out where "is_allowed (engine_evaluate (ge_policy x) PreStep
        (exec_context i (xs_budget st) (Some (int_goal i)) None (Some (nd_side_effect nd)) writes))"
      "run_node x i nid nd outs (xs_world st) = (w', Ok out)"
      "after_node to_string ck x i nid nd step writes outs out (st\<lparr>xs_world := w'\<rparr>) = (st', sr)"
proof (cases "engine_evaluate (ge_policy x) PreStep
    (exec_context i (xs_budget st) (Some (int_goal i)) None (Some (nd_side_effect nd)) writes)")
  note closed = close_and_return_open[OF assms(1)]
  case (Deny vs)
  with assms(2) have "st' = fst (close_and_return ck i st Tr_Failed (Err (RE_PolicyViolation vs)))"
    "sr = Stop (Err (RE_PolicyViolation vs))" by (auto simp: step_node_def stop_def closed)
  moreover have "\<not> permissive x" using Deny by (rule not_permissive_decision)
  ultimately show ?thesis by (intro denied[of vs]) (simp_all add: closed)
next
  note closed = close_and_return_open[OF assms(1)]
  case (RequireApproval vs)
  with assms(2) have "st' = fst (close_and_return ck i st Tr_Partial (Ok (PendingApproval outs step (RequireApproval vs))))"
    "sr = Stop (Ok (PendingApproval outs step (RequireApproval vs)))" by (auto simp: step_node_def stop_def closed Let_def)
  moreover have "\<not> permissive x" using RequireApproval by (rule not_permissive_decision)
  ultimately show ?thesis by (intro gated[of vs]) (simp_all add: closed)
next
  case Allow
  obtain w' q where "run_node x i nid nd outs (xs_world st) = (w', q)" by fastforce
  with Allow assms(2) show ?thesis
    by (cases q) (auto simp: step_node_def is_allowed_def stop_def intro: failed ran)
next
  case (AllowWithWarnings vs)
  obtain w' q where "run_node x i nid nd outs (xs_world st) = (w', q)" by fastforce
  with AllowWithWarnings assms(2) show ?thesis
    by (cases q) (auto simp: step_node_def is_allowed_def stop_def intro: failed ran)
qed

section \<open>Whole runs\<close>

lemma run_steps_Cons:
  assumes "map_of (gr_nodes g) nid = Some nd"
    and "step_node to_string ck x i nid nd (step + 1) writes chain targets outs st = (st', sr)"
  shows "run_steps to_string ck x i g (nid # rest) step writes chain targets outs st =
    (case sr of Stop r \<Rightarrow> (st', r)
     | Continue out \<Rightarrow>
         run_steps to_string ck x i g rest (step + 1) (if is_write_class (nd_side_effect nd) then writes + 1 else writes)
           (if is_write_class (nd_side_effect nd) then (case map_of (gr_compensators g) nid of None \<Rightarrow> chain | Some c \<Rightarrow> chain @ [(nid, c)]) else chain)
           (if is_write_class (nd_side_effect nd) \<and> map_of (gr_compensators g) nid \<noteq> None then targets @ [nid] else targets)
           (AList.update nid out outs) st')"
  using assms by (auto simp: Let_def chain_push_def split: step_result.splits option.splits)

declare run_steps.simps(2) [simp del]

lemma fst_set_update: "fst ` set (AList.update k v xs) = insert k (fst ` set xs)"
  using dom_update[of k v xs] by (simp add: dom_map_of_conv_image_fst)

text \<open>What a finished run guarantees of its trace and, where it started within its budget, of the budget.\<close>

definition run_post :: "'w node graph \<Rightarrow> intent_envelope \<Rightarrow> budget_contract \<Rightarrow> bool \<Rightarrow> 'w run_result \<Rightarrow> bool" where
  "run_post g i b0 funded res \<longleftrightarrow> (case res of (st', r) \<Rightarrow>
     bt_initial (xs_budget st') = b0
     \<and> (funded \<longrightarrow> (within_budget (xs_budget st') \<longleftrightarrow> \<not> (\<exists>outs n e. r = Ok (PartialRun outs n e))))
     \<and> (\<exists>t. trace_of i st' = Some t
          \<and> (\<exists>k. map tst_node_id (tr_steps t) = take k (gr_order g))
          \<and> (tr_status t = Tr_Running \<longrightarrow> (\<exists>s e. r = Err (CompensationFailed s e)))
          \<and> (tr_status t = Tr_Completed \<longleftrightarrow> (\<exists>outs n. r = Ok (Completed outs n)))
          \<and> (\<forall>outs n. r = Ok (Completed outs n) \<longrightarrow> map tst_node_id (tr_steps t) = gr_order g
               \<and> fst ` set outs = set (gr_order g) \<and> n = of_nat (length (gr_order g)))))"

lemma run_post_closed:
  assumes "closed_as t status (trace_of i st')" "map tst_node_id (tr_steps t) = take k (gr_order g)"
    and "status \<in> {Tr_Failed, Tr_Partial}" "\<forall>outs n. r \<noteq> Ok (Completed outs n)"
    and "bt_initial (xs_budget st') = b0"
    and "funded \<longrightarrow> (within_budget (xs_budget st') \<longleftrightarrow> \<not> (\<exists>outs n e. r = Ok (PartialRun outs n e)))"
  shows "run_post g i b0 funded (st', r)"
  using assms by (auto simp: run_post_def closed_as_def)

lemma pre_artifact_post:
  assumes t: "trace_of i st = Some t" "map tst_node_id (tr_steps t) = gr_order g"
    and "fst ` set outs = set (gr_order g)" "funded \<longrightarrow> within_budget (xs_budget st)" "step = of_nat (length (gr_order g))"
  shows "run_post g i (bt_initial (xs_budget st)) funded (pre_artifact ck x i step writes outs st)"
proof -
  note closed = close_and_return_open[OF t(1)]
  have k: "map tst_node_id (tr_steps t) = take (length (gr_order g)) (gr_order g)" using t(2) by simp
  let ?d = "engine_evaluate (ge_policy x) PreArtifact (exec_context i (xs_budget st) None None None writes)"
  have stop: "run_post g i (bt_initial (xs_budget st)) funded (close_and_return ck i st status r)"
    if "status \<in> {Tr_Failed, Tr_Partial}" "\<forall>outs n. r \<noteq> Ok (Completed outs n)" "\<forall>outs n e. r \<noteq> Ok (PartialRun outs n e)" for status r
  proof -
    obtain st' r' where c: "close_and_return ck i st status r = (st', r')" by fastforce
    with closed[where ck = ck and status = status and r = r]
    have "r' = r" "xs_budget st' = xs_budget st" "closed_as t status (trace_of i st')" by simp_all
    with c that assms(4) show ?thesis by (simp add: run_post_closed[OF _ k])
  qed
  have fin: "run_post g i (bt_initial (xs_budget st)) funded (close_and_return ck i st Tr_Completed (Ok (Completed outs step)))"
  proof -
    obtain st' r where c: "close_and_return ck i st Tr_Completed (Ok (Completed outs step)) = (st', r)" by fastforce
    with closed[where ck = ck and status = Tr_Completed and r = "Ok (Completed outs step)"]
    have "r = Ok (Completed outs step)" "xs_budget st' = xs_budget st" "closed_as t Tr_Completed (trace_of i st')" by simp_all
    moreover have "\<exists>k. gr_order g = take k (gr_order g)" by (rule exI[of _ "length (gr_order g)"]) simp
    ultimately show ?thesis using c assms by (auto simp: run_post_def closed_as_def)
  qed
  show ?thesis
  proof (cases ?d)
    case Allow
    then show ?thesis using fin by (simp add: pre_artifact_def)
  next
    case (AllowWithWarnings vs)
    then show ?thesis using fin by (simp add: pre_artifact_def)
  next
    case (RequireApproval vs)
    then show ?thesis using stop by (simp add: pre_artifact_def Let_def)
  next
    case (Deny vs)
    then show ?thesis using stop by (simp add: pre_artifact_def)
  qed
qed

lemma run_steps_post:
  assumes "done @ order = gr_order g" "set order \<subseteq> fst ` set (gr_nodes g)"
    and "trace_of i st = Some t" "tr_status t = Tr_Running" "map tst_node_id (tr_steps t) = done"
    and "fst ` set outs = set done" "funded \<longrightarrow> within_budget (xs_budget st)" "step = of_nat (length done)"
  shows "run_post g i (bt_initial (xs_budget st)) funded (run_steps to_string ck x i g order step writes chain targets outs st)"
  using assms
proof (induction order arbitrary: "done" st t outs step writes chain targets)
  case Nil
  then show ?case by (simp add: pre_artifact_post)
next
  case (Cons nid rest)
  have "map_of (gr_nodes g) nid \<noteq> None" using Cons.prems(2) by (simp add: map_of_eq_None_iff)
  then obtain nd where nd: "map_of (gr_nodes g) nid = Some nd" by blast
  obtain st' sr where s: "step_node to_string ck x i nid nd (step + 1) writes chain targets outs st = (st', sr)" by fastforce
  have k: "map tst_node_id (tr_steps t) = take (length done) (gr_order g)"
    using Cons.prems(1,5) by (metis append_eq_conv_conj)
  note post = run_post_closed[OF _ k]
  note eq = run_steps_Cons[OF nd s, of rest]
  from Cons.prems(3) s show ?case
  proof (cases rule: step_node_cases)
    case (denied vs)
    with Cons.prems(7) show ?thesis unfolding eq by (simp add: post[of Tr_Failed])
  next
    case (gated vs)
    with Cons.prems(7) show ?thesis unfolding eq by (simp add: post[of Tr_Partial])
  next
    case (failed w' e r)
    have "trace_of i (st\<lparr>xs_world := w'\<rparr>) = Some t" using Cons.prems(3) by simp
    note c = fail_step_cases[OF this failed(4)]
    have "run_post g i (bt_initial (xs_budget st)) funded (st', r)"
    proof (cases "\<exists>s e'. r = Err (CompensationFailed s e') \<and> xs_recorder st' = xs_recorder st")
      case True
      with c Cons.prems(3,4,7) k show ?thesis by (auto simp: run_post_def)
    next
      case False
      with c Cons.prems(7) show ?thesis by (intro post[of Tr_Failed]) (auto split: if_splits)
    qed
    with failed(3) show ?thesis unfolding eq by simp
  next
    case (ran w' out)
    have t: "trace_of i (st\<lparr>xs_world := w'\<rparr>) = Some t" using Cons.prems(3) by simp
    note c = after_node_cases[OF t Cons.prems(4) ran(3)]
    have b: "bt_initial (xs_budget st') = bt_initial (xs_budget st)" using c by simp
    show ?thesis
    proof (cases sr)
      case (Stop r)
      with c b show ?thesis unfolding eq by (auto intro: post[of Tr_Partial] post[of Tr_Failed])
    next
      case (Continue o')
      with c obtain s where "o' = out" "within_budget (xs_budget st')" "tst_node_id s = nid" "trace_of i st' = Some (trace_record t s)"
        by auto
      with Cons.IH[of "done @ [nid]" st' "trace_record t s" "AList.update nid out outs" "step + 1"] Cons.prems b Continue
      show ?thesis unfolding eq by (simp add: trace_record_def fst_set_update)
    qed
  qed
qed

lemma recorder_open_trace:
  obtains r where "recorder_open now rec (int_trace_id i) iid = (r, Ok ())"
    "rc_open r (int_trace_id i) = Some (trace_open now (int_trace_id i) iid)"
  using recorder.open_law[of now rec "int_trace_id i" iid]
  by (cases "recorder_open now rec (int_trace_id i) iid") simp

text \<open>A run that is not refused for revocation opens its trace, and then is stopped by the first hook or
  runs the steps.\<close>

lemma executor_run_unfold:
  assumes "\<not> revocation_check x i"
  obtains r where "rc_open r (int_trace_id i) = Some (trace_open (ck_open ck) (int_trace_id i) (int_id i))"
    "(\<exists>vs. executor_run to_string ck x g i st = close_and_return ck i (st\<lparr>xs_recorder := r\<rparr>) Tr_Failed (Err (RE_PolicyViolation vs)))
     \<or> (\<exists>vs. executor_run to_string ck x g i st =
            close_and_return ck i (st\<lparr>xs_recorder := r\<rparr>) Tr_Partial (Ok (PendingApproval [] 0 (RequireApproval vs))))
     \<or> executor_run to_string ck x g i st = run_steps to_string ck x i g (gr_order g) 0 0 [] [] [] (st\<lparr>xs_recorder := r\<rparr>)"
proof -
  obtain r where r: "recorder_open (ck_open ck) (xs_recorder st) (int_trace_id i) (int_id i) = (r, Ok ())"
    "rc_open r (int_trace_id i) = Some (trace_open (ck_open ck) (int_trace_id i) (int_id i))"
    by (rule recorder_open_trace)
  let ?pre = "engine_evaluate (ge_policy x) PrePlan (exec_context i (xs_budget st) (Some (int_goal i)) None None 0)"
  show ?thesis
    by (rule that[OF r(2)]) (cases ?pre; auto simp: executor_run_def assms r(1) Let_def)
qed

lemma executor_run_post:
  assumes "set (gr_order g) \<subseteq> fst ` set (gr_nodes g)" "funded \<longrightarrow> within_budget (xs_budget st)" "\<not> revocation_check x i"
  shows "run_post g i (bt_initial (xs_budget st)) funded (executor_run to_string ck x g i st)"
proof -
  obtain r where r: "rc_open r (int_trace_id i) = Some (trace_open (ck_open ck) (int_trace_id i) (int_id i))" and
    run: "(\<exists>vs. executor_run to_string ck x g i st = close_and_return ck i (st\<lparr>xs_recorder := r\<rparr>) Tr_Failed (Err (RE_PolicyViolation vs)))
     \<or> (\<exists>vs. executor_run to_string ck x g i st =
            close_and_return ck i (st\<lparr>xs_recorder := r\<rparr>) Tr_Partial (Ok (PendingApproval [] 0 (RequireApproval vs))))
     \<or> executor_run to_string ck x g i st = run_steps to_string ck x i g (gr_order g) 0 0 [] [] [] (st\<lparr>xs_recorder := r\<rparr>)"
    by (rule executor_run_unfold[OF assms(3)])
  let ?st = "st\<lparr>xs_recorder := r\<rparr>" and ?t = "trace_open (ck_open ck) (int_trace_id i) (int_id i)"
  have t: "trace_of i ?st = Some ?t" using r by simp
  have k: "map tst_node_id (tr_steps ?t) = take 0 (gr_order g)" by (simp add: trace_open_def)
  have stop: "run_post g i (bt_initial (xs_budget st)) funded (close_and_return ck i ?st status res)"
    if "status \<in> {Tr_Failed, Tr_Partial}" "\<forall>outs n. res \<noteq> Ok (Completed outs n)" "\<forall>outs n e. res \<noteq> Ok (PartialRun outs n e)" for status res
  proof -
    obtain st' r' where c: "close_and_return ck i ?st status res = (st', r')" by fastforce
    with close_and_return_open[OF t, where ck = ck and status = status and r = res]
    have "r' = res" "xs_budget st' = xs_budget st" "closed_as ?t status (trace_of i st')" by simp_all
    with c that assms(2) show ?thesis by (simp add: run_post_closed[OF _ k])
  qed
  have steps: "run_post g i (bt_initial (xs_budget st)) funded (run_steps to_string ck x i g (gr_order g) 0 0 [] [] [] ?st)"
    using run_steps_post[of "[]" "gr_order g" g ?st i ?t "[]" funded 0] t assms by (simp add: trace_open_def)
  from run stop steps show ?thesis by auto
qed

section \<open>Concrete runs\<close>

text \<open>A world that is the log of what nodes did, a read, a write and a failing node over it.\<close>

definition ex_log_node :: "string \<Rightarrow> side_effect \<Rightarrow> nat \<Rightarrow> nat list node" where
  "ex_log_node i se k = deterministic_node 1 i se (\<lambda>w _ _. (w @ [k], Ok JNull))"

definition ex_fail_node :: "string \<Rightarrow> nat list node" where
  "ex_fail_node i = deterministic_node 1 i SE_Read (\<lambda>w _ _. (w, Err (NodeErr (Msg ''boom''))))"

definition ex_graph :: "nat list node graph" where
  "ex_graph = \<lparr>gr_nodes = [(''a'', ex_log_node ''a'' SE_Read 1)], gr_edges = [], gr_order = [''a''], gr_compensators = []\<rparr>"

definition ex_saga_graph :: "nat list node graph" where
  "ex_saga_graph = \<lparr>gr_nodes = [(''w'', ex_log_node ''w'' SE_Write 1), (''x'', ex_fail_node ''x'')],
     gr_edges = [(''w'', ''x'')], gr_order = [''w'', ''x''],
     gr_compensators = [(''w'', ex_log_node ''undo'' SE_Write 2)]\<rparr>"

definition ex_clock :: clock where
  "ex_clock = \<lparr>ck_open = 0, ck_step = (\<lambda>_. 1), ck_close = 2, ck_elapsed = (\<lambda>_. 5)\<rparr>"

definition ex_state :: "'w \<Rightarrow> 'w exec_state" where
  "ex_state w = \<lparr>xs_world = w, xs_recorder = recorder_in_memory, xs_budget = budget_tracker_new ex_budget\<rparr>"

lemma ex_state_within: "within_budget (xs_budget (ex_state w))"
  by (simp add: ex_state_def within_budget_def budget_tracker_new_def ex_defs)

text \<open>C18. Every run is traced: over a validated graph and from any budget, a run that is not refused for revocation leaves a
  trace whose recorded steps are a prefix of the execution order; the trace is closed unless a
  compensation failed, it is closed as completed exactly when the run reports completion, and then
  every node of the graph has its observation and its output.\<close>

theorem executor_run_traced:
  assumes "set (gr_order g) \<subseteq> fst ` set (gr_nodes g)" "\<not> revocation_check x i"
    and "executor_run to_string ck x g i st = (st', r)"
  shows "\<exists>t. rc_open (xs_recorder st') (int_trace_id i) = Some t
    \<and> (\<exists>k. map tst_node_id (tr_steps t) = take k (gr_order g))
    \<and> (tr_status t = Tr_Running \<longrightarrow> (\<exists>s e. r = Err (CompensationFailed s e)))
    \<and> (tr_status t = Tr_Completed \<longleftrightarrow> (\<exists>outs n. r = Ok (Completed outs n)))
    \<and> (\<forall>outs n. r = Ok (Completed outs n) \<longrightarrow> map tst_node_id (tr_steps t) = gr_order g
         \<and> fst ` set outs = set (gr_order g) \<and> n = of_nat (length (gr_order g)))"
  using executor_run_post[OF assms(1) _ assms(2), of False st to_string ck] unfolding assms(3) run_post_def by auto

lemmas run_defs = executor_run_def revocation_check_def executor_new_def engine_evaluate_def decide_def recorder_open_def
  run_steps.simps step_node_def run_node_def is_write_class_def after_node_def charge_def budget_tracker_new_def
  saturating_add_def record_node_run_def record_observation_def record_step_def notify_subscribers_def
  step_observation_def trace_open_def pre_artifact_def close_and_return_def close_trace_def recorder_close_def
  trace_record_def node_output_default_def stop_def

lemmas ex_run_defs = ex_state_def ex_graph_def ex_saga_graph_def ex_log_node_def ex_fail_node_def
  deterministic_node_def ex_clock_def ex_defs

theorem executor_run_traced_witness:
  "\<exists>t st'. executor_run (\<lambda>_. []) ex_clock (executor_new []) ex_graph ex_intent (ex_state []) =
       (st', Ok (Completed [(''a'', node_output_default\<lparr>no_duration_ms := 1\<rparr>)] 1))
     \<and> rc_open (xs_recorder st') ''trace-1'' = Some t \<and> tr_status t = Tr_Completed \<and> map tst_node_id (tr_steps t) = [''a'']"
proof -
  let ?run = "executor_run (\<lambda>_. []) ex_clock (executor_new []) ex_graph ex_intent (ex_state [])"
  let ?r = "Ok (Completed [(''a'', node_output_default\<lparr>no_duration_ms := 1\<rparr>)] 1)"
  have r: "snd ?run = ?r" by (simp add: run_defs ex_run_defs Let_def)
  then have run: "?run = (fst ?run, ?r)" by (simp add: prod_eq_iff)
  have g: "set (gr_order ex_graph) \<subseteq> fst ` set (gr_nodes ex_graph)" "gr_order ex_graph = [''a'']"
    by (simp_all add: ex_graph_def)
  have "\<not> revocation_check (executor_new []) ex_intent" by (simp add: revocation_check_def executor_new_def)
  from executor_run_traced[OF g(1) this run] obtain t where
    t: "rc_open (xs_recorder (fst ?run)) (int_trace_id ex_intent) = Some t"
      "tr_status t = Tr_Completed \<longleftrightarrow> (\<exists>outs n. ?r = Ok (Completed outs n))"
      "\<forall>outs n. ?r = Ok (Completed outs n) \<longrightarrow> map tst_node_id (tr_steps t) = gr_order ex_graph" by blast
  have "int_trace_id ex_intent = ''trace-1''" by (simp add: ex_intent_def)
  with t g(2) run show ?thesis by (intro exI[of _ t] exI[of _ "fst ?run"] conjI) simp_all
qed

text \<open>C19. The budget is enforced: a run that starts within its budget reports exhaustion exactly when the
  tracker ends over one of its three limits; every other outcome, completion included, leaves the
  tokens, the cost and the time used within the limits, which the run never changes.\<close>

theorem executor_run_budgeted:
  assumes "set (gr_order g) \<subseteq> fst ` set (gr_nodes g)" "within_budget (xs_budget st)" "\<not> revocation_check x i"
    and "executor_run to_string ck x g i st = (st', r)"
  shows "bt_initial (xs_budget st') = bt_initial (xs_budget st)
    \<and> ((\<exists>outs n e. r = Ok (PartialRun outs n e)) \<longleftrightarrow>
         bt_used_tokens (xs_budget st') > max_tokens (bt_initial (xs_budget st))
         \<or> flt (max_cost_usd (bt_initial (xs_budget st))) (bt_used_cost (xs_budget st'))
         \<or> bt_used_ms (xs_budget st') > max_latency_ms (bt_initial (xs_budget st)))"
  using executor_run_post[OF assms(1) _ assms(3), of True st to_string ck] assms(2) unfolding assms(4) run_post_def
  by (auto simp: within_budget_def)

definition ex_tight_state :: "nat list exec_state" where
  "ex_tight_state = \<lparr>xs_world = [], xs_recorder = recorder_in_memory,
     xs_budget = budget_tracker_new (ex_budget\<lparr>max_latency_ms := 4\<rparr>)\<rparr>"

theorem executor_run_budgeted_witness:
  "(\<exists>outs n e. snd (executor_run (\<lambda>_. []) ex_clock (executor_new []) ex_graph ex_intent ex_tight_state) = Ok (PartialRun outs n e))
   \<and> bt_used_ms (xs_budget (fst (executor_run (\<lambda>_. []) ex_clock (executor_new []) ex_graph ex_intent ex_tight_state))) = 5"
proof -
  let ?run = "executor_run (\<lambda>_. []) ex_clock (executor_new []) ex_graph ex_intent ex_tight_state"
  have g: "set (gr_order ex_graph) \<subseteq> fst ` set (gr_nodes ex_graph)" by (simp add: ex_graph_def)
  have b: "within_budget (xs_budget ex_tight_state)" "max_latency_ms (bt_initial (xs_budget ex_tight_state)) = 4"
    by (simp_all add: within_budget_def budget_tracker_new_def ex_tight_state_def ex_defs)
  have r: "\<not> revocation_check (executor_new []) ex_intent" by (simp add: revocation_check_def executor_new_def)
  have ms: "bt_used_ms (xs_budget (fst ?run)) = 5"
    by (simp add: executor_run_def revocation_check_def executor_new_def recorder_open_def run_steps.simps(2)
        step_node_def run_node_def after_node_def charge_def budget_tracker_new_def saturating_add_def record_node_run_def
        record_observation_def record_step_def notify_subscribers_def step_observation_def trace_open_def pre_artifact_def
        close_and_return_def close_trace_def recorder_close_def trace_record_def stop_def engine_evaluate_def decide_def
        node_output_default_def ex_clock_def Let_def is_write_class_def ex_tight_state_def ex_graph_def ex_log_node_def
        deterministic_node_def recorder_in_memory_def ex_defs)
  with executor_run_budgeted[OF g b(1) r surjective_pairing, of "\<lambda>_. []" ex_clock] b(2) show ?thesis by simp
qed

section \<open>Writes are gated\<close>

lemma gated_node:
  assumes "ge_policy x = with_default_rules is_match" "''auto-approve'' \<notin> set (rq_scopes (int_requester i))"
    and "is_allowed (engine_evaluate (ge_policy x) PreStep (exec_context i b p out (Some (nd_side_effect nd)) writes))"
  shows "\<not> is_write_class (nd_side_effect nd)"
proof
  assume "is_write_class (nd_side_effect nd)"
  then have "\<not> is_allowed (engine_evaluate (with_default_rules is_match) PreStep (exec_context i b p out (Some (nd_side_effect nd)) writes))"
    using assms(2) by (intro default_gate[where se = "nd_side_effect nd"]) (simp_all add: effective_side_effect_def exec_context_def)
  with assms(1,3) show False by simp
qed

lemma run_steps_gated:
  assumes pol: "ge_policy x = with_default_rules is_match" "''auto-approve'' \<notin> set (rq_scopes (int_requester i))"
    and keeps: "\<And>n nd w outs. map_of (gr_nodes g) n = Some nd \<Longrightarrow> \<not> is_write_class (nd_side_effect nd) \<Longrightarrow> I w \<Longrightarrow> I (fst (nd_run nd w i outs))"
    and "trace_of i st = Some t" "tr_status t = Tr_Running" "I (xs_world st)" "set order \<subseteq> fst ` set (gr_nodes g)"
    and "run_steps to_string ck x i g order step writes [] [] outs st = (st', r)"
  shows "I (xs_world st') \<and> (\<forall>outs n. r = Ok (Completed outs n) \<longrightarrow>
    (\<forall>k nd. k \<in> set order \<longrightarrow> map_of (gr_nodes g) k = Some nd \<longrightarrow> \<not> is_write_class (nd_side_effect nd)))"
  using assms(4-)
proof (induction order arbitrary: st t outs step writes)
  case Nil
  note closed = close_and_return_open[OF Nil(1)]
  from Nil(5) have "xs_world st' = xs_world st"
    by (auto simp: pre_artifact_def Let_def closed dest!: arg_cong[where f = fst] split: policy_decision.splits)
  with Nil(3) show ?case by simp
next
  case (Cons nid rest)
  have "map_of (gr_nodes g) nid \<noteq> None" using Cons.prems(4) by (simp add: map_of_eq_None_iff)
  then obtain nd where nd: "map_of (gr_nodes g) nid = Some nd" by blast
  obtain st1 sr where s: "step_node to_string ck x i nid nd (step + 1) writes [] [] outs st = (st1, sr)" by fastforce
  note eq = run_steps_Cons[OF nd s, of rest]
  have runs: "I w1" if "run_node x i nid nd outs (xs_world st) = (w1, q)" "\<not> is_write_class (nd_side_effect nd)" for w1 q
    using keeps[OF nd that(2) Cons.prems(3), of outs] that by (auto simp: run_node_def)
  from Cons.prems(1) s show ?case
  proof (cases rule: step_node_cases)
    case (denied vs)
    with Cons.prems(3,5) show ?thesis unfolding eq by auto
  next
    case (gated vs)
    with Cons.prems(3,5) show ?thesis unfolding eq by auto
  next
    case (failed w1 e r1)
    have "I w1" using runs[OF failed(2)] gated_node[OF pol failed(1)] by blast
    moreover have "trace_of i (st\<lparr>xs_world := w1\<rparr>) = Some t" using Cons.prems(1) by simp
    ultimately show ?thesis
      using fail_step_cases[OF _ failed(4)] failed(3) Cons.prems(5) unfolding eq by auto
  next
    case (ran w1 out)
    have w: "\<not> is_write_class (nd_side_effect nd)" using gated_node[OF pol ran(1)] .
    have "I w1" using runs[OF ran(2)] w by blast
    have t: "trace_of i (st\<lparr>xs_world := w1\<rparr>) = Some t" using Cons.prems(1) by simp
    note c = after_node_cases[OF t Cons.prems(2) ran(3)]
    then have I1: "I (xs_world st1)" using \<open>I w1\<close> by simp
    show ?thesis
    proof (cases sr)
      case (Stop r1)
      with c I1 Cons.prems(5) show ?thesis unfolding eq by auto
    next
      case (Continue o')
      with c obtain s where s1: "o' = out" "trace_of i st1 = Some (trace_record t s)" by auto
      have "tr_status (trace_record t s) = Tr_Running" using Cons.prems(2) by (simp add: trace_record_def)
      moreover have "run_steps to_string ck x i g rest (step + 1) writes [] [] (AList.update nid out outs) st1 = (st', r)"
        using Cons.prems(5) Continue s1 w unfolding eq by simp
      ultimately show ?thesis
        using Cons.IH[OF s1(2) _ I1, of "step + 1" writes "AList.update nid out outs"] Cons.prems(4) w nd by auto
    qed
  qed
qed

text \<open>C2. With the default rules, no write happens without a human: for a requester without the
  \<open>auto-approve\<close> scope, a run changes the world only through nodes that are not write-class, so
  whatever those preserve is preserved by the run, whatever the write nodes and the compensators
  would do; and a graph that contains a write node never completes.\<close>

theorem executor_never_writes_ungated:
  assumes "ge_policy x = with_default_rules is_match" "''auto-approve'' \<notin> set (rq_scopes (int_requester i))"
    and "\<And>n nd w outs. map_of (gr_nodes g) n = Some nd \<Longrightarrow> \<not> is_write_class (nd_side_effect nd) \<Longrightarrow> I w \<Longrightarrow> I (fst (nd_run nd w i outs))"
    and "set (gr_order g) \<subseteq> fst ` set (gr_nodes g)" "I (xs_world st)"
    and "executor_run to_string ck x g i st = (st', r)"
  shows "I (xs_world st') \<and> (\<forall>outs n. r = Ok (Completed outs n) \<longrightarrow>
    (\<forall>k nd. k \<in> set (gr_order g) \<longrightarrow> map_of (gr_nodes g) k = Some nd \<longrightarrow> \<not> is_write_class (nd_side_effect nd)))"
proof (cases "revocation_check x i")
  case True
  with assms(5,6) show ?thesis by (auto simp: executor_run_def)
next
  case False
  obtain rec where rec: "rc_open rec (int_trace_id i) = Some (trace_open (ck_open ck) (int_trace_id i) (int_id i))" and
    run: "(\<exists>vs. executor_run to_string ck x g i st = close_and_return ck i (st\<lparr>xs_recorder := rec\<rparr>) Tr_Failed (Err (RE_PolicyViolation vs)))
     \<or> (\<exists>vs. executor_run to_string ck x g i st =
            close_and_return ck i (st\<lparr>xs_recorder := rec\<rparr>) Tr_Partial (Ok (PendingApproval [] 0 (RequireApproval vs))))
     \<or> executor_run to_string ck x g i st = run_steps to_string ck x i g (gr_order g) 0 0 [] [] [] (st\<lparr>xs_recorder := rec\<rparr>)"
    by (rule executor_run_unfold[OF False])
  let ?st = "st\<lparr>xs_recorder := rec\<rparr>" and ?t = "trace_open (ck_open ck) (int_trace_id i) (int_id i)"
  have t: "trace_of i ?st = Some ?t" using rec by simp
  note closed = close_and_return_open[OF t]
  from run show ?thesis
  proof (elim disjE exE)
    fix vs assume "executor_run to_string ck x g i st = close_and_return ck i ?st Tr_Failed (Err (RE_PolicyViolation vs))"
    with assms(5,6) closed[where ck = ck and status = Tr_Failed and r = "Err (RE_PolicyViolation vs)"] show ?thesis by simp
  next
    fix vs assume "executor_run to_string ck x g i st = close_and_return ck i ?st Tr_Partial (Ok (PendingApproval [] 0 (RequireApproval vs)))"
    with assms(5,6) closed[where ck = ck and status = Tr_Partial and r = "Ok (PendingApproval [] 0 (RequireApproval vs))"]
    show ?thesis by simp
  next
    assume "executor_run to_string ck x g i st = run_steps to_string ck x i g (gr_order g) 0 0 [] [] [] ?st"
    with assms(6) have "run_steps to_string ck x i g (gr_order g) 0 0 [] [] [] ?st = (st', r)" by simp
    from run_steps_gated[where I = I, OF assms(1,2) _ t _ _ assms(4) this] assms(3,5) show ?thesis
      by (simp add: trace_open_def)
  qed
qed

theorem executor_never_writes_ungated_witness:
  "xs_world (fst (executor_run (\<lambda>_. []) ex_clock (executor_new (with_default_rules (\<lambda>_ _. False))) ex_saga_graph ex_intent (ex_state []))) = []"
proof -
  let ?run = "executor_run (\<lambda>_. []) ex_clock (executor_new (with_default_rules (\<lambda>_ _. False))) ex_saga_graph ex_intent (ex_state [])"
  have "xs_world (fst ?run) = [] \<and> (\<forall>outs n. snd ?run = Ok (Completed outs n) \<longrightarrow>
    (\<forall>k nd. k \<in> set (gr_order ex_saga_graph) \<longrightarrow> map_of (gr_nodes ex_saga_graph) k = Some nd \<longrightarrow> \<not> is_write_class (nd_side_effect nd)))"
    by (rule executor_never_writes_ungated[where I = "\<lambda>w. w = []" and is_match = "\<lambda>_ _. False"])
      (auto simp: executor_new_def ex_defs ex_saga_graph_def ex_state_def ex_log_node_def ex_fail_node_def
        deterministic_node_def is_write_class_def split: if_splits)
  then show ?thesis by simp
qed

section \<open>Rollback\<close>

lemma compensable_append: "compensable g (xs @ ys) = compensable g xs @ compensable g ys"
  by (induction xs) (auto split: option.splits)

text \<open>After a step that continues, the loop goes on with the compensators of one more node.\<close>

lemma run_steps_continue:
  assumes "map_of (gr_nodes g) nid = Some nd"
    and "step_node to_string ck x i nid nd (step + 1) writes (compensable g done) (map fst (compensable g done)) outs st
      = (st1, Continue out)"
    and "run_steps to_string ck x i g (nid # rest) step writes (compensable g done) (map fst (compensable g done)) outs st = res"
  shows "run_steps to_string ck x i g rest (step + 1) (if is_write_class (nd_side_effect nd) then writes + 1 else writes)
    (compensable g (done @ [nid])) (map fst (compensable g (done @ [nid]))) (AList.update nid out outs) st1 = res"
proof -
  let ?chain = "compensable g done"
  have ch: "compensable g (done @ [nid]) =
      (if is_write_class (nd_side_effect nd) then (case map_of (gr_compensators g) nid of None \<Rightarrow> ?chain | Some c \<Rightarrow> ?chain @ [(nid, c)]) else ?chain)"
    by (simp add: compensable_append assms(1) is_write_class_def split: option.splits)
  have tg: "map fst (compensable g (done @ [nid])) =
      (if is_write_class (nd_side_effect nd) \<and> map_of (gr_compensators g) nid \<noteq> None then map fst ?chain @ [nid] else map fst ?chain)"
    by (simp add: ch split: option.splits)
  show ?thesis using run_steps_Cons[OF assms(1,2), of rest] assms(3) unfolding tg unfolding ch by simp
qed

text \<open>The node after the prefix \<open>pre\<close> of the order failed, on the world and with the outputs that running
  the prefix gives.\<close>

definition stopped_at :: "graph_executor \<Rightarrow> 'w node graph \<Rightarrow> intent_envelope \<Rightarrow> 'w \<Rightarrow> string list \<Rightarrow> runtime_error \<Rightarrow> 'w \<Rightarrow> bool" where
  "stopped_at x g i w pre e w' \<longleftrightarrow> (\<exists>n nd rest outs w1. gr_order g = pre @ n # rest \<and> map_of (gr_nodes g) n = Some nd
     \<and> runs_all i (planned x g pre) [] w outs w1 \<and> nd_run nd w1 i outs = (w', Err e))"

text \<open>The ways a run can end, from the world \<open>w\<close>.\<close>

definition run_exhausted :: "graph_executor \<Rightarrow> 'w node graph \<Rightarrow> intent_envelope \<Rightarrow> 'w \<Rightarrow> 'w run_result \<Rightarrow> bool" where
  "run_exhausted x g i w res \<longleftrightarrow> (\<exists>pre n rest outs w1 outs1 e. gr_order g = pre @ n # rest
     \<and> runs_all i (planned x g pre) [] w outs w1 \<and> runs_all i (planned x g (pre @ [n])) [] w outs1 (xs_world (fst res))
     \<and> snd res = Ok (PartialRun outs (of_nat (length pre)) e) \<and> \<not> within_budget (xs_budget (fst res)))"

definition run_completed :: "graph_executor \<Rightarrow> 'w node graph \<Rightarrow> intent_envelope \<Rightarrow> 'w \<Rightarrow> 'w run_result \<Rightarrow> bool" where
  "run_completed x g i w res \<longleftrightarrow> (\<exists>outs. runs_all i (planned x g (gr_order g)) [] w outs (xs_world (fst res))
     \<and> snd res = Ok (Completed outs (of_nat (length (gr_order g)))))"

definition run_undone :: "graph_executor \<Rightarrow> 'w node graph \<Rightarrow> intent_envelope \<Rightarrow> 'w \<Rightarrow> 'w run_result \<Rightarrow> bool" where
  "run_undone x g i w res \<longleftrightarrow> (\<exists>pre e w1. stopped_at x g i w pre e w1
     \<and> (compensable g pre = [] \<and> snd res = Err e \<and> xs_world (fst res) = w1
      \<or> compensable g pre \<noteq> [] \<and> (\<exists>os. runs_all i (rev (compensable g pre)) [] w1 os (xs_world (fst res)))
          \<and> snd res = Ok (RolledBack (of_nat (length pre) + 1) e (map fst (compensable g pre)))
      \<or> (\<exists>n e'. fails_at i (rev (compensable g pre)) [] w1 n e' (xs_world (fst res)) \<and> snd res = Err (CompensationFailed n e'))))"

definition run_refused :: "graph_executor \<Rightarrow> 'w run_result \<Rightarrow> bool" where
  "run_refused x res \<longleftrightarrow> \<not> permissive x
     \<and> ((\<exists>vs. snd res = Err (RE_PolicyViolation vs)) \<or> (\<exists>outs k d. snd res = Ok (PendingApproval outs k d)))"

lemmas run_end_defs = run_exhausted_def run_completed_def run_undone_def run_refused_def

lemma pre_artifact_ends:
  assumes "trace_of i st = Some t" "step = of_nat (length (gr_order g))"
    and "runs_all i (planned x g (gr_order g)) [] w outs (xs_world st)"
  shows "run_completed x g i w (pre_artifact ck x i step writes outs st) \<or> run_refused x (pre_artifact ck x i step writes outs st)"
proof (cases "is_allowed (engine_evaluate (ge_policy x) PreArtifact (exec_context i (xs_budget st) None None None writes))")
  note closed = close_and_return_open(1,2)[OF assms(1)]
  case True
  then have "pre_artifact ck x i step writes outs st = close_and_return ck i st Tr_Completed (Ok (Completed outs step))"
    by (auto simp: pre_artifact_def Let_def is_allowed_def split: policy_decision.splits)
  with assms(2,3) show ?thesis by (simp add: run_completed_def closed)
next
  note closed = close_and_return_open(1,2)[OF assms(1)]
  case False
  then have "run_refused x (pre_artifact ck x i step writes outs st)"
    using not_permissive[OF False] by (auto simp: run_refused_def pre_artifact_def Let_def is_allowed_def closed split: policy_decision.splits)
  then show ?thesis by simp
qed

lemma run_steps_ends:
  assumes "done @ order = gr_order g" "set order \<subseteq> fst ` set (gr_nodes g)"
    and "trace_of i st = Some t" "tr_status t = Tr_Running" "step = of_nat (length done)"
    and "runs_all i (planned x g done) [] w outs (xs_world st)"
    and "run_steps to_string ck x i g order step writes (compensable g done) (map fst (compensable g done)) outs st = res"
  shows "run_completed x g i w res \<or> run_exhausted x g i w res \<or> run_undone x g i w res \<or> run_refused x res"
  using assms
proof (induction order arbitrary: "done" st t outs step writes)
  case Nil
  then show ?case using pre_artifact_ends[OF Nil(3), of step g x w outs ck writes] by auto
next
  case (Cons n rest)
  have "map_of (gr_nodes g) n \<noteq> None" using Cons.prems(2) by (simp add: map_of_eq_None_iff)
  then obtain nd where nd: "map_of (gr_nodes g) n = Some nd" by blast
  let ?chain = "compensable g done"
  obtain st1 sr where s: "step_node to_string ck x i n nd (step + 1) writes ?chain (map fst ?chain) outs st = (st1, sr)" by fastforce
  note eq = Cons.prems(7)[unfolded run_steps_Cons[OF nd s], symmetric]
  from Cons.prems(3) s show ?case
  proof (cases rule: step_node_cases)
    case (denied vs)
    then show ?thesis by (simp add: eq run_refused_def)
  next
    case (gated vs)
    then show ?thesis by (simp add: eq run_refused_def)
  next
    case (failed w1 e r)
    have "trace_of i (st\<lparr>xs_world := w1\<rparr>) = Some t" using Cons.prems(3) by simp
    note c = fail_step_cases[OF this failed(4)]
    have "nd_run nd (xs_world st) i outs = (w1, Err e)" using failed(2) unfolding run_node_planned by (rule planned_node_fails)
    with Cons.prems(1,6) nd have "stopped_at x g i w done e w1" unfolding stopped_at_def by metis
    with c Cons.prems(5) have "run_undone x g i w (st1, r)" unfolding run_undone_def by (intro exI[of _ "done"] exI[of _ e] exI[of _ w1]) auto
    then show ?thesis using failed(3) by (simp add: eq)
  next
    case (ran w1 out)
    have t1: "trace_of i (st\<lparr>xs_world := w1\<rparr>) = Some t" using Cons.prems(3) by simp
    note c = after_node_cases[OF t1 Cons.prems(4) ran(3)] and r = planned_snoc[OF nd Cons.prems(6) ran(2)]
    show ?thesis
    proof (cases sr)
      case (Stop r1)
      with c have "(\<exists>e. r1 = Ok (PartialRun outs step e) \<and> \<not> within_budget (xs_budget st1)) \<or> run_refused x (st1, r1)"
        by (auto simp: run_refused_def)
      moreover have "run_exhausted x g i w (st1, r1)" if "r1 = Ok (PartialRun outs step e)" "\<not> within_budget (xs_budget st1)" for e
        unfolding run_exhausted_def using that Cons.prems(1,5,6) r c
        by (intro exI[of _ "done"] exI[of _ n] exI[of _ rest] exI[of _ outs] exI[of _ "xs_world st"] exI[of _ "AList.update n out outs"]) auto
      ultimately show ?thesis using Stop by (auto simp: eq)
    next
      case (Continue o')
      with c obtain sx where c1: "o' = out" "trace_of i st1 = Some (trace_record t sx)" "xs_world st1 = w1" by auto
      have "tr_status (trace_record t sx) = Tr_Running" using Cons.prems(4) by (simp add: trace_record_def)
      from Cons.IH[OF _ _ c1(2) this _ _ run_steps_continue[OF nd s[unfolded Continue c1(1)] Cons.prems(7)]] show ?thesis
        using Cons.prems(1,2,5) r c1(3) by simp
    qed
  qed
qed

lemma executor_run_ends:
  assumes "\<not> revocation_check x i" "set (gr_order g) \<subseteq> fst ` set (gr_nodes g)"
    and "executor_run to_string ck x g i st = res"
  shows "run_completed x g i (xs_world st) res \<or> run_exhausted x g i (xs_world st) res \<or> run_undone x g i (xs_world st) res \<or> run_refused x res"
proof -
  obtain rec where rec: "recorder_open (ck_open ck) (xs_recorder st) (int_trace_id i) (int_id i) = (rec, Ok ())"
    "rc_open rec (int_trace_id i) = Some (trace_open (ck_open ck) (int_trace_id i) (int_id i))"
    by (rule recorder_open_trace)
  let ?st = "st\<lparr>xs_recorder := rec\<rparr>" and ?t = "trace_open (ck_open ck) (int_trace_id i) (int_id i)"
  let ?d = "engine_evaluate (ge_policy x) PrePlan (exec_context i (xs_budget st) (Some (int_goal i)) None None 0)"
  have t: "trace_of i ?st = Some ?t" "tr_status ?t = Tr_Running" using rec(2) by (simp_all add: trace_open_def)
  note run = executor_run_def[of to_string ck x g i st, unfolded assms(3)] and closed = close_and_return_open(1)[OF t(1)]
  show ?thesis
  proof (cases "is_allowed ?d")
    case True
    then have "run_steps to_string ck x i g (gr_order g) 0 0 (compensable g []) (map fst (compensable g [])) [] ?st = res"
      by (auto simp: run assms(1) rec(1) Let_def is_allowed_def split: policy_decision.splits)
    from run_steps_ends[OF _ assms(2) t _ _ this, of "xs_world st"] show ?thesis by (simp add: planned_def)
  next
    case False
    with not_permissive[OF False] have "run_refused x res"
      by (auto simp: run_refused_def run assms(1) rec(1) Let_def is_allowed_def closed split: policy_decision.splits)
    then show ?thesis by simp
  qed
qed

text \<open>C3. Rollback is exact and in reverse: when a run reports that it was rolled back, the nodes before the
  reported one ran in order and it failed on the world they left; then the compensators registered for
  the write-class nodes among them ran on the world of the failure, exactly those, last one first, each of
  them successfully and with the outputs of the ones before it, and the run ends in the world they leave. The
  report lists the compensated nodes in execution order. Compensators of nodes that are not
  write-class do not run.\<close>

theorem executor_rollback_exact:
  assumes "set (gr_order g) \<subseteq> fst ` set (gr_nodes g)"
    and "executor_run to_string ck x g i st = (st', Ok (RolledBack k e ts))"
  shows "\<exists>pre n nd rest outs w0 w1 os. gr_order g = pre @ n # rest \<and> k = of_nat (length pre) + 1
    \<and> map_of (gr_nodes g) n = Some nd
    \<and> runs_all i (planned x g pre) [] (xs_world st) outs w0 \<and> nd_run nd w0 i outs = (w1, Err e)
    \<and> ts = map fst (compensable g pre) \<and> ts \<noteq> []
    \<and> runs_all i (rev (compensable g pre)) [] w1 os (xs_world st')"
proof -
  have "\<not> revocation_check x i" using assms(2) by (auto simp: executor_run_def)
  from executor_run_ends[OF this assms] have "run_undone x g i (xs_world st) (st', Ok (RolledBack k e ts))"
    by (auto simp: run_exhausted_def run_completed_def run_refused_def)
  then show ?thesis unfolding run_undone_def stopped_at_def by auto blast
qed

theorem executor_rollback_exact_witness:
  "\<exists>st'. executor_run (\<lambda>_. []) ex_clock (executor_new []) ex_saga_graph ex_intent (ex_state []) =
       (st', Ok (RolledBack 2 (NodeErr (Msg ''boom'')) [''w'']))
     \<and> xs_world st' = [1, 2] \<and> (\<exists>pre w1 os. (2 :: u32) = of_nat (length pre) + 1 \<and> [''w''] = map fst (compensable ex_saga_graph pre)
          \<and> runs_all ex_intent (rev (compensable ex_saga_graph pre)) [] w1 os [1, 2])"
proof -
  let ?run = "executor_run (\<lambda>_. []) ex_clock (executor_new []) ex_saga_graph ex_intent (ex_state [])"
  have r: "snd ?run = Ok (RolledBack 2 (NodeErr (Msg ''boom'')) [''w''])" "xs_world (fst ?run) = [1, 2]"
    by (simp_all add: run_defs ex_run_defs Let_def fail_step_def executor_rollback_def chain_rollback_def chain_push_def)
  then have run: "?run = (fst ?run, Ok (RolledBack 2 (NodeErr (Msg ''boom'')) [''w'']))" by (simp add: prod_eq_iff)
  have g: "set (gr_order ex_saga_graph) \<subseteq> fst ` set (gr_nodes ex_saga_graph)" by (simp add: ex_saga_graph_def)
  obtain pre w1 os where "(2 :: u32) = of_nat (length pre) + 1" "[''w''] = map fst (compensable ex_saga_graph pre)"
    "runs_all ex_intent (rev (compensable ex_saga_graph pre)) [] w1 os [1, 2]"
    using executor_rollback_exact[OF g run, unfolded r(2)] by (elim exE conjE)
  with run r(2) show ?thesis by (intro exI[of _ "fst ?run"] exI[of _ pre] exI[of _ w1] exI[of _ os] conjI)
qed

section \<open>The run and its reference\<close>

text \<open>C20. A run computes what its plan says: over a validated graph and with hooks that allow every step,
  a run that is not refused for revocation ends in one of three ways, each described by plainly running
  nodes in order. Either all nodes of the order ran and the run is complete with their outputs and one step per
  node; or the budget was exceeded by some node, after which nothing runs, and the outputs
  of the nodes before it are reported; or a node failed on the world the nodes before it left. Then
  the compensators of the write-class nodes before it ran, last one first, and the rollback is reported; with
  nothing to undo the node's own error is; and where a compensator fails, the ones after it do not run and its
  failure is reported.\<close>

theorem executor_matches_reference:
  assumes "permissive x" "\<not> revocation_check x i" "set (gr_order g) \<subseteq> fst ` set (gr_nodes g)"
    and "executor_run to_string ck x g i st = (st', r)"
  shows "(\<exists>outs. runs_all i (planned x g (gr_order g)) [] (xs_world st) outs (xs_world st')
      \<and> r = Ok (Completed outs (of_nat (length (gr_order g)))))
   \<or> (\<exists>pre n rest outs w1 outs1 e. gr_order g = pre @ n # rest
      \<and> runs_all i (planned x g pre) [] (xs_world st) outs w1
      \<and> runs_all i (planned x g (pre @ [n])) [] (xs_world st) outs1 (xs_world st')
      \<and> r = Ok (PartialRun outs (of_nat (length pre)) e) \<and> \<not> within_budget (xs_budget st'))
   \<or> (\<exists>pre e w1. stopped_at x g i (xs_world st) pre e w1
      \<and> (compensable g pre = [] \<and> r = Err e \<and> xs_world st' = w1
       \<or> compensable g pre \<noteq> [] \<and> (\<exists>os. runs_all i (rev (compensable g pre)) [] w1 os (xs_world st'))
          \<and> r = Ok (RolledBack (of_nat (length pre) + 1) e (map fst (compensable g pre)))
       \<or> (\<exists>n e'. fails_at i (rev (compensable g pre)) [] w1 n e' (xs_world st') \<and> r = Err (CompensationFailed n e'))))"
  using executor_run_ends[OF assms(2-4)] assms(1) by (simp add: run_end_defs)

theorem executor_matches_reference_witness:
  "\<exists>st'. executor_run (\<lambda>_. []) ex_clock (executor_new []) ex_graph ex_intent (ex_state []) =
       (st', Ok (Completed [(''a'', node_output_default\<lparr>no_duration_ms := 1\<rparr>)] 1))
     \<and> runs_all ex_intent (planned (executor_new []) ex_graph [''a'']) [] [] [(''a'', node_output_default\<lparr>no_duration_ms := 1\<rparr>)] (xs_world st')"
proof -
  let ?x = "executor_new []" and ?r = "Ok (Completed [(''a'', node_output_default\<lparr>no_duration_ms := 1\<rparr>)] 1)"
  let ?run = "executor_run (\<lambda>_. []) ex_clock ?x ex_graph ex_intent (ex_state [])"
  have "snd ?run = ?r" by (simp add: run_defs ex_run_defs Let_def)
  then have run: "?run = (fst ?run, ?r)" by (simp add: prod_eq_iff)
  have x: "permissive ?x" "\<not> revocation_check ?x ex_intent"
    by (simp_all add: permissive_def executor_new_def engine_evaluate_def decide_def is_allowed_def revocation_check_def)
  have g: "set (gr_order ex_graph) \<subseteq> fst ` set (gr_nodes ex_graph)" "gr_order ex_graph = [''a'']" "xs_world (ex_state []) = []"
    by (simp_all add: ex_graph_def ex_state_def)
  from executor_matches_reference[OF x g(1) run, unfolded g(2,3)] run show ?thesis by (intro exI[of _ "fst ?run"]) auto
qed

section \<open>Shadow mode\<close>

text \<open>A shadow run can still act on the world: where a step after a write-class node fails, the
  write itself was only simulated, but the compensator registered for it is run for real. Here the
  write would append 1 and its compensator appends 2 to the log; the shadow run appends 2 alone.\<close>

theorem shadow_run_compensates:
  "xs_world (fst (executor_run to_string ex_clock (with_shadow (executor_new [])) ex_saga_graph ex_intent (ex_state w))) = w @ [2]
   \<and> snd (executor_run to_string ex_clock (with_shadow (executor_new [])) ex_saga_graph ex_intent (ex_state w))
       = Ok (RolledBack 2 (NodeErr (Msg ''boom'')) [''w''])"
  by (simp add: run_defs ex_run_defs Let_def fail_step_def executor_rollback_def chain_rollback_def chain_push_def
      with_shadow_def shadow_output_def)

end
