(* ===== verification/Saga.thy ===== *)
theory Saga
  imports Registry
begin

text \<open>
  The saga engine (\<open>aaf-saga\<close>): saga definitions, the recovery decision, the executor with its
  compensation loop, and the bridge that runs a step against the registry and an invoker. The
  step runner and the compensator are closures of the caller; they are functions on a world
  \<open>'w\<close> that they may change. The registry a bridge holds is fixed during a run.
\<close>

section \<open>Definitions and states\<close>

datatype step_kind = SK_Deterministic | SK_Agent | SK_Approval

datatype compensation_type = CT_Mandatory | CT_BestEffort | CT_None

definition compensation_type_default :: compensation_type where
  "compensation_type_default = CT_BestEffort"

datatype recovery_action = PauseAndAskUser | RetryWithAlternative | PartialCompensation
  | FullCompensation | SkipStep

record recovery_rule =
  rr_condition :: string
  rr_action :: recovery_action
  rr_preserve :: "string list"

record on_failure =
  of_strategy :: string
  of_rules :: "recovery_rule list"

record saga_step =
  ss_step :: u32
  ss_name :: string
  ss_kind :: step_kind
  ss_capability :: string
  ss_compensation :: "string option"
  ss_compensation_type :: compensation_type
  ss_on_failure :: "on_failure option"

record saga_definition =
  sd_name :: string
  sd_description :: "string option"
  sd_steps :: "saga_step list"

datatype saga_state = Sg_Initiated | Sg_Running | Sg_StepFailed | Sg_Analyzing | Sg_RecoverySelected
  | Sg_PartialCompensation | Sg_WaitingForInput | Sg_Resumed | Sg_FullCompensation | Sg_Failed
  | Sg_Completed

definition saga_is_terminal :: "saga_state \<Rightarrow> bool" where
  "saga_is_terminal s \<longleftrightarrow> s = Sg_Completed \<or> s = Sg_Failed"

section \<open>Recovery decision\<close>

datatype recovery_decision = RD_Apply recovery_rule | RD_Fallback recovery_action

definition recovery_decide :: "string \<Rightarrow> on_failure option \<Rightarrow> recovery_decision" where
  "recovery_decide failure_tag onf =
     (case onf of
        Some f \<Rightarrow> (case find (\<lambda>r. rr_condition r = failure_tag) (of_rules f) of
                    Some r \<Rightarrow> RD_Apply r
                  | None \<Rightarrow> RD_Fallback FullCompensation)
      | None \<Rightarrow> RD_Fallback FullCompensation)"

section \<open>The executor\<close>

datatype saga_outcome = SagaCompleted "u32 list"
  | SagaFailed u32 recovery_action "u32 list" "u32 list"
  | PendingUser u32

text \<open>\<open>KnownPanic\<close> is the panic of \<open>expect("known")\<close>, which is shown not to happen.\<close>

datatype saga_error = MandatoryCompensationFailed u32 | StepClosureFailed u32 string | KnownPanic

datatype step_result = StepOk | FailedWithTag string

type_synonym 'w step_runner = "'w \<Rightarrow> saga_step \<Rightarrow> 'w \<times> step_result"
type_synonym 'w compensation_runner = "'w \<Rightarrow> saga_step \<Rightarrow> 'w \<times> (unit, string) result"

fun decision_action :: "recovery_decision \<Rightarrow> recovery_action" where
  "decision_action (RD_Apply r) = rr_action r"
| "decision_action (RD_Fallback a) = a"

fun preserve_set :: "recovery_decision \<Rightarrow> u32 list" where
  "preserve_set (RD_Apply r) = List.map_filter parse_u32 (rr_preserve r)"
| "preserve_set (RD_Fallback a) = []"

text \<open>The loop over the completed step numbers, newest first; \<open>cs\<close> and \<open>ps\<close> are the vectors
  \<open>compensated\<close> and \<open>preserved\<close>.\<close>

fun saga_compensate ::
  "'w compensation_runner \<Rightarrow> saga_step list \<Rightarrow> recovery_action \<Rightarrow> u32 list \<Rightarrow> u32 list \<Rightarrow> 'w
   \<Rightarrow> u32 list \<Rightarrow> u32 list \<Rightarrow> 'w \<times> (u32 list \<times> u32 list, saga_error) result" where
  "saga_compensate undo steps act keep [] w cs ps = (w, Ok (cs, ps))"
| "saga_compensate undo steps act keep (d # ds) w cs ps =
     (if act = PartialCompensation \<and> d \<in> set keep
      then saga_compensate undo steps act keep ds w cs (ps @ [d])
      else case find (\<lambda>s. ss_step s = d) steps of
             None \<Rightarrow> (w, Err KnownPanic)
           | Some s \<Rightarrow>
               if ss_compensation s \<noteq> None
               then (let (w', r) = undo w s
                     in case r of
                          Inl _ \<Rightarrow>
                            if ss_compensation_type s = CT_Mandatory
                            then (w', Err (MandatoryCompensationFailed d))
                            else saga_compensate undo steps act keep ds w' cs ps
                        | Inr _ \<Rightarrow> saga_compensate undo steps act keep ds w' (cs @ [d]) ps)
               else saga_compensate undo steps act keep ds w (cs @ [d]) ps)"

fun saga_loop ::
  "'w step_runner \<Rightarrow> 'w compensation_runner \<Rightarrow> saga_step list \<Rightarrow> saga_step list \<Rightarrow> u32 list
   \<Rightarrow> saga_state \<Rightarrow> 'w \<Rightarrow> 'w \<times> saga_state \<times> (saga_outcome, saga_error) result" where
  "saga_loop runner undo steps [] completed st w = (w, Sg_Completed, Ok (SagaCompleted completed))"
| "saga_loop runner undo steps (s # rest) completed st w =
     (let (w1, r) = runner w s
      in case r of
           StepOk \<Rightarrow> saga_loop runner undo steps rest (completed @ [ss_step s]) st w1
         | FailedWithTag tag \<Rightarrow>
             let dec = recovery_decide tag (ss_on_failure s); act = decision_action dec
             in if act = FullCompensation \<or> act = PartialCompensation
                then (let (w2, res) = saga_compensate undo steps act (preserve_set dec) (rev completed) w1 [] []
                      in case res of
                           Inl e \<Rightarrow> (w2, if act = FullCompensation then Sg_FullCompensation
                                         else Sg_PartialCompensation, Err e)
                         | Inr (cs, ps) \<Rightarrow> (w2, Sg_Failed, Ok (SagaFailed (ss_step s) act cs ps)))
                else if act = PauseAndAskUser
                then (w1, Sg_WaitingForInput, Ok (PendingUser (ss_step s)))
                else if act = RetryWithAlternative
                then (let (w2, r2) = runner w1 s
                      in case r2 of
                           StepOk \<Rightarrow>
                             saga_loop runner undo steps rest (completed @ [ss_step s]) Sg_RecoverySelected w2
                         | FailedWithTag _ \<Rightarrow> (w2, Sg_Failed, Ok (SagaFailed (ss_step s) act [] [])))
                else saga_loop runner undo steps rest completed Sg_RecoverySelected w1)"

definition saga_run ::
  "'w step_runner \<Rightarrow> 'w compensation_runner \<Rightarrow> saga_definition \<Rightarrow> 'w
   \<Rightarrow> 'w \<times> saga_state \<times> (saga_outcome, saga_error) result" where
  "saga_run runner undo d w = saga_loop runner undo (sd_steps d) (sd_steps d) [] Sg_Running w"

section \<open>The registry bridge\<close>

datatype bridge_error = BE_UnknownCapability string | BE_Tagged string

fun bridge_error_string :: "bridge_error \<Rightarrow> string" where
  "bridge_error_string (BE_UnknownCapability c) = ''unknown capability: '' @ c"
| "bridge_error_string (BE_Tagged t) = ''invocation tagged failure: '' @ t"

type_synonym 'w capability_invoker = "'w \<Rightarrow> string \<Rightarrow> 'w \<times> (json, bridge_error) result"

record in_memory_invoker =
  imi_outcomes :: "string \<rightharpoonup> (json, string) result"
  imi_log :: "string list"

definition invoker_new :: in_memory_invoker where
  "invoker_new = \<lparr>imi_outcomes = Map.empty, imi_log = []\<rparr>"

definition invoker_ok :: "in_memory_invoker \<Rightarrow> string \<Rightarrow> json \<Rightarrow> in_memory_invoker" where
  "invoker_ok i c v = i\<lparr>imi_outcomes := (imi_outcomes i)(c \<mapsto> Ok v)\<rparr>"

definition invoker_fail :: "in_memory_invoker \<Rightarrow> string \<Rightarrow> string \<Rightarrow> in_memory_invoker" where
  "invoker_fail i c tag = i\<lparr>imi_outcomes := (imi_outcomes i)(c \<mapsto> Err tag)\<rparr>"

definition in_memory_invoke :: "in_memory_invoker capability_invoker" where
  "in_memory_invoke i c =
     (i\<lparr>imi_log := imi_log i @ [c]\<rparr>,
      case (case imi_outcomes i c of Some v \<Rightarrow> v | None \<Rightarrow> Ok JNull) of
        Inr v \<Rightarrow> Ok v | Inl tag \<Rightarrow> Err (BE_Tagged tag))"

definition bridge_step_runner :: "registry \<Rightarrow> 'w capability_invoker \<Rightarrow> 'w step_runner" where
  "bridge_step_runner g invoke w s =
     (if \<not> is_ok (registry_get g (ss_capability s))
      then (w, FailedWithTag ''unknown_capability'')
      else let (w', r) = invoke w (ss_capability s)
           in (w', case r of
                     Inr _ \<Rightarrow> StepOk
                   | Inl (BE_Tagged t) \<Rightarrow> FailedWithTag t
                   | Inl (BE_UnknownCapability _) \<Rightarrow> FailedWithTag ''unknown_capability''))"

definition bridge_compensation_runner :: "'w capability_invoker \<Rightarrow> 'w compensation_runner" where
  "bridge_compensation_runner invoke w s =
     (case ss_compensation s of
        None \<Rightarrow> (w, Ok ())
      | Some c \<Rightarrow> let (w', r) = invoke w c
                  in (w', case r of Inr _ \<Rightarrow> Ok () | Inl e \<Rightarrow> Err (bridge_error_string e)))"

section \<open>The journal of a run\<close>

text \<open>
  The specification speaks about the calls a run makes. Wrapping the caller's closures keeps
  their behaviour and appends every call, with its answer, to a journal.
\<close>

datatype saga_event = Ran saga_step step_result | Undid saga_step bool

definition journal_runner :: "'w step_runner \<Rightarrow> ('w \<times> saga_event list) step_runner" where
  "journal_runner runner wl s =
     (let (w', r) = runner (fst wl) s in ((w', snd wl @ [Ran s r]), r))"

definition journal_compensator :: "'w compensation_runner \<Rightarrow> ('w \<times> saga_event list) compensation_runner" where
  "journal_compensator undo wl s =
     (let (w', r) = undo (fst wl) s in ((w', snd wl @ [Undid s (is_ok r)]), r))"

fun committed :: "saga_event list \<Rightarrow> saga_step list" where
  "committed [] = []"
| "committed (Ran s r # l) = (if r = StepOk then s # committed l else committed l)"
| "committed (Undid s b # l) = committed l"

text \<open>The abstract undo of the committed steps, newest first, on the steps themselves: which
  steps a compensator is called for, and which are reported, given the answer \<open>ok s\<close> of each
  call.\<close>

definition has_undo :: "saga_step \<Rightarrow> bool" where
  "has_undo s \<longleftrightarrow> ss_compensation s \<noteq> None"

definition undo_calls :: "(saga_step \<Rightarrow> bool) \<Rightarrow> (saga_step \<Rightarrow> bool) \<Rightarrow> saga_step list \<Rightarrow> saga_event list" where
  "undo_calls kept ok xs = map (\<lambda>s. Undid s (ok s)) (filter (\<lambda>s. \<not> kept s \<and> has_undo s) xs)"

definition undo_report :: "(saga_step \<Rightarrow> bool) \<Rightarrow> (saga_step \<Rightarrow> bool) \<Rightarrow> saga_step list \<Rightarrow> u32 list" where
  "undo_report kept ok xs = map ss_step (filter (\<lambda>s. \<not> kept s \<and> (has_undo s \<longrightarrow> ok s)) xs)"

lemma committed_append [simp]: "committed (a @ b) = committed a @ committed b"
  by (induction a rule: committed.induct) auto

lemma journal_simps [simp]:
  "runner w s = (w', r) \<Longrightarrow> journal_runner runner (w, l) s = ((w', l @ [Ran s r]), r)"
  "undo w s = (w', c) \<Longrightarrow> journal_compensator undo (w, l) s = ((w', l @ [Undid s (is_ok c)]), c)"
  by (simp_all add: journal_runner_def journal_compensator_def)

lemma find_step:
  assumes "distinct (map ss_step steps)" "s \<in> set steps"
  shows "find (\<lambda>t. ss_step t = ss_step s) steps = Some s"
  using assms by (induction steps) auto

lemma undo_Nil [simp]: "undo_calls kept ok [] = []" "undo_report kept ok [] = []"
  by (simp_all add: undo_calls_def undo_report_def)

lemma undo_Cons:
  "undo_calls kept ok (s # xs) =
     (if \<not> kept s \<and> has_undo s then Undid s (ok s) # undo_calls kept ok xs else undo_calls kept ok xs)"
  "undo_report kept ok (s # xs) =
     (if \<not> kept s \<and> (has_undo s \<longrightarrow> ok s) then ss_step s # undo_report kept ok xs
      else undo_report kept ok xs)"
  by (simp_all add: undo_calls_def undo_report_def)

lemma undo_upd [simp]:
  "s \<notin> set xs \<Longrightarrow> undo_calls kept (ok(s := b)) xs = undo_calls kept ok xs"
  "s \<notin> set xs \<Longrightarrow> undo_report kept (ok(s := b)) xs = undo_report kept ok xs"
  by (auto simp: undo_calls_def undo_report_def intro!: arg_cong[of _ _ "map ss_step"] filter_cong)

text \<open>How an undo may end: every call that had to succeed did, or the first mandatory
  compensation that failed stopped it.\<close>

definition kept_by :: "recovery_action \<Rightarrow> u32 set \<Rightarrow> saga_step \<Rightarrow> bool" where
  "kept_by act keep s \<longleftrightarrow> act = PartialCompensation \<and> ss_step s \<in> keep"

definition must_undo :: "(saga_step \<Rightarrow> bool) \<Rightarrow> saga_step \<Rightarrow> bool" where
  "must_undo kept s \<longleftrightarrow> \<not> kept s \<and> has_undo s \<and> ss_compensation_type s = CT_Mandatory"

definition undo_finished ::
  "(saga_step \<Rightarrow> bool) \<Rightarrow> saga_step list \<Rightarrow> saga_event list \<Rightarrow> u32 list \<Rightarrow> u32 list \<Rightarrow> bool" where
  "undo_finished kept xs l cs ps \<longleftrightarrow>
     (\<exists>ok. l = undo_calls kept ok xs \<and> cs = undo_report kept ok xs
           \<and> ps = map ss_step (filter kept xs) \<and> (\<forall>s \<in> set xs. must_undo kept s \<longrightarrow> ok s))"

definition undo_stuck ::
  "(saga_step \<Rightarrow> bool) \<Rightarrow> saga_step list \<Rightarrow> saga_event list \<Rightarrow> saga_error \<Rightarrow> bool" where
  "undo_stuck kept xs l e \<longleftrightarrow>
     (\<exists>ok ys s zs. xs = ys @ s # zs \<and> e = MandatoryCompensationFailed (ss_step s)
           \<and> must_undo kept s \<and> l = undo_calls kept ok ys @ [Undid s False] \<and> (\<forall>y \<in> set ys. must_undo kept y \<longrightarrow> ok y))"

lemma undo_finished_Nil: "undo_finished kept [] [] [] []"
  by (simp add: undo_finished_def)

lemma undo_finished_kept:
  "kept s \<Longrightarrow> undo_finished kept xs l cs ps \<Longrightarrow> undo_finished kept (s # xs) l cs (ss_step s # ps)"
  by (auto simp: undo_finished_def undo_Cons must_undo_def)

lemma undo_finished_no_undo:
  "\<not> kept s \<Longrightarrow> \<not> has_undo s \<Longrightarrow> undo_finished kept xs l cs ps
   \<Longrightarrow> undo_finished kept (s # xs) l (ss_step s # cs) ps"
  by (auto simp: undo_finished_def undo_Cons must_undo_def)

lemma undo_finished_call:
  assumes "\<not> kept s" "has_undo s" "s \<notin> set xs" "b \<or> ss_compensation_type s \<noteq> CT_Mandatory"
    and "undo_finished kept xs l cs ps"
  shows "undo_finished kept (s # xs) (Undid s b # l) (if b then ss_step s # cs else cs) ps"
proof -
  from assms(5) obtain ok where ok: "l = undo_calls kept ok xs" "cs = undo_report kept ok xs"
    "ps = map ss_step (filter kept xs)" "\<forall>s \<in> set xs. must_undo kept s \<longrightarrow> ok s"
    unfolding undo_finished_def by blast
  show ?thesis unfolding undo_finished_def
    using assms(1-4) ok by (intro exI[of _ "ok(s := b)"]) (auto simp: undo_Cons must_undo_def)
qed

lemma undo_stuck_silent:
  "kept s \<or> \<not> has_undo s \<Longrightarrow> undo_stuck kept xs l e \<Longrightarrow> undo_stuck kept (s # xs) l e"
  unfolding undo_stuck_def
  by (elim exE conjE) (rule_tac x = ok in exI, rule_tac x = "s # ys" in exI, auto simp: undo_Cons must_undo_def)

lemma undo_stuck_call:
  assumes "\<not> kept s" "has_undo s" "s \<notin> set xs" "b \<or> ss_compensation_type s \<noteq> CT_Mandatory" "undo_stuck kept xs l e"
  shows "undo_stuck kept (s # xs) (Undid s b # l) e"
proof -
  from assms(5) obtain ok ys t zs where *: "xs = ys @ t # zs"
    "e = MandatoryCompensationFailed (ss_step t)" "must_undo kept t"
    "l = undo_calls kept ok ys @ [Undid t False]" "\<forall>y \<in> set ys. must_undo kept y \<longrightarrow> ok y"
    unfolding undo_stuck_def by blast
  with assms have "s \<notin> set ys" by simp
  with * assms show ?thesis unfolding undo_stuck_def
    by (intro exI[of _ "ok(s := b)"] exI[of _ "s # ys"] exI[of _ t] exI[of _ zs]) (auto simp: undo_Cons must_undo_def)
qed

lemma undo_stuck_here:
  "must_undo kept s \<Longrightarrow>
   undo_stuck kept (s # xs) [Undid s False] (MandatoryCompensationFailed (ss_step s))"
  unfolding undo_stuck_def by (rule exI, rule exI[of _ "[]"]) auto

lemma compensate_refines:
  assumes "distinct (map ss_step steps)"
  shows "set xs \<subseteq> set steps \<Longrightarrow> distinct xs \<Longrightarrow>
    saga_compensate (journal_compensator undo) steps act keep (map ss_step xs) (w, l) cs ps = ((w', l'), res) \<Longrightarrow>
    \<exists>m. l' = l @ m \<and>
      (case res of
         Inl e \<Rightarrow> undo_stuck (kept_by act (set keep)) xs m e
       | Inr (cs', ps') \<Rightarrow> \<exists>c p. cs' = cs @ c \<and> ps' = ps @ p \<and> undo_finished (kept_by act (set keep)) xs m c p)"
proof (induction xs arbitrary: w l cs ps)
  case Nil
  then show ?case using undo_finished_Nil by auto
next
  case (Cons s xs)
  let ?K = "kept_by act (set keep)"
  from Cons.prems have s: "find (\<lambda>t. ss_step t = ss_step s) steps = Some s" "s \<notin> set xs"
    and sub: "set xs \<subseteq> set steps" "distinct xs" by (auto intro: find_step[OF assms])
  note IH = Cons.IH[OF sub]
  note run = Cons.prems(3)
  show ?case
  proof (cases "?K s")
    case True
    with run have "saga_compensate (journal_compensator undo) steps act keep (map ss_step xs)
      (w, l) cs (ps @ [ss_step s]) = ((w', l'), res)" by (simp add: kept_by_def)
    from IH[OF this] True show ?thesis
      by (fastforce split: sum.splits intro: undo_stuck_silent undo_finished_kept)
  next
    case False
    show ?thesis
    proof (cases "has_undo s")
      case nou: False
      with False run s have "saga_compensate (journal_compensator undo) steps act keep (map ss_step xs)
        (w, l) (cs @ [ss_step s]) ps = ((w', l'), res)" by (auto simp: kept_by_def has_undo_def)
      from IH[OF this] False nou show ?thesis
        by (fastforce split: sum.splits intro: undo_stuck_silent undo_finished_no_undo)
    next
      case True
      obtain w1 r where r: "undo w s = (w1, r)" by (cases "undo w s")
      show ?thesis
      proof (cases "is_ok r \<or> ss_compensation_type s \<noteq> CT_Mandatory")
        case go: True
        with False True run s r have "saga_compensate (journal_compensator undo) steps act keep (map ss_step xs)
          (w1, l @ [Undid s (is_ok r)]) (if is_ok r then cs @ [ss_step s] else cs) ps = ((w', l'), res)"
          by (cases r) (auto simp: kept_by_def has_undo_def)
        from IH[OF this] undo_finished_call[where kept = ?K, OF False True s(2) go]
          undo_stuck_call[where kept = ?K, OF False True s(2) go]
        show ?thesis by (fastforce split: sum.splits)
      next
        case stop: False
        with False True run s r have "l' = l @ [Undid s False]" "res = Err (MandatoryCompensationFailed (ss_step s))"
          by (cases r; auto simp: kept_by_def has_undo_def)+
        moreover have "must_undo ?K s" using False True stop by (simp add: must_undo_def)
        ultimately show ?thesis by (auto intro: undo_stuck_here)
      qed
    qed
  qed
qed

text \<open>Which recovery a failure of a step calls for: the first rule of the step whose condition is the
  failure's tag, with the step numbers it lists to be preserved, and otherwise full compensation.\<close>

definition selects :: "on_failure option \<Rightarrow> string \<Rightarrow> recovery_action \<Rightarrow> u32 set \<Rightarrow> bool" where
  "selects onf tag act keep \<longleftrightarrow>
     (\<exists>f before r after. onf = Some f \<and> of_rules f = before @ r # after \<and> rr_condition r = tag
        \<and> tag \<notin> rr_condition ` set before \<and> act = rr_action r \<and> keep = {n. \<exists>p \<in> set (rr_preserve r). parse_u32 p = Some n})
     \<or> (\<forall>f. onf = Some f \<longrightarrow> tag \<notin> rr_condition ` set (of_rules f)) \<and> act = FullCompensation \<and> keep = {}"

text \<open>The calls for one step after which the saga goes on: the step succeeded, at once or when run again as its rule
  asks, or its rule skips it.\<close>

inductive proceeds :: "saga_step \<Rightarrow> saga_event list \<Rightarrow> bool" where
  ok: "proceeds s [Ran s StepOk]"
| skip: "selects (ss_on_failure s) tag SkipStep keep \<Longrightarrow> proceeds s [Ran s (FailedWithTag tag)]"
| retry: "selects (ss_on_failure s) tag RetryWithAlternative keep
    \<Longrightarrow> proceeds s [Ran s (FailedWithTag tag), Ran s StepOk]"

text \<open>A run reached the step \<open>f\<close>, and the calls for the steps before it are \<open>fwd\<close>.\<close>

definition reached :: "saga_step list \<Rightarrow> saga_step \<Rightarrow> saga_event list \<Rightarrow> bool" where
  "reached steps f fwd \<longleftrightarrow> (\<exists>pre post ess. steps = pre @ f # post \<and> list_all2 proceeds pre ess \<and> fwd = concat ess)"

text \<open>The abstract contract of a run whose whole journal is \<open>l\<close>.\<close>

fun saga_spec ::
  "saga_step list \<Rightarrow> saga_event list \<Rightarrow> saga_state \<Rightarrow> (saga_outcome, saga_error) result \<Rightarrow> bool" where
  "saga_spec steps l st (Inr (SagaCompleted ds)) \<longleftrightarrow>
     st = Sg_Completed \<and> (\<exists>ess. list_all2 proceeds steps ess \<and> l = concat ess) \<and> ds = map ss_step (committed l)"
| "saga_spec steps l st (Inr (PendingUser n)) \<longleftrightarrow>
     st = Sg_WaitingForInput \<and> (\<exists>f fwd tag keep. reached steps f fwd \<and> n = ss_step f
       \<and> selects (ss_on_failure f) tag PauseAndAskUser keep \<and> l = fwd @ [Ran f (FailedWithTag tag)])"
| "saga_spec steps l st (Inr (SagaFailed n act cs ps)) \<longleftrightarrow>
     st = Sg_Failed \<and> (\<exists>f fwd tag keep m. reached steps f fwd \<and> n = ss_step f
       \<and> selects (ss_on_failure f) tag act keep \<and> l = fwd @ [Ran f (FailedWithTag tag)] @ m
       \<and> (act = RetryWithAlternative \<and> (\<exists>tag'. m = [Ran f (FailedWithTag tag')]) \<and> cs = [] \<and> ps = []
        \<or> act \<in> {FullCompensation, PartialCompensation} \<and> undo_finished (kept_by act keep) (rev (committed fwd)) m cs ps))"
| "saga_spec steps l st (Inl e) \<longleftrightarrow>
     (\<exists>f fwd tag act keep m. reached steps f fwd \<and> selects (ss_on_failure f) tag act keep
       \<and> (act = FullCompensation \<and> st = Sg_FullCompensation \<or> act = PartialCompensation \<and> st = Sg_PartialCompensation)
       \<and> l = fwd @ [Ran f (FailedWithTag tag)] @ m \<and> undo_stuck (kept_by act keep) (rev (committed fwd)) m e)"

lemma find_first: "\<forall>y \<in> set ys. \<not> P y \<Longrightarrow> P r \<Longrightarrow> find P (ys @ r # zs) = Some r"
  by (induction ys) auto

lemma recovery_decide_selects:
  "selects onf tag (decision_action (recovery_decide tag onf)) (set (preserve_set (recovery_decide tag onf)))"
proof (cases "\<exists>f. onf = Some f \<and> tag \<in> rr_condition ` set (of_rules f)")
  case True
  then obtain f where f: "onf = Some f" "\<exists>r \<in> set (of_rules f). rr_condition r = tag" by auto
  then obtain before r after where r: "of_rules f = before @ r # after" "rr_condition r = tag"
    "\<forall>y \<in> set before. rr_condition y \<noteq> tag" by (auto dest!: split_list_first_prop)
  then have "find (\<lambda>r. rr_condition r = tag) (of_rules f) = Some r" by (simp add: find_first)
  then have "recovery_decide tag onf = RD_Apply r" using f(1) by (simp add: recovery_decide_def)
  moreover have "set (preserve_set (RD_Apply r)) = {n. \<exists>p \<in> set (rr_preserve r). parse_u32 p = Some n}"
    by (force simp: map_filter_def image_iff)
  ultimately show ?thesis unfolding selects_def using f(1) r
    by (intro disjI1 exI[of _ f] exI[of _ before] exI[of _ r] exI[of _ after]) auto
next
  case False
  then have "recovery_decide tag onf = RD_Fallback FullCompensation"
  proof (cases onf)
    case (Some f)
    with False have "find (\<lambda>r. rr_condition r = tag) (of_rules f) = None" unfolding find_None_iff by auto
    with Some show ?thesis by (simp add: recovery_decide_def)
  qed (simp add: recovery_decide_def)
  with False show ?thesis by (auto simp: selects_def)
qed

lemma proceeds_committed: "proceeds s es \<Longrightarrow> committed es = [] \<or> committed es = [s]"
  by (induction rule: proceeds.induct) auto

lemma all_proceed_committed:
  "list_all2 proceeds pre ess \<Longrightarrow> set (committed (concat ess)) \<subseteq> set pre
     \<and> (distinct pre \<longrightarrow> distinct (committed (concat ess)))"
proof (induction rule: list_all2_induct)
  case (Cons s pre es ess)
  then show ?case using proceeds_committed[of s es] by auto
qed simp

lemma saga_loop_refines:
  assumes "distinct (map ss_step steps)"
  shows "steps = pre @ rest \<Longrightarrow> list_all2 proceeds pre ess \<Longrightarrow> l = concat ess \<Longrightarrow> completed = map ss_step (committed l) \<Longrightarrow>
    saga_loop (journal_runner runner) (journal_compensator undo) steps rest completed st (w, l)
      = ((w', l'), st', res) \<Longrightarrow> saga_spec steps l' st' res"
proof (induction rest arbitrary: pre ess completed st w l)
  case Nil
  then show ?case by auto
next
  case (Cons s rest)
  obtain w1 r where r: "runner w s = (w1, r)" by (cases "runner w s")
  have at_s: "reached steps s l" unfolding reached_def using Cons.prems(1-3) by blast
  have go: "saga_spec steps l' st' res"
    if "proceeds s es" "saga_loop (journal_runner runner) (journal_compensator undo) steps rest
        (map ss_step (committed (l @ es))) st2 (w2, l @ es) = ((w', l'), st', res)" for es st2 w2
    using Cons.IH[of "pre @ [s]" "ess @ [es]", OF _ _ _ refl that(2)] that(1) Cons.prems(1-3) by (simp add: list_all2_appendI)
  show ?case
  proof (cases r)
    case StepOk
    with Cons.prems(4,5) r go[OF proceeds.ok] show ?thesis by simp
  next
    case (FailedWithTag tag)
    let ?dec = "recovery_decide tag (ss_on_failure s)"
    let ?l1 = "l @ [Ran s (FailedWithTag tag)]"
    note sel = recovery_decide_selects[of "ss_on_failure s" tag]
    consider (undo) "decision_action ?dec \<in> {FullCompensation, PartialCompensation}"
      | (pause) "decision_action ?dec = PauseAndAskUser"
      | (retry) "decision_action ?dec = RetryWithAlternative"
      | (skip) "decision_action ?dec = SkipStep" by (cases "decision_action ?dec") auto
    then show ?thesis
    proof cases
      case undo
      let ?act = "decision_action ?dec" and ?keep = "preserve_set ?dec"
      obtain w2 l2 res2 where c: "saga_compensate (journal_compensator undo) steps ?act ?keep
        (map ss_step (rev (committed l))) (w1, ?l1) [] [] = ((w2, l2), res2)" by (metis prod.exhaust)
      have "distinct pre" using assms Cons.prems(1) by (simp add: distinct_map)
      then have sub: "set (rev (committed l)) \<subseteq> set steps" "distinct (rev (committed l))"
        using all_proceed_committed[OF Cons.prems(2)] Cons.prems(1,3) by auto
      from compensate_refines[OF assms sub c] obtain m where m: "l2 = ?l1 @ m"
        "case res2 of Inl e \<Rightarrow> undo_stuck (kept_by ?act (set ?keep)) (rev (committed l)) m e
         | Inr (cs, ps) \<Rightarrow> undo_finished (kept_by ?act (set ?keep)) (rev (committed l)) m cs ps"
        by (cases res2) auto
      from Cons.prems(4,5) r FailedWithTag undo c have l: "l' = l2" and
        "(\<exists>e. res2 = Inl e \<and> res = Err e \<and> st' = (if ?act = FullCompensation then Sg_FullCompensation else Sg_PartialCompensation)) \<or>
         (\<exists>cs ps. res2 = Inr (cs, ps) \<and> res = Ok (SagaFailed (ss_step s) ?act cs ps) \<and> st' = Sg_Failed)"
        by (auto simp: rev_map Let_def split: sum.splits)
      then show ?thesis
      proof (elim disjE exE conjE)
        fix e assume e: "res2 = Inl e" "res = Err e" "st' = (if ?act = FullCompensation then Sg_FullCompensation else Sg_PartialCompensation)"
        show ?thesis unfolding e(2) saga_spec.simps using e(1,3) m l undo sel at_s
          by (intro exI[of _ s] exI[of _ l] exI[of _ tag] exI[of _ ?act] exI[of _ "set ?keep"] exI[of _ m]) auto
      next
        fix cs ps assume e: "res2 = Inr (cs, ps)" "res = Ok (SagaFailed (ss_step s) ?act cs ps)" "st' = Sg_Failed"
        show ?thesis unfolding e(2) saga_spec.simps using e(1,3) m l undo sel at_s
          by (intro conjI exI[of _ s] exI[of _ l] exI[of _ tag] exI[of _ "set ?keep"] exI[of _ m]) auto
      qed
    next
      case pause
      with Cons.prems(4,5) r FailedWithTag sel at_s show ?thesis by (auto simp: Let_def)
    next
      case retry
      obtain w2 r2 where r2: "runner w1 s = (w2, r2)" by (cases "runner w1 s")
      show ?thesis
      proof (cases r2)
        case StepOk
        with Cons.prems(4,5) r r2 FailedWithTag retry sel show ?thesis
          by (intro go[OF proceeds.retry, of tag _ Sg_RecoverySelected w2]) (auto simp: Let_def)
      next
        case (FailedWithTag t)
        with Cons.prems(4,5) r r2 \<open>r = FailedWithTag tag\<close> retry have e: "res = Ok (SagaFailed (ss_step s) RetryWithAlternative [] [])"
          "st' = Sg_Failed" "l' = l @ [Ran s (FailedWithTag tag)] @ [Ran s (FailedWithTag t)]" by (auto simp: Let_def)
        show ?thesis unfolding e(1) saga_spec.simps using e(2,3) sel at_s retry
          by (intro conjI exI[of _ s] exI[of _ l] exI[of _ tag] exI[of _ "set (preserve_set ?dec)"]
              exI[of _ "[Ran s (FailedWithTag t)]"]) auto
      qed
    next
      case skip
      with Cons.prems(4,5) r FailedWithTag sel show ?thesis
        by (intro go[OF proceeds.skip, of tag _ Sg_RecoverySelected w1]) (auto simp: Let_def)
    qed
  qed
qed

section \<open>What the bridge invokes\<close>

lemma bridge_invokes_registered:
  assumes "bridge_step_runner g in_memory_invoke w s = (w', r)"
  shows "imi_log w' = imi_log w \<and> r = FailedWithTag ''unknown_capability'' \<or>
         imi_log w' = imi_log w @ [ss_capability s] \<and> is_ok (registry_get g (ss_capability s))"
  using assms by (auto simp: bridge_step_runner_def in_memory_invoke_def split: if_splits)

section \<open>Properties\<close>

definition ex_saga_step :: "nat \<Rightarrow> string \<Rightarrow> string option \<Rightarrow> saga_step" where
  "ex_saga_step n cap c = \<lparr>ss_step = of_nat n, ss_name = cap, ss_kind = SK_Deterministic,
     ss_capability = cap, ss_compensation = c, ss_compensation_type = CT_Mandatory, ss_on_failure = None\<rparr>"

definition ex_saga :: saga_definition where
  "ex_saga = \<lparr>sd_name = ''order'', sd_description = None,
     sd_steps = [ex_saga_step 1 ''reserve'' (Some ''release''), ex_saga_step 2 ''charge'' (Some ''refund''),
                 ex_saga_step 3 ''ship'' None]\<rparr>"

definition ex_saga_runner :: "unit step_runner" where
  "ex_saga_runner w s = (w, if ss_capability s = ''ship'' then FailedWithTag ''down'' else StepOk)"

definition ex_saga_undo :: "unit compensation_runner" where
  "ex_saga_undo w s = (w, Ok ())"

text \<open>C4. The saga executor refines its abstract contract. For any step runner and compensator, on a saga whose
  step numbers are distinct: the steps are run in order, each once and a failed one once more where its rule asks for
  a retry, and a step is left behind only when it succeeded or its rule skips it; a completed run has run every step
  and reports those that succeeded. A run that fails stops at the step whose rule says so: pausing for the user, after
  a failed retry without undoing anything, or with compensation. Full and partial compensation call the compensator exactly for the
  committed steps that have a compensation and, for partial compensation, are not listed as preserved, newest first;
  the committed steps reported as compensated are those not preserved whose compensation
  succeeded and those that have none. A compensation stops early only at the first mandatory one that fails, with the
  error that names its step. The panic of the lookup of a completed step does not occur.\<close>

theorem saga_run_refines:
  assumes "distinct (map ss_step (sd_steps d))"
    and "saga_run (journal_runner runner) (journal_compensator undo) d (w, []) = ((w', l), st, res)"
  shows "saga_spec (sd_steps d) l st res \<and> res \<noteq> Err KnownPanic"
proof
  show "saga_spec (sd_steps d) l st res"
    using assms by (intro saga_loop_refines[where pre = "[]" and ess = "[]" and l = "[]"]) (auto simp: saga_run_def)
  then show "res \<noteq> Err KnownPanic" by (auto simp: undo_stuck_def)
qed

theorem saga_run_refines_witness:
  "saga_spec (sd_steps ex_saga)
     [Ran (ex_saga_step 1 ''reserve'' (Some ''release'')) StepOk, Ran (ex_saga_step 2 ''charge'' (Some ''refund'')) StepOk,
      Ran (ex_saga_step 3 ''ship'' None) (FailedWithTag ''down''), Undid (ex_saga_step 2 ''charge'' (Some ''refund'')) True,
      Undid (ex_saga_step 1 ''reserve'' (Some ''release'')) True]
     Sg_Failed (Ok (SagaFailed 3 FullCompensation [2, 1] []))"
  by (rule conjunct1[OF saga_run_refines[where d = ex_saga and runner = ex_saga_runner and undo = ex_saga_undo
        and w = "()" and w' = "()"]])
     (simp_all add: ex_saga_def ex_saga_step_def saga_run_def ex_saga_runner_def ex_saga_undo_def
        journal_runner_def journal_compensator_def recovery_decide_def Let_def)

end
