(* ===== verification/Planner.thy ===== *)
theory Planner
  imports Registry Trace Identity
begin

text \<open>
  The intent planner (\<open>aaf-planner\<close>): bounded autonomy, the composition checks, the router, the
  fast-path rules, the plan cache and the registry planner with its topological ordering of the
  chosen capabilities. SHA-256 and hex encoding are the parameters of \<open>crypto\<close>; the equality of
  JSON values is a parameter of the fast path; the node identifiers a plan draws are a function
  from the step index.
\<close>

section \<open>Plans and bounds\<close>

datatype planned_step_kind = PK_Deterministic | PK_Agent | PK_Approval | PK_Fork

record planned_step =
  pst_step_id :: u32
  pst_kind :: planned_step_kind
  pst_capability :: string
  pst_input_mapping :: string
  pst_output_id :: string

record execution_plan =
  plan_intent_id :: string
  plan_steps :: "planned_step list"

record bounded_autonomy =
  ba_max_steps :: u32
  ba_max_depth :: u32
  ba_max_cost_usd :: f64
  ba_max_latency_ms :: u64

definition bounded_autonomy_default :: bounded_autonomy where
  "bounded_autonomy_default =
     \<lparr>ba_max_steps = 10, ba_max_depth = 5, ba_max_cost_usd = Fin 1, ba_max_latency_ms = 300000\<rparr>"

datatype bounds_violation = BV_TooManySteps u32 u32 | BV_DepthExceeded u32 u32
  | BV_BudgetExceeded f64 f64 | BV_LatencyExceeded u64 u64

definition bounds_validate ::
  "bounded_autonomy \<Rightarrow> intent_envelope \<Rightarrow> execution_plan \<Rightarrow> (unit, bounds_violation) result" where
  "bounds_validate b i p =
     (if of_nat (length (plan_steps p)) > ba_max_steps b
      then Err (BV_TooManySteps (of_nat (length (plan_steps p))) (ba_max_steps b))
      else if int_depth i > ba_max_depth b
      then Err (BV_DepthExceeded (int_depth i) (ba_max_depth b))
      else if flt (ba_max_cost_usd b) (max_cost_usd (int_budget i))
      then Err (BV_BudgetExceeded (max_cost_usd (int_budget i)) (ba_max_cost_usd b))
      else if max_latency_ms (int_budget i) > ba_max_latency_ms b
      then Err (BV_LatencyExceeded (max_latency_ms (int_budget i)) (ba_max_latency_ms b))
      else Ok ())"

section \<open>Router and fast path\<close>

datatype communication_pattern = FastPath | AgentAssisted | FullAgentic | AgenticChoreography

definition classify :: "intent_envelope \<Rightarrow> bool \<Rightarrow> nat \<Rightarrow> communication_pattern" where
  "classify i fast_path_matched capability_count =
     (if fast_path_matched then FastPath
      else case int_type i of
             DelegationIntent \<Rightarrow> AgenticChoreography
           | AnalyticalIntent \<Rightarrow> if capability_count \<le> 1 then AgentAssisted else FullAgentic
           | TransactionalIntent \<Rightarrow> if capability_count \<le> 1 then AgentAssisted else FullAgentic
           | _ \<Rightarrow> FullAgentic)"

text \<open>\<open>format!("{:?}", intent_type)\<close>.\<close>

fun intent_type_debug :: "intent_type \<Rightarrow> string" where
  "intent_type_debug TransactionalIntent = ''TransactionalIntent''"
| "intent_type_debug AnalyticalIntent = ''AnalyticalIntent''"
| "intent_type_debug PlanningIntent = ''PlanningIntent''"
| "intent_type_debug DelegationIntent = ''DelegationIntent''"
| "intent_type_debug GovernanceIntent = ''GovernanceIntent''"

record field_mapping =
  fm_from :: string
  fm_to :: string

record fp_condition =
  fc_field :: string
  fc_equals :: json

record request_pattern =
  rp_intent_type :: string
  rp_domain :: string

record fast_path_rule =
  fpr_pattern :: request_pattern
  fpr_target_capability :: string
  fpr_field_mapping :: "field_mapping list"
  fpr_conditions :: "fp_condition list"

datatype fast_path_outcome = FPMatch string json | NoMatch

record tagged_rule =
  tr_rule :: fast_path_rule
  tr_learned_rule_id :: "string option"
  tr_evidence :: "string list"
  tr_enabled :: bool

type_synonym fast_path_rule_set = "tagged_rule list"

definition fp_push :: "fast_path_rule_set \<Rightarrow> fast_path_rule \<Rightarrow> fast_path_rule_set" where
  "fp_push rs r = rs @ [\<lparr>tr_rule = r, tr_learned_rule_id = None, tr_evidence = [], tr_enabled = True\<rparr>]"

definition fp_add_learned ::
  "fast_path_rule_set \<Rightarrow> fast_path_rule \<Rightarrow> string \<Rightarrow> string list \<Rightarrow> fast_path_rule_set" where
  "fp_add_learned rs r i evidence =
     rs @ [\<lparr>tr_rule = r, tr_learned_rule_id = Some i, tr_evidence = evidence, tr_enabled = True\<rparr>]"

definition fp_disable_learned :: "fast_path_rule_set \<Rightarrow> string \<Rightarrow> fast_path_rule_set" where
  "fp_disable_learned rs i =
     map (\<lambda>r. if tr_learned_rule_id r = Some i then r\<lparr>tr_enabled := False\<rparr> else r) rs"

definition fp_enable_learned :: "fast_path_rule_set \<Rightarrow> string \<Rightarrow> fast_path_rule_set" where
  "fp_enable_learned rs i =
     map (\<lambda>r. if tr_learned_rule_id r = Some i then r\<lparr>tr_enabled := True\<rparr> else r) rs"

definition fp_list_learned :: "fast_path_rule_set \<Rightarrow> string list" where
  "fp_list_learned rs = List.map_filter tr_learned_rule_id rs"

definition fp_conditions_ok ::
  "(json \<Rightarrow> json \<Rightarrow> bool) \<Rightarrow> intent_envelope \<Rightarrow> fp_condition list \<Rightarrow> bool" where
  "fp_conditions_ok jeq i cs =
     list_all (\<lambda>c. case map_of (int_constraints i) (fc_field c) of
                     Some v \<Rightarrow> jeq v (fc_equals c) | None \<Rightarrow> False) cs"

definition fp_map_request :: "intent_envelope \<Rightarrow> field_mapping list \<Rightarrow> json" where
  "fp_map_request i fms =
     JObject (fold (\<lambda>fm m. case map_of (int_constraints i) (fm_from fm) of
                              Some v \<Rightarrow> btree_entry (fm_to fm) v (\<lambda>_. v) m | None \<Rightarrow> m) fms [])"

fun fp_evaluate :: "(json \<Rightarrow> json \<Rightarrow> bool) \<Rightarrow> fast_path_rule_set \<Rightarrow> intent_envelope \<Rightarrow> fast_path_outcome" where
  "fp_evaluate jeq [] i = NoMatch"
| "fp_evaluate jeq (t # ts) i =
     (if \<not> tr_enabled t then fp_evaluate jeq ts i
      else let r = tr_rule t
           in if intent_type_debug (int_type i) \<noteq> rp_intent_type (fpr_pattern r) then fp_evaluate jeq ts i
              else if int_domain i \<noteq> rp_domain (fpr_pattern r) then fp_evaluate jeq ts i
              else if \<not> fp_conditions_ok jeq i (fpr_conditions r) then fp_evaluate jeq ts i
              else FPMatch (fpr_target_capability r) (fp_map_request i (fpr_field_mapping r)))"

section \<open>Composition checks\<close>

datatype classification_hint = CH_Public | CH_Internal | CH_Pii | CH_Regulated string

fun hint_level :: "classification_hint \<Rightarrow> u8" where
  "hint_level CH_Public = 0"
| "hint_level CH_Internal = 1"
| "hint_level CH_Pii = 2"
| "hint_level (CH_Regulated _) = 3"

fun level_of_capability :: "data_classification \<Rightarrow> u8" where
  "level_of_capability DC_Public = 0"
| "level_of_capability DC_Internal = 1"
| "level_of_capability DC_Confidential = 2"
| "level_of_capability DC_Restricted = 3"

datatype composition_violation =
    DoubleWrite string "string list"
  | ClassificationLeak string string data_classification classification_hint
  | CrossTenantFanOut "string list"

type_synonym composition_checker = u32

definition composition_default :: composition_checker where
  "composition_default = 3"

definition writes_class :: "capability_contract \<Rightarrow> bool" where
  "writes_class c = (case cap_side_effect c of
     SE_Write \<Rightarrow> True | SE_Delete \<Rightarrow> True | SE_Send \<Rightarrow> True | SE_Payment \<Rightarrow> True | _ \<Rightarrow> False)"

definition is_safe :: "composition_checker \<Rightarrow> capability_contract list \<Rightarrow> bool" where
  "is_safe max_writes caps \<longleftrightarrow> of_nat (length (filter writes_class caps)) \<le> max_writes"

record entity_aware_composition =
  eac_base :: composition_checker
  eac_lookup :: "(string \<Rightarrow> classification_hint option) option"

text \<open>The writers of each entity in a \<open>BTreeMap\<close>.\<close>

definition entity_writers :: "capability_contract list \<Rightarrow> (string \<times> string list) list" where
  "entity_writers caps =
     fold (\<lambda>cap m. fold (\<lambda>w m. btree_entry (er_entity_id w) [] (\<lambda>cs. cs @ [cap_id cap]) m)
                        (cap_writes cap) m) caps []"

definition detect_double_write :: "capability_contract list \<Rightarrow> composition_violation option" where
  "detect_double_write caps =
     (case find (\<lambda>(e, cs). length cs \<ge> 2) (entity_writers caps) of
        Some (e, cs) \<Rightarrow> Some (DoubleWrite e cs) | None \<Rightarrow> None)"

fun leak_in_reads ::
  "capability_contract \<Rightarrow> (string \<Rightarrow> classification_hint option) \<Rightarrow> entity_ref_lite list
   \<Rightarrow> composition_violation option" where
  "leak_in_reads cap lookup [] = None"
| "leak_in_reads cap lookup (r # rs) =
     (case lookup (er_entity_id r) of
        None \<Rightarrow> leak_in_reads cap lookup rs
      | Some hint \<Rightarrow>
          if hint_level hint > level_of_capability (cap_data_classification cap)
          then Some (ClassificationLeak (cap_id cap) (er_entity_id r) (cap_data_classification cap) hint)
          else leak_in_reads cap lookup rs)"

fun detect_classification_leak ::
  "(string \<Rightarrow> classification_hint option) \<Rightarrow> capability_contract list \<Rightarrow> composition_violation option" where
  "detect_classification_leak lookup [] = None"
| "detect_classification_leak lookup (c # cs) =
     (case leak_in_reads c lookup (cap_reads c) of
        Some v \<Rightarrow> Some v | None \<Rightarrow> detect_classification_leak lookup cs)"

definition tenant_writes :: "capability_contract list \<Rightarrow> (string \<times> string) list" where
  "tenant_writes caps =
     concat (map (\<lambda>c. List.map_filter (\<lambda>w. map_option (\<lambda>t. (er_entity_id w, t)) (er_tenant w)) (cap_writes c)) caps)"

definition detect_cross_tenant_fan_out :: "capability_contract list \<Rightarrow> composition_violation option" where
  "detect_cross_tenant_fan_out caps =
     (let ws = tenant_writes caps; tenants = btree_collect (map snd ws)
      in if length tenants \<ge> 2 \<and>
            list_ex (\<lambda>e. length (btree_collect (map snd (filter (\<lambda>w. fst w = e) ws))) \<ge> 2) (map fst ws)
         then Some (CrossTenantFanOut tenants) else None)"

definition composition_check ::
  "entity_aware_composition \<Rightarrow> capability_contract list \<Rightarrow> (unit, composition_violation) result" where
  "composition_check e caps =
     (if \<not> is_safe (eac_base e) caps then Err (DoubleWrite [] (map cap_id caps))
      else case detect_cross_tenant_fan_out caps of
             Some v \<Rightarrow> Err v
           | None \<Rightarrow>
               case detect_double_write caps of
                 Some v \<Rightarrow> Err v
               | None \<Rightarrow>
                   case eac_lookup e of
                     None \<Rightarrow> Ok ()
                   | Some lookup \<Rightarrow>
                       case detect_classification_leak lookup caps of
                         Some v \<Rightarrow> Err v | None \<Rightarrow> Ok ())"

section \<open>Plan cache\<close>

definition key_for :: "crypto \<Rightarrow> string \<Rightarrow> string \<Rightarrow> string \<Rightarrow> string" where
  "key_for c goal domain ity =
     hex c (sha256 c (as_bytes (ity @ ''|'' @ domain @ ''|'' @ to_lowercase (trim goal))))"

record plan_cache =
  pc_map :: "execution_plan store"
  pc_order :: "string list"
  pc_capacity :: nat

definition DEFAULT_CAPACITY :: nat where
  "DEFAULT_CAPACITY = 4096"

definition cache_with_capacity :: "nat \<Rightarrow> plan_cache" where
  "cache_with_capacity n = \<lparr>pc_map = [], pc_order = [], pc_capacity = n\<rparr>"

definition cache_new :: plan_cache where
  "cache_new = cache_with_capacity DEFAULT_CAPACITY"

definition cache_get :: "plan_cache \<Rightarrow> string \<Rightarrow> execution_plan option" where
  "cache_get c k = map_of (pc_map c) k"

fun cache_evict :: "nat \<Rightarrow> execution_plan store \<Rightarrow> string list \<Rightarrow> execution_plan store \<times> string list" where
  "cache_evict cap m [] = (m, [])"
| "cache_evict cap m (oldest # ord) =
     (if length m \<ge> cap then cache_evict cap (store_remove m oldest) ord else (m, oldest # ord))"

definition cache_put :: "plan_cache \<Rightarrow> string \<Rightarrow> execution_plan \<Rightarrow> plan_cache" where
  "cache_put c k p =
     (if map_of (pc_map c) k \<noteq> None then c\<lparr>pc_map := store_insert k p (pc_map c)\<rparr>
      else let (m, ord) = cache_evict (pc_capacity c) (pc_map c) (pc_order c)
           in c\<lparr>pc_map := store_insert k p m, pc_order := ord @ [k]\<rparr>)"

definition cache_len :: "plan_cache \<Rightarrow> nat" where
  "cache_len c = length (pc_map c)"

section \<open>Topological order\<close>

text \<open>The recursion of \<open>visit\<close> through the loop over the dependencies: the visited identifiers
  and the order built so far are passed along. \<open>by_id\<close> keeps, as a hash map collected from the
  list does, the last capability of each identifier.\<close>

definition caps_by_id :: "capability_contract list \<Rightarrow> (string \<times> capability_contract) list" where
  "caps_by_id caps = rev (map (\<lambda>c. (cap_id c, c)) caps)"

function visit_deps ::
  "(string \<times> capability_contract) list \<Rightarrow> string list \<Rightarrow> string list \<times> capability_contract list
   \<Rightarrow> string list \<times> capability_contract list" where
  "visit_deps by_id [] (vis, ord) = (vis, ord)"
| "visit_deps by_id (d # ds) (vis, ord) =
     (case map_of by_id d of
        None \<Rightarrow> visit_deps by_id ds (vis, ord)
      | Some c \<Rightarrow>
          if cap_id c \<in> set vis then visit_deps by_id ds (vis, ord)
          else let (vis', ord') = visit_deps by_id (cap_depends_on c) (cap_id c # vis, ord)
               in visit_deps by_id ds (vis', ord' @ [c]))"
  by pat_completeness auto

lemma visit_deps_grows_dom:
  "visit_deps_dom (m, ds, st) \<Longrightarrow> set (fst st) \<subseteq> set (fst (visit_deps m ds st))"
proof (induction m ds st rule: visit_deps.pinduct)
  case (2 by_id d ds vis ord)
  show ?case
  proof (cases "map_of by_id d")
    case None
    with 2 show ?thesis by (simp add: visit_deps.psimps)
  next
    case (Some c)
    show ?thesis
    proof (cases "cap_id c \<in> set vis")
      case True
      with 2 Some show ?thesis by (simp add: visit_deps.psimps)
    next
      case False
      obtain vis' ord' where v: "visit_deps by_id (cap_depends_on c) (cap_id c # vis, ord) = (vis', ord')" by fastforce
      with 2 Some False have "insert (cap_id c) (set vis) \<subseteq> set vis'" by auto
      moreover from 2 Some False v have "set vis' \<subseteq> set (fst (visit_deps by_id ds (vis', ord' @ [c])))" by force
      ultimately show ?thesis using 2(1) Some False v by (auto simp: visit_deps.psimps)
    qed
  qed
qed (simp add: visit_deps.psimps)

definition unvisited :: "(string \<times> capability_contract) list \<Rightarrow> string list \<Rightarrow> nat" where
  "unvisited m vis = card (cap_id ` snd ` set m - set vis)"

lemma unvisited_less:
  assumes "map_of m d = Some c" "cap_id c \<notin> set vis" "insert (cap_id c) (set vis) \<subseteq> set vis'"
  shows "unvisited m vis' < unvisited m vis"
  unfolding unvisited_def
proof (rule psubset_card_mono)
  have "cap_id c \<in> cap_id ` snd ` set m" using map_of_SomeD[OF assms(1)] by force
  with assms show "cap_id ` snd ` set m - set vis' \<subset> cap_id ` snd ` set m - set vis" by auto
qed simp

lemma unvisited_nested:
  assumes "map_of m d = Some c" "cap_id c \<notin> set vis"
    and "(vis', ord') = visit_deps m deps (cap_id c # vis, ord)"
    and "visit_deps_dom (m, deps, cap_id c # vis, ord)"
  shows "unvisited m vis' < unvisited m vis"
proof -
  have "set (cap_id c # vis) \<subseteq> set vis'"
    using visit_deps_grows_dom[OF assms(4)] by (simp flip: assms(3))
  with assms(1,2) show ?thesis by (intro unvisited_less[of m d c]) auto
qed

termination visit_deps
  by (relation "measures [\<lambda>(m, ds, st). unvisited m (fst st), \<lambda>(m, ds, st). length ds]")
     (auto intro: unvisited_less dest: unvisited_nested)

definition visit ::
  "(string \<times> capability_contract) list \<Rightarrow> capability_contract \<Rightarrow> string list \<times> capability_contract list
   \<Rightarrow> string list \<times> capability_contract list" where
  "visit by_id c st =
     (if cap_id c \<in> set (fst st) then st
      else let (vis, ord) = visit_deps by_id (cap_depends_on c) (cap_id c # fst st, snd st)
           in (vis, ord @ [c]))"

definition topo_sort :: "capability_contract list \<Rightarrow> capability_contract list" where
  "topo_sort caps = snd (fold (visit (caps_by_id caps)) caps ([], []))"

section \<open>The planner\<close>

datatype planner_error = PE_Registry registry_error | PE_Bounds bounds_violation
  | PE_UnsafeComposition | PE_UnsafeEntityComposition composition_violation | PE_NoCapability

record planner =
  pl_registry :: registry
  pl_bounds :: bounded_autonomy
  pl_composition :: composition_checker
  pl_entity_composition :: "entity_aware_composition option"
  pl_cache :: plan_cache

definition planner_new :: "registry \<Rightarrow> bounded_autonomy \<Rightarrow> composition_checker \<Rightarrow> planner" where
  "planner_new g b c = \<lparr>pl_registry = g, pl_bounds = b, pl_composition = c,
     pl_entity_composition = None, pl_cache = cache_new\<rparr>"

definition with_entity_composition :: "planner \<Rightarrow> entity_aware_composition \<Rightarrow> planner" where
  "with_entity_composition p e = p\<lparr>pl_entity_composition := Some e\<rparr>"

text \<open>The UTF-8 bytes of the arrow in the input mappings.\<close>

definition arrow :: string where
  "arrow = [CHR '' '', CHR 0xE2, CHR 0x86, CHR 0x92, CHR '' '']"

definition choose_caps :: "discovery_result list \<Rightarrow> capability_contract list" where
  "choose_caps hits =
     (case hits of
        [] \<Rightarrow> []
      | h # hs \<Rightarrow> dr_capability h #
          filter (\<lambda>c. cap_id c \<in> set (cap_depends_on (dr_capability h))) (map dr_capability hs))"

definition plan_step_of :: "(nat \<Rightarrow> string) \<Rightarrow> nat \<Rightarrow> capability_contract \<Rightarrow> planned_step" where
  "plan_step_of fresh idx cap =
     \<lparr>pst_step_id = of_nat (idx + 1),
      pst_kind = (if cap_deterministic cap then PK_Deterministic else PK_Agent),
      pst_capability = cap_id cap,
      pst_input_mapping = (if idx = 0 then ''intent.goal'' @ arrow @ cap_id cap
                           else ''step_'' @ show_nat idx @ ''.output'' @ arrow @ cap_id cap),
      pst_output_id = fresh idx\<rparr>"

definition planner_hits :: "registry \<Rightarrow> intent_envelope \<Rightarrow> discovery_result list" where
  "planner_hits g i =
     (let hits = discover g \<lparr>dq_query = int_goal i, dq_domain = Some (int_domain i), dq_limit = 10\<rparr>
      in if hits = [] then discover g (discovery_query_new (int_goal i)) else hits)"

definition planner_key :: "crypto \<Rightarrow> intent_envelope \<Rightarrow> string" where
  "planner_key cr i = key_for cr (int_goal i) (int_domain i) (intent_type_debug (int_type i))"

definition planner_plan ::
  "crypto \<Rightarrow> (nat \<Rightarrow> string) \<Rightarrow> planner \<Rightarrow> intent_envelope \<Rightarrow> planner \<times> (execution_plan, planner_error) result" where
  "planner_plan cr fresh p i =
     (let key = planner_key cr i
      in case cache_get (pl_cache p) key of
           Some plan \<Rightarrow> (p, Ok plan)
         | None \<Rightarrow>
             let hits = planner_hits (pl_registry p) i
             in if hits = [] then (p, Err PE_NoCapability)
                else let chosen = choose_caps hits
                     in if \<not> is_safe (pl_composition p) chosen then (p, Err PE_UnsafeComposition)
                        else case (case pl_entity_composition p of
                                     Some ec \<Rightarrow> composition_check ec chosen | None \<Rightarrow> Ok ()) of
                               Inl v \<Rightarrow> (p, Err (PE_UnsafeEntityComposition v))
                             | Inr _ \<Rightarrow>
                                 let ordered = topo_sort chosen;
                                     steps = map (\<lambda>(idx, cap). plan_step_of fresh idx cap) (enumerate 0 ordered);
                                     plan = \<lparr>plan_intent_id = int_id i, plan_steps = steps\<rparr>
                                 in case bounds_validate (pl_bounds p) i plan of
                                      Inl v \<Rightarrow> (p, Err (PE_Bounds v))
                                    | Inr _ \<Rightarrow> (p\<lparr>pl_cache := cache_put (pl_cache p) key plan\<rparr>, Ok plan))"

section \<open>The cache holds a bounded number of plans\<close>

definition cache_inv :: "plan_cache \<Rightarrow> bool" where
  "cache_inv c \<longleftrightarrow> distinct (map fst (pc_map c)) \<and> distinct (pc_order c)
     \<and> set (pc_order c) = fst ` set (pc_map c) \<and> length (pc_map c) \<le> max 1 (pc_capacity c)"

lemma store_remove_simps [simp]:
  "fst ` set (store_remove m k) = fst ` set m - {k}"
  "distinct (map fst m) \<Longrightarrow> distinct (map fst (store_remove m k))"
  by (simp_all add: store_remove_def distinct_delete flip: set_map set_removeAll delete_keys)

lemma update_fresh: "k \<notin> fst ` set m \<Longrightarrow> AList.update k v m = m @ [(k, v)]"
  by (induction m) auto

lemma length_update_old: "k \<in> fst ` set m \<Longrightarrow> length (AList.update k v m) = length m"
  by (induction m) auto

lemma cache_evict_inv:
  assumes "distinct (map fst m)" "distinct ord" "set ord = fst ` set m" "cache_evict cap m ord = (m', ord')"
  shows "distinct (map fst m') \<and> distinct ord' \<and> set ord' = fst ` set m' \<and>
    (length m' < cap \<or> m' = []) \<and> (\<exists>pre. ord = pre @ ord') \<and>
    (\<forall>k \<in> set ord'. map_of m' k = map_of m k)"
  using assms
proof (induction cap m ord rule: cache_evict.induct)
  case (2 cap m k ord)
  show ?case
  proof (cases "length m \<ge> cap")
    case True
    have keys: "set ord = fst ` set (store_remove m k)" using 2(3,4) by auto
    from 2(1)[OF True _ _ keys] 2(2,3,5) True
    have "distinct (map fst m') \<and> distinct ord' \<and> set ord' = fst ` set m' \<and>
      (length m' < cap \<or> m' = []) \<and> (\<exists>pre. ord = pre @ ord') \<and>
      (\<forall>j \<in> set ord'. map_of m' j = map_of (store_remove m k) j)" by auto
    moreover from this 2(3) have "k \<notin> set ord'" by auto
    ultimately show ?thesis
      by (auto simp: store_remove_def delete_conv' append_eq_Cons_conv)
  next
    case False
    with 2(5) have "m' = m" "ord' = k # ord" by auto
    with 2(2-4) False show ?thesis by simp
  qed
qed simp

lemma cache_inv_put: "cache_inv c \<Longrightarrow> cache_inv (cache_put c k p)"
proof (cases "map_of (pc_map c) k = None")
  case True
  assume inv: "cache_inv c"
  obtain m ord where e: "cache_evict (pc_capacity c) (pc_map c) (pc_order c) = (m, ord)" by fastforce
  from inv cache_evict_inv[OF _ _ _ e] have *: "distinct (map fst m)" "distinct ord"
    "set ord = fst ` set m" "length m < pc_capacity c \<or> m = []" "\<exists>pre. pc_order c = pre @ ord"
    by (simp_all add: cache_inv_def)
  from True inv *(5) have new: "k \<notin> set ord" by (auto simp: cache_inv_def map_of_eq_None_iff)
  with *(3) have "AList.update k p m = m @ [(k, p)]" by (simp add: update_fresh)
  with True e * new show ?thesis by (auto simp: cache_put_def cache_inv_def store_insert_def)
next
  case False
  assume "cache_inv c"
  with False show ?thesis
    by (auto simp: cache_put_def cache_inv_def store_insert_def distinct_update dom_update
        map_of_eq_None_iff length_update_old)
qed

section \<open>Topological order: every dependency first\<close>

text \<open>The loop over the dependencies visits the capability of each of them.\<close>

lemma visit_deps_Cons:
  "visit_deps m (d # ds) st =
     (case map_of m d of None \<Rightarrow> visit_deps m ds st | Some c \<Rightarrow> visit_deps m ds (visit m c st))"
  by (cases st) (simp add: visit_def split: option.splits prod.splits)

lemma visit_deps_Nil [simp]: "visit_deps m [] st = st"
  by (cases st) simp

text \<open>What every visit keeps: the visited identifiers grow by what is emitted, and each
  identifier is emitted once.\<close>

definition emits :: "string list \<times> capability_contract list \<Rightarrow> string list \<times> capability_contract list \<Rightarrow> bool" where
  "emits st st' \<longleftrightarrow> (\<exists>new. snd st' = snd st @ new \<and> set (fst st') = set (fst st) \<union> cap_id ` set new
     \<and> distinct (map cap_id new) \<and> set (fst st) \<inter> cap_id ` set new = {})"

lemma emits_refl [intro]: "emits st st"
  by (simp add: emits_def)

lemma emits_trans [trans]: "emits a b \<Longrightarrow> emits b c \<Longrightarrow> emits a c"
  unfolding emits_def by (elim exE conjE) (rule_tac x = "new @ newa" in exI, auto)

lemma emits_finish:
  assumes "emits (cap_id c # vis, ord) (vis', ord')" "cap_id c \<notin> set vis"
  shows "emits (vis, ord) (vis', ord' @ [c])"
  using assms unfolding emits_def by (elim exE conjE) (rule_tac x = "new @ [c]" in exI, auto)

lemma visit_deps_emits: "emits st (visit_deps m ds st)"
proof (induction m ds st rule: visit_deps.induct)
  case (2 by_id d ds vis ord)
  show ?case
  proof (cases "map_of by_id d")
    case None
    with 2(1) show ?thesis by simp
  next
    case (Some c)
    show ?thesis
    proof (cases "cap_id c \<in> set vis")
      case True
      with Some 2(2) show ?thesis by simp
    next
      case False
      obtain v t where r: "visit_deps by_id (cap_depends_on c) (cap_id c # vis, ord) = (v, t)" by fastforce
      with 2(3)[OF Some False] False have "emits (vis, ord) (v, t @ [c])" by (auto intro: emits_finish)
      also have "emits (v, t @ [c]) (visit_deps by_id ds (v, t @ [c]))"
        using 2(4)[OF Some False r[symmetric] refl] .
      finally show ?thesis using Some False r by simp
    qed
  qed
qed auto

lemma visit_emits: "emits st (visit m c st)"
proof (cases "cap_id c \<in> set (fst st)")
  case False
  obtain v t where r: "visit_deps m (cap_depends_on c) (cap_id c # fst st, snd st) = (v, t)" by fastforce
  with visit_deps_emits[of "(cap_id c # fst st, snd st)" m "cap_depends_on c"] False
    have "emits (fst st, snd st) (v, t @ [c])" by (intro emits_finish) simp_all
  with r False show ?thesis by (cases st) (simp add: visit_def)
qed (auto simp: visit_def)

lemma fold_visit_emits: "emits st (fold (visit m) cs st)"
proof (induction cs arbitrary: st)
  case (Cons c cs)
  have "emits st (visit m c st)" by (rule visit_emits)
  also have "emits (visit m c st) (fold (visit m) cs (visit m c st))" by (rule Cons.IH)
  finally show ?case by simp
qed (simp add: emits_refl)

lemma visit_visited: "cap_id c \<in> set (fst (visit m c st))"
  using visit_deps_emits[of "(cap_id c # fst st, snd st)" m "cap_depends_on c"]
  by (auto simp: visit_def emits_def split: prod.splits)

lemma fold_visit_visited: "cap_id ` set cs \<subseteq> set (fst (fold (visit m) cs st))"
proof (induction cs arbitrary: st)
  case (Cons c cs)
  have "cap_id c \<in> set (fst (fold (visit m) cs (visit m c st)))"
    using fold_visit_emits[of "visit m c st" m cs] visit_visited[of c m st] by (auto simp: emits_def)
  with Cons show ?case by simp
qed simp

text \<open>In the order each capability comes after every dependency that is in the set.\<close>

definition deps_first :: "(string \<times> capability_contract) list \<Rightarrow> capability_contract list \<Rightarrow> bool" where
  "deps_first m ord \<longleftrightarrow> (\<forall>xs c ys. ord = xs @ c # ys \<longrightarrow>
     (\<forall>d \<in> set (cap_depends_on c). \<forall>e. map_of m d = Some e \<longrightarrow> cap_id e \<in> cap_id ` set xs))"

lemma deps_first_snoc:
  assumes "deps_first m ord" "\<And>d e. d \<in> set (cap_depends_on c) \<Longrightarrow> map_of m d = Some e \<Longrightarrow> cap_id e \<in> cap_id ` set ord"
  shows "deps_first m (ord @ [c])"
  unfolding deps_first_def
proof (intro allI impI)
  fix xs c' ys assume eq: "ord @ [c] = xs @ c' # ys"
  show "\<forall>d \<in> set (cap_depends_on c'). \<forall>e. map_of m d = Some e \<longrightarrow> cap_id e \<in> cap_id ` set xs"
  proof (cases ys rule: rev_cases)
    case Nil
    with eq assms(2) show ?thesis by auto
  next
    case (snoc zs z)
    with eq have "ord = xs @ c' # zs" by simp
    with assms(1) show ?thesis unfolding deps_first_def by blast
  qed
qed

definition ranked :: "(string \<Rightarrow> nat) \<Rightarrow> (string \<times> capability_contract) list \<Rightarrow> capability_contract \<Rightarrow> bool" where
  "ranked rank m c \<longleftrightarrow>
     (\<forall>d \<in> set (cap_depends_on c). \<forall>e. map_of m d = Some e \<longrightarrow> rank (cap_id e) < rank (cap_id c))"

definition stack_above :: "(string \<Rightarrow> nat) \<Rightarrow> nat \<Rightarrow> string list \<times> capability_contract list \<Rightarrow> bool" where
  "stack_above rank r st \<longleftrightarrow> (\<forall>v \<in> set (fst st). v \<in> cap_id ` set (snd st) \<or> r \<le> rank v)"

lemma stack_above_finish:
  assumes "emits (cap_id c # vis, ord) (v, t)" "stack_above rank r (vis, ord)"
  shows "stack_above rank r (v, t @ [c])"
  using assms by (auto simp: emits_def stack_above_def image_Un)

lemma visit_deps_first:
  assumes "\<forall>c \<in> snd ` set m. ranked rank m c"
  shows "\<forall>d \<in> set ds. \<forall>e. map_of m d = Some e \<longrightarrow> rank (cap_id e) < r \<Longrightarrow>
    deps_first m (snd st) \<Longrightarrow> stack_above rank r st \<Longrightarrow>
    deps_first m (snd (visit_deps m ds st)) \<and> stack_above rank r (visit_deps m ds st) \<and>
    (\<forall>d \<in> set ds. \<forall>e. map_of m d = Some e \<longrightarrow> cap_id e \<in> cap_id ` set (snd (visit_deps m ds st)))"
  using assms
proof (induction m ds st arbitrary: r rule: visit_deps.induct)
  case (2 by_id d ds vis ord)
  note prems = 2(5-8)
  show ?case
  proof (cases "map_of by_id d")
    case None
    with 2(1)[OF None, of r] prems show ?thesis by simp
  next
    case (Some c)
    have rc: "rank (cap_id c) < r" using prems(1) Some by simp
    show ?thesis
    proof (cases "cap_id c \<in> set vis")
      case True
      with prems(3) rc have "cap_id c \<in> cap_id ` set ord" by (fastforce simp: stack_above_def)
      with visit_deps_emits[of "(vis, ord)" by_id ds]
        have "cap_id c \<in> cap_id ` set (snd (visit_deps by_id ds (vis, ord)))" by (auto simp: emits_def)
      with 2(2)[OF Some True, of r] prems Some True show ?thesis by simp
    next
      case False
      obtain v t where r: "visit_deps by_id (cap_depends_on c) (cap_id c # vis, ord) = (v, t)" by fastforce
      from prems(4) map_of_SomeD[OF Some] have rk: "ranked rank by_id c" by force
      have inner: "deps_first by_id t \<and> stack_above rank (rank (cap_id c)) (v, t) \<and>
        (\<forall>d \<in> set (cap_depends_on c). \<forall>e. map_of by_id d = Some e \<longrightarrow> cap_id e \<in> cap_id ` set t)"
        using 2(3)[OF Some False, of "rank (cap_id c)"] prems(2-4) rk rc r
        by (fastforce simp: ranked_def stack_above_def)
      have em: "emits (cap_id c # vis, ord) (v, t)"
        using visit_deps_emits[of "(cap_id c # vis, ord)" by_id "cap_depends_on c"] r by simp
      have first: "deps_first by_id (t @ [c])" using inner by (intro deps_first_snoc) auto
      have "cap_id c \<in> cap_id ` set (snd (visit_deps by_id ds (v, t @ [c])))"
        using visit_deps_emits[of "(v, t @ [c])" by_id ds] by (auto simp: emits_def)
      with 2(4)[OF Some False r[symmetric] refl, of r] first stack_above_finish[OF em prems(3)]
        prems(1,4) Some False r show ?thesis by simp
    qed
  qed
qed auto

lemma visit_first:
  assumes "\<forall>c \<in> snd ` set m. ranked rank m c" "ranked rank m c"
    and "deps_first m (snd st)" "set (fst st) \<subseteq> cap_id ` set (snd st)"
  shows "deps_first m (snd (visit m c st)) \<and> set (fst (visit m c st)) \<subseteq> cap_id ` set (snd (visit m c st))"
proof (cases "cap_id c \<in> set (fst st)")
  case True
  with assms show ?thesis by (simp add: visit_def)
next
  case False
  let ?st = "(cap_id c # fst st, snd st)"
  obtain v t where r: "visit_deps m (cap_depends_on c) ?st = (v, t)" by fastforce
  have above: "stack_above rank (rank (cap_id c)) ?st" using assms(4) by (auto simp: stack_above_def)
  from visit_deps_first[OF assms(1) _ _ above, of "cap_depends_on c"] assms(2,3) r
    have "deps_first m t" "\<forall>d \<in> set (cap_depends_on c). \<forall>e. map_of m d = Some e \<longrightarrow> cap_id e \<in> cap_id ` set t"
    by (auto simp: ranked_def)
  then have "deps_first m (t @ [c])" by (intro deps_first_snoc) auto
  moreover have "set v \<subseteq> cap_id ` set (t @ [c])"
    using visit_deps_emits[of ?st m "cap_depends_on c"] r assms(4) by (auto simp: emits_def image_Un)
  ultimately show ?thesis using r False by (simp add: visit_def)
qed

lemma fold_visit_first:
  assumes "\<forall>c \<in> snd ` set m. ranked rank m c"
  shows "\<forall>c \<in> set cs. ranked rank m c \<Longrightarrow> deps_first m (snd st) \<Longrightarrow>
    set (fst st) \<subseteq> cap_id ` set (snd st) \<Longrightarrow> deps_first m (snd (fold (visit m) cs st))"
proof (induction cs arbitrary: st)
  case (Cons c cs)
  with visit_first[OF assms, of c st] show ?case by simp
qed simp

text \<open>A visit emits capabilities of the set only.\<close>

lemma visit_deps_from: "set (snd (visit_deps m ds st)) \<subseteq> set (snd st) \<union> snd ` set m"
proof (induction m ds st rule: visit_deps.induct)
  case (2 by_id d ds vis ord)
  show ?case
  proof (cases "map_of by_id d")
    case None
    with 2(1) show ?thesis by simp
  next
    case (Some c)
    from map_of_SomeD[OF Some] have c: "c \<in> snd ` set by_id" by force
    show ?thesis
    proof (cases "cap_id c \<in> set vis")
      case True
      with Some 2(2) show ?thesis by simp
    next
      case False
      obtain v t where r: "visit_deps by_id (cap_depends_on c) (cap_id c # vis, ord) = (v, t)" by fastforce
      from 2(3)[OF Some False] r have "set t \<subseteq> set ord \<union> snd ` set by_id" by simp
      with c 2(4)[OF Some False r[symmetric] refl] Some False r show ?thesis by auto
    qed
  qed
qed simp

lemma visit_from: "set (snd (visit m c st)) \<subseteq> insert c (set (snd st) \<union> snd ` set m)"
  using visit_deps_from[of m "cap_depends_on c" "(cap_id c # fst st, snd st)"]
  by (auto simp: visit_def split: prod.splits)

lemma fold_visit_from: "set (snd (fold (visit m) cs st)) \<subseteq> set cs \<union> set (snd st) \<union> snd ` set m"
proof (induction cs arbitrary: st)
  case (Cons c cs)
  from Cons[of "visit m c st"] visit_from[of m c st] show ?case by auto
qed simp

lemma snd_caps_by_id: "snd ` set (caps_by_id caps) = set caps"
  by (auto simp: caps_by_id_def image_image)

lemma topo_sort_perm:
  "set (topo_sort caps) \<subseteq> set caps" "cap_id ` set (topo_sort caps) = cap_id ` set caps"
  "distinct (map cap_id (topo_sort caps))"
proof -
  let ?m = "caps_by_id caps"
  show sub: "set (topo_sort caps) \<subseteq> set caps"
    using fold_visit_from[of ?m caps "([], [])"] by (auto simp: topo_sort_def snd_caps_by_id)
  from fold_visit_emits[of "([], [])" ?m caps]
  have em: "set (fst (fold (visit ?m) caps ([], []))) = cap_id ` set (topo_sort caps)"
    and "distinct (map cap_id (topo_sort caps))" by (auto simp: topo_sort_def emits_def)
  then show "distinct (map cap_id (topo_sort caps))" by simp
  show "cap_id ` set (topo_sort caps) = cap_id ` set caps"
    using sub fold_visit_visited[of caps ?m "([], [])"] em by auto
qed

lemma topo_sort_deps_first:
  assumes "\<forall>c \<in> set caps. ranked rank (caps_by_id caps) c"
  shows "deps_first (caps_by_id caps) (topo_sort caps)"
  unfolding topo_sort_def
  by (rule fold_visit_first[where rank = rank]) (use assms in \<open>auto simp: snd_caps_by_id deps_first_def\<close>)

section \<open>Composition: no entity is written twice\<close>

definition write_decls :: "capability_contract list \<Rightarrow> (string \<times> string) list" where
  "write_decls caps = concat (map (\<lambda>c. map (\<lambda>w. (er_entity_id w, cap_id c)) (cap_writes c)) caps)"

lemma entity_writers_fold:
  "entity_writers caps = fold (\<lambda>(e, i). btree_entry e [] (\<lambda>cs. cs @ [i])) (write_decls caps) []"
proof -
  have "fold (\<lambda>cap m. fold (\<lambda>w m. btree_entry (er_entity_id w) [] (\<lambda>cs. cs @ [cap_id cap]) m) (cap_writes cap) m) caps m
      = fold (\<lambda>(e, i). btree_entry e [] (\<lambda>cs. cs @ [i])) (write_decls caps) m" for m
    by (induction caps arbitrary: m) (simp_all add: write_decls_def fold_map comp_def)
  then show ?thesis by (simp add: entity_writers_def)
qed

lemma filter_fst_empty: "filter (\<lambda>d. fst d = e) ds = [] \<longleftrightarrow> e \<notin> fst ` set ds"
  by (force simp: filter_empty_conv)

lemma writers_fold:
  fixes ds :: "(string \<times> string) list"
  defines "m \<equiv> fold (\<lambda>(e, i). btree_entry e [] (\<lambda>cs. cs @ [i])) ds []"
  shows "sorted_wrt (<) (map fst m) \<and>
    (\<forall>e. map_of m e = (if e \<in> fst ` set ds then Some (map snd (filter (\<lambda>d. fst d = e) ds)) else None))"
  unfolding m_def
proof (induction ds rule: rev_induct)
  case (snoc d ds)
  obtain e i where d: "d = (e, i)" by fastforce
  from snoc show ?case
    by (simp add: d sorted_btree_entry map_of_btree_entry) (simp add: filter_fst_empty flip: filter_fst_empty)
qed simp

lemma distinct_fst_iff:
  "distinct (map fst ds) \<longleftrightarrow> (\<forall>e. length (filter (\<lambda>d. fst d = e) ds) \<le> 1)"
proof (induction ds)
  case (Cons d ds)
  have "fst d \<notin> fst ` set ds \<longleftrightarrow> filter (\<lambda>x. fst x = fst d) ds = []"
    by (simp add: filter_fst_empty)
  with Cons show ?case by (auto simp: le_Suc_eq)
qed simp

lemma detect_double_write_None: "detect_double_write caps = None \<longleftrightarrow> distinct (map fst (write_decls caps))"
proof -
  let ?ds = "write_decls caps"
  note w = writers_fold[of ?ds, folded entity_writers_fold]
  have dist: "distinct (map fst (entity_writers caps))" using w strict_sorted_iff by blast
  have "detect_double_write caps = None \<longleftrightarrow> find (\<lambda>(e, cs). length cs \<ge> 2) (entity_writers caps) = None"
    by (auto simp: detect_double_write_def split: option.splits)
  also have "\<dots> \<longleftrightarrow> (\<forall>e cs. (e, cs) \<in> set (entity_writers caps) \<longrightarrow> length cs \<le> 1)"
    by (auto simp: find_None_iff numeral_2_eq_2 not_less_eq_eq)
  also have "\<dots> \<longleftrightarrow> (\<forall>e cs. map_of (entity_writers caps) e = Some cs \<longrightarrow> length cs \<le> 1)"
    using dist by simp
  also have "\<dots> \<longleftrightarrow> (\<forall>e. length (filter (\<lambda>d. fst d = e) ?ds) \<le> 1)"
  proof (intro all_cong1)
    fix e
    show "(\<forall>cs. map_of (entity_writers caps) e = Some cs \<longrightarrow> length cs \<le> 1) \<longleftrightarrow>
      length (filter (\<lambda>d. fst d = e) ?ds) \<le> 1"
    proof (cases "e \<in> fst ` set ?ds")
      case True
      with w have "map_of (entity_writers caps) e = Some (map snd (filter (\<lambda>d. fst d = e) ?ds))" by presburger
      then show ?thesis by simp
    next
      case False
      with w have "map_of (entity_writers caps) e = None" by presburger
      moreover from False have "filter (\<lambda>d. fst d = e) ?ds = []" by (simp only: filter_fst_empty not_False_eq_True)
      ultimately show ?thesis by simp
    qed
  qed
  finally show ?thesis by (simp add: distinct_fst_iff)
qed

text \<open>A fan-out over two tenants writes some entity twice, so it is a double write as well.\<close>

lemma tenant_writes_entity: "mset (map fst (tenant_writes caps)) \<subseteq># mset (map fst (write_decls caps))"
proof -
  have one: "image_mset fst (mset (List.map_filter (\<lambda>w. map_option (Pair (er_entity_id w)) (er_tenant w)) ws))
      \<subseteq># image_mset er_entity_id (mset ws)" for ws
  proof (induction ws)
    case (Cons w ws)
    then show ?case
      by (cases "er_tenant w") (auto simp: List.map_filter_simps intro: subset_mset.order_trans[OF Cons])
  qed (simp add: List.map_filter_simps)
  show ?thesis
    by (induction caps) (auto simp: tenant_writes_def write_decls_def comp_def intro!: subset_mset.add_mono one)
qed

lemma distinct_submset: "mset xs \<subseteq># mset ys \<Longrightarrow> distinct ys \<Longrightarrow> distinct xs"
proof -
  assume sub: "mset xs \<subseteq># mset ys" and "distinct ys"
  then have "count (mset xs) a \<le> 1" for a
    by (metis distinct_count_atmost_1 le0 le_refl mset_subset_eq_count order_trans)
  then show "distinct xs"
    by (auto simp: distinct_count_atmost_1 count_mset_0_iff le_Suc_eq)
qed

lemma fan_out_double_write:
  assumes "distinct (map fst (write_decls caps))"
  shows "detect_cross_tenant_fan_out caps = None"
proof -
  let ?ws = "tenant_writes caps"
  have "distinct (map fst ?ws)" using assms tenant_writes_entity[of caps]
    by (rule distinct_submset[rotated])
  then have one: "length (filter (\<lambda>w. fst w = e) ?ws) \<le> 1" for e by (simp add: distinct_fst_iff)
  have "length (btree_collect (map snd (filter (\<lambda>w. fst w = e) ?ws))) \<le> length (filter (\<lambda>w. fst w = e) ?ws)" for e
    unfolding btree_collect_def length_sort by (rule order_trans[OF length_remdups_leq]) simp
  then have "length (btree_collect (map snd (filter (\<lambda>w. fst w = e) ?ws))) \<le> 1" for e
    using one order_trans by blast
  then show ?thesis by (auto simp: detect_cross_tenant_fan_out_def Let_def list_ex_iff numeral_2_eq_2 not_less_eq_eq)
qed

definition read_cleared :: "(string \<Rightarrow> classification_hint option) \<Rightarrow> capability_contract \<Rightarrow> bool" where
  "read_cleared lookup c \<longleftrightarrow> (\<forall>r \<in> set (cap_reads c). \<forall>h. lookup (er_entity_id r) = Some h \<longrightarrow>
     hint_level h \<le> level_of_capability (cap_data_classification c))"

lemma leak_in_reads_None:
  "leak_in_reads c lookup rs = None \<longleftrightarrow> (\<forall>r \<in> set rs. \<forall>h. lookup (er_entity_id r) = Some h \<longrightarrow>
     hint_level h \<le> level_of_capability (cap_data_classification c))"
  by (induction rs) (auto simp: not_less split: option.splits)

lemma detect_leak_None:
  "detect_classification_leak lookup caps = None \<longleftrightarrow> (\<forall>c \<in> set caps. read_cleared lookup c)"
proof -
  have "read_cleared lookup c \<longleftrightarrow> leak_in_reads c lookup (cap_reads c) = None" for c
    by (simp add: leak_in_reads_None read_cleared_def)
  then show ?thesis by (induction caps) (auto split: option.splits)
qed

lemma composition_check_Ok:
  "composition_check e caps = Ok () \<longleftrightarrow>
     is_safe (eac_base e) caps \<and> distinct (map fst (write_decls caps)) \<and>
     (\<forall>lookup. eac_lookup e = Some lookup \<longrightarrow> (\<forall>c \<in> set caps. read_cleared lookup c))"
  using fan_out_double_write[of caps] detect_double_write_None[of caps]
  by (auto simp: composition_check_def simp flip: detect_leak_None split: option.splits)

section \<open>The planner\<close>

lemma choose_caps_sub: "set (choose_caps hits) \<subseteq> dr_capability ` set hits"
  by (auto simp: choose_caps_def split: list.splits)

lemma planner_hits_registered:
  "r \<in> set (planner_hits g i) \<Longrightarrow> dr_capability r \<in> set (registry_list g)"
  by (auto simp: planner_hits_def Let_def discover_scan_alt dest!: set_discover split: if_splits)

lemma chosen_registered: "set (topo_sort (choose_caps (planner_hits g i))) \<subseteq> set (registry_list g)"
proof
  fix c assume "c \<in> set (topo_sort (choose_caps (planner_hits g i)))"
  then have "c \<in> dr_capability ` set (planner_hits g i)" using topo_sort_perm(1) choose_caps_sub by blast
  then show "c \<in> set (registry_list g)" using planner_hits_registered by blast
qed

lemma plan_steps_capabilities:
  "map pst_capability (map (\<lambda>(idx, cap). plan_step_of fresh idx cap) (enumerate n caps)) = map cap_id caps"
  by (induction caps arbitrary: n) (auto simp: plan_step_of_def)

lemma capacity_cache_put: "pc_capacity (cache_put c k p) = pc_capacity c"
  by (simp add: cache_put_def split: prod.split)

lemma cache_get_put: "cache_get (cache_put c k p) k = Some p"
  by (auto simp: cache_get_def cache_put_def store_insert_def update_conv' split: prod.splits)

text \<open>A successful call that misses the cache, taken apart.\<close>

lemma planner_plan_miss:
  assumes "cache_get (pl_cache p) (planner_key cr i) = None" "planner_plan cr fresh p i = (p', Ok plan)"
  defines "chosen \<equiv> choose_caps (planner_hits (pl_registry p) i)"
  shows "plan = \<lparr>plan_intent_id = int_id i,
      plan_steps = map (\<lambda>(idx, cap). plan_step_of fresh idx cap) (enumerate 0 (topo_sort chosen))\<rparr>"
    and "is_safe (pl_composition p) chosen"
    and "pl_entity_composition p = Some ec \<Longrightarrow> composition_check ec chosen = Ok ()"
    and "bounds_validate (pl_bounds p) i plan = Ok ()"
    and "p' = p\<lparr>pl_cache := cache_put (pl_cache p) (planner_key cr i) plan\<rparr>"
  using assms(1,2) unfolding chosen_def planner_plan_def
  by (auto simp: Let_def split: if_splits sum.splits option.splits)

lemma bounds_validate_Ok:
  "bounds_validate b i p = Ok () \<longleftrightarrow> of_nat (length (plan_steps p)) \<le> ba_max_steps b \<and>
     int_depth i \<le> ba_max_depth b \<and> \<not> flt (ba_max_cost_usd b) (max_cost_usd (int_budget i)) \<and>
     max_latency_ms (int_budget i) \<le> ba_max_latency_ms b"
  by (auto simp: bounds_validate_def not_less)

lemma planner_plan_cached:
  "planner_plan cr fresh p i = (p', Ok plan) \<Longrightarrow> cache_get (pl_cache p') (planner_key cr i) = Some plan"
proof (cases "cache_get (pl_cache p) (planner_key cr i)")
  case None
  assume "planner_plan cr fresh p i = (p', Ok plan)"
  from planner_plan_miss(5)[OF None this] show ?thesis by (simp add: cache_get_put)
qed (simp add: planner_plan_def)

lemma planner_plan_inv: "cache_inv (pl_cache p) \<Longrightarrow> cache_inv (pl_cache (fst (planner_plan cr fresh p i)))"
  by (auto simp: planner_plan_def Let_def cache_inv_put split: option.splits sum.splits)

definition ex_order :: capability_contract where
  "ex_order = ex_capability\<lparr>cap_id := ''cap-2'', cap_name := ''order'', cap_description := ''order stock'',
     cap_depends_on := [''cap-1''], cap_side_effect := SE_Write,
     cap_compensation := Some \<lparr>comp_endpoint = ''undo''\<rparr>, cap_writes := [entity_ref_new ''Order'']\<rparr>"

definition ex_planner :: planner where
  "ex_planner = with_entity_composition
     (planner_new (fst (registry_register ex_registry ex_order)) bounded_autonomy_default composition_default)
     \<lparr>eac_base = composition_default, eac_lookup = Some (\<lambda>_. Some CH_Internal)\<rparr>"

definition ex_plan_intent :: intent_envelope where
  "ex_plan_intent = ex_intent\<lparr>int_goal := ''order stock''\<rparr>"

definition ex_fresh :: "nat \<Rightarrow> string" where
  "ex_fresh n = ''node''"

lemma ex_order_simps [simp]:
  "cap_id ex_order = ''cap-2''" "cap_domains ex_order = [''shop'']" "cap_depends_on ex_order = [''cap-1'']"
  "cap_side_effect ex_order = SE_Write" "cap_writes ex_order = [entity_ref_new ''Order'']" "cap_reads ex_order = []"
  by (simp_all add: ex_order_def ex_capability_def)

lemma ex_order_valid: "validate_capability ex_order = Ok ()"
  by (simp add: validate_capability_def ex_order_def ex_capability_def trim_def is_whitespace_def requires_compensation_def)

lemma ex_planner_simps:
  "registry_list (pl_registry ex_planner) = [ex_capability, ex_order]"
  "pl_composition ex_planner = composition_default" "pl_bounds ex_planner = bounded_autonomy_default"
  "pl_entity_composition ex_planner = Some \<lparr>eac_base = composition_default, eac_lookup = Some (\<lambda>_. Some CH_Internal)\<rparr>"
  by (simp_all add: ex_planner_def with_entity_composition_def planner_new_def ex_registry_eq registry_register_def
      ex_order_valid rs_upsert_def store_insert_def registry_list_def rs_list_def store_values_def)

lemma ex_scores:
  "lexical_score ''order stock'' (haystack_of ex_capability) = Fin (1 / 2)"
  "lexical_score ''order stock'' (haystack_of ex_order) = Fin 1"
  by (simp_all add: lexical_score_def haystack_of_def ex_order_def ex_capability_def split_whitespace_def to_lowercase_def
      to_lower_char_bits is_whitespace_def Let_def f64_of_nat_def half_exact to_f64_2)

lemma ex_chosen:
  "planner_hits (pl_registry ex_planner) ex_plan_intent \<noteq> []"
  "choose_caps (planner_hits (pl_registry ex_planner) ex_plan_intent) = [ex_order, ex_capability]"
proof -
  have "map dr_capability (planner_hits (pl_registry ex_planner) ex_plan_intent) = [ex_order, ex_capability]"
    by (simp add: planner_hits_def discover_def ex_planner_simps stable_sort_by_def by_score_desc_def
        ex_plan_intent_def ex_intent_def ex_scores Let_def)
  then show "planner_hits (pl_registry ex_planner) ex_plan_intent \<noteq> []"
    "choose_caps (planner_hits (pl_registry ex_planner) ex_plan_intent) = [ex_order, ex_capability]"
    by (auto simp: choose_caps_def map_eq_Cons_conv)
qed

lemma ex_composition:
  "is_safe composition_default [ex_order, ex_capability]"
  "composition_check \<lparr>eac_base = composition_default, eac_lookup = Some (\<lambda>_. Some CH_Internal)\<rparr>
     [ex_order, ex_capability] = Ok ()"
  by (simp_all add: composition_check_def is_safe_def composition_default_def writes_class_def
      detect_cross_tenant_fan_out_def tenant_writes_def entity_ref_new_def List.map_filter_def
      detect_double_write_def entity_writers_def btree_collect_def Let_def)

lemma ex_planner_run:
  "cache_get (pl_cache ex_planner) (planner_key ex_crypto ex_plan_intent) = None"
  "(case snd (planner_plan ex_crypto ex_fresh ex_planner ex_plan_intent) of
      Inr plan \<Rightarrow> map pst_capability (plan_steps plan) = [''cap-1'', ''cap-2''] | Inl _ \<Rightarrow> False)"
proof -
  show miss: "cache_get (pl_cache ex_planner) (planner_key ex_crypto ex_plan_intent) = None"
    by (simp add: ex_planner_def with_entity_composition_def planner_new_def cache_new_def cache_with_capacity_def
        cache_get_def)
  have topo: "topo_sort [ex_order, ex_capability] = [ex_capability, ex_order]"
    by (simp add: topo_sort_def visit_def caps_by_id_def Let_def)
  have i: "int_depth ex_plan_intent = 0" "int_budget ex_plan_intent = ex_budget"
    by (simp_all add: ex_plan_intent_def ex_intent_def)
  show "(case snd (planner_plan ex_crypto ex_fresh ex_planner ex_plan_intent) of
      Inr plan \<Rightarrow> map pst_capability (plan_steps plan) = [''cap-1'', ''cap-2''] | Inl _ \<Rightarrow> False)"
    by (simp add: planner_plan_def miss ex_chosen ex_planner_simps ex_composition topo plan_step_of_def bounds_validate_def
        bounded_autonomy_default_def i ex_budget_def Let_def enumerate_eq_zip)
qed

text \<open>C9. What the planner promises of a plan it computes. On a registry reached by its own operations,
  a plan that does not come from the cache names each capability once, every one of them is
  registered under its identifier, the plan carries the identifier of the intent, it has no more
  steps than allowed and the intent respects the bounds on depth, cost and latency; the capabilities
  hold at most the allowed number of write-class side effects; when an entity-aware check is wired
  in, no entity is declared as written twice and every read is cleared for its classification; and
  when the dependencies have no cycle, each capability comes after the ones it depends on.\<close>

theorem planner_plan_sound:
  assumes "registry_reachable (pl_registry p)"
    and "cache_get (pl_cache p) (planner_key cr i) = None"
    and "planner_plan cr fresh p i = (p', Ok plan)"
  shows "\<exists>ord. map pst_capability (plan_steps plan) = map cap_id ord \<and> distinct (map cap_id ord)
    \<and> (\<forall>c \<in> set ord. registry_get (pl_registry p) (cap_id c) = Ok c)
    \<and> plan_intent_id plan = int_id i
    \<and> of_nat (length ord) \<le> ba_max_steps (pl_bounds p) \<and> int_depth i \<le> ba_max_depth (pl_bounds p)
    \<and> \<not> flt (ba_max_cost_usd (pl_bounds p)) (max_cost_usd (int_budget i))
    \<and> max_latency_ms (int_budget i) \<le> ba_max_latency_ms (pl_bounds p)
    \<and> is_safe (pl_composition p) (choose_caps (planner_hits (pl_registry p) i))
    \<and> set ord \<subseteq> set (choose_caps (planner_hits (pl_registry p) i))
    \<and> (\<forall>ec. pl_entity_composition p = Some ec \<longrightarrow>
         distinct (map fst (write_decls (choose_caps (planner_hits (pl_registry p) i)))) \<and>
         (\<forall>lookup. eac_lookup ec = Some lookup \<longrightarrow> (\<forall>c \<in> set ord. read_cleared lookup c)))
    \<and> ((\<exists>rank. \<forall>c \<in> set (choose_caps (planner_hits (pl_registry p) i)).
           ranked rank (caps_by_id (choose_caps (planner_hits (pl_registry p) i))) c) \<longrightarrow>
         deps_first (caps_by_id (choose_caps (planner_hits (pl_registry p) i))) ord)"
proof -
  let ?chosen = "choose_caps (planner_hits (pl_registry p) i)"
  note miss = planner_plan_miss[OF assms(2,3)]
  have inv: "registry_inv (pl_registry p)" by (rule registry_reachable_inv[OF assms(1)])
  have reg: "registry_get (pl_registry p) (cap_id c) = Ok c" if "c \<in> set (topo_sort ?chosen)" for c
    using subsetD[OF chosen_registered that] inv
    by (simp add: registry_get_Ok_iff registry_inv_def registry_list_def capability_store.get_list)
  have names: "map pst_capability (plan_steps plan) = map cap_id (topo_sort ?chosen)"
    using miss(1) plan_steps_capabilities[of fresh 0 "topo_sort ?chosen"] by (metis execution_plan.select_convs(2))
  then have len: "length (plan_steps plan) = length (topo_sort ?chosen)" using map_eq_imp_length_eq by blast
  show ?thesis
  proof (intro exI[of _ "topo_sort ?chosen"] conjI)
    show "\<forall>ec. pl_entity_composition p = Some ec \<longrightarrow> distinct (map fst (write_decls ?chosen)) \<and>
      (\<forall>lookup. eac_lookup ec = Some lookup \<longrightarrow> (\<forall>c \<in> set (topo_sort ?chosen). read_cleared lookup c))"
      using miss(3) topo_sort_perm(1)[of ?chosen] unfolding composition_check_Ok by blast
    show "(\<exists>rank. \<forall>c \<in> set ?chosen. ranked rank (caps_by_id ?chosen) c) \<longrightarrow> deps_first (caps_by_id ?chosen) (topo_sort ?chosen)"
      using topo_sort_deps_first by blast
  qed (use reg names miss(2,4) len topo_sort_perm[of ?chosen] in
    \<open>simp_all add: bounds_validate_Ok miss(1)\<close>)
qed

theorem planner_plan_sound_witness:
  "\<exists>plan ord. snd (planner_plan ex_crypto ex_fresh ex_planner ex_plan_intent) = Ok plan
     \<and> map cap_id ord = [''cap-1'', ''cap-2'']
     \<and> (\<forall>c \<in> set ord. registry_get (pl_registry ex_planner) (cap_id c) = Ok c)"
proof -
  have "registry_reachable (pl_registry ex_planner)"
    unfolding ex_planner_def with_entity_composition_def planner_new_def planner.simps ex_registry_def
    by (intro registry_reachable.intros)
  moreover obtain p' plan where run: "planner_plan ex_crypto ex_fresh ex_planner ex_plan_intent = (p', Ok plan)"
    "map pst_capability (plan_steps plan) = [''cap-1'', ''cap-2'']"
    using ex_planner_run(2) by (auto split: sum.splits simp: prod_eq_iff)
  ultimately obtain ord where "map pst_capability (plan_steps plan) = map cap_id ord"
    "\<forall>c \<in> set ord. registry_get (pl_registry ex_planner) (cap_id c) = Ok c"
    using planner_plan_sound[OF _ ex_planner_run(1) run(1)] by blast
  with run show ?thesis by (intro exI[of _ plan] exI[of _ ord]) simp
qed

text \<open>A cached plan leaves the cache only when as many other plans were stored after it as the cache holds:
  \<open>survives n k v c\<close> says that the entry for \<open>k\<close> is not the oldest for the next \<open>n\<close> insertions.\<close>

definition survives :: "nat \<Rightarrow> string \<Rightarrow> execution_plan \<Rightarrow> plan_cache \<Rightarrow> bool" where
  "survives n k v c \<longleftrightarrow> cache_inv c \<and> cache_get c k = Some v
     \<and> (\<exists>xs ys. pc_order c = xs @ k # ys \<and> n \<le> pc_capacity c - length (pc_map c) + length xs)"

lemma cache_inv_length: "cache_inv c \<Longrightarrow> length (pc_order c) = length (pc_map c)"
  unfolding cache_inv_def by (metis distinct_card length_map set_map)

lemma survives_put:
  assumes "survives (Suc n) k v c" "j \<noteq> k"
  shows "survives n k v (cache_put c j p)"
proof -
  from assms(1) obtain xs ys where inv: "cache_inv c" and k: "map_of (pc_map c) k = Some v" "pc_order c = xs @ k # ys"
    "Suc n \<le> pc_capacity c - length (pc_map c) + length xs" by (auto simp: survives_def cache_get_def)
  note put = cache_put_def store_insert_def update_conv' survives_def cache_get_def
  have inv': "cache_inv (cache_put c j p)" using inv by (rule cache_inv_put)
  consider (old) "map_of (pc_map c) j \<noteq> None"
    | (room) "map_of (pc_map c) j = None" "length (pc_map c) < pc_capacity c"
    | (full) "map_of (pc_map c) j = None" "pc_capacity c \<le> length (pc_map c)" by linarith
  then show ?thesis
  proof cases
    case old
    then have "length (AList.update j p (pc_map c)) = length (pc_map c)" by (intro length_update_old) (auto simp: map_of_eq_None_iff)
    with old inv' k assms(2) show ?thesis by (auto simp: put)
  next
    case room
    then have "cache_put c j p = c\<lparr>pc_map := pc_map c @ [(j, p)], pc_order := pc_order c @ [j]\<rparr>"
      using k(2) by (cases xs) (simp_all add: cache_put_def store_insert_def update_fresh map_of_eq_None_iff)
    with room inv' k show ?thesis unfolding survives_def cache_get_def by (intro conjI exI[of _ xs] exI[of _ "ys @ [j]"]) (auto simp: map_add_def)
  next
    case full
    then obtain x xs' where xs: "xs = x # xs'" using k(3) by (cases xs) auto
    let ?m = "store_remove (pc_map c) x"
    have d: "distinct (pc_order c)" "set (pc_order c) = fst ` set (pc_map c)" "distinct (map fst (pc_map c))"
      using inv by (simp_all add: cache_inv_def)
    have "length ?m = card (fst ` set ?m)" using store_remove_simps(2)[OF d(3), of x] by (metis distinct_card length_map set_map)
    also have "\<dots> = card (set (pc_order c) - {x})" by (simp add: d(2))
    also have "\<dots> = length (pc_order c) - 1" using d(1) distinct_card[OF d(1)] xs k(2) by (simp add: card_Diff_singleton)
    finally have len: "length ?m = length (pc_map c) - 1" by (simp add: cache_inv_length[OF inv])
    have "length (pc_order c) \<ge> 2" using k(2) xs by simp
    then have cap: "length (pc_map c) = pc_capacity c" "length (pc_map c) \<ge> 2"
      using inv full(2) cache_inv_length[OF inv] by (auto simp: cache_inv_def)
    have "cache_evict (pc_capacity c) (pc_map c) (pc_order c) = (?m, xs' @ k # ys)"
      using k(2) xs full(2) len cap by (cases xs') auto
    moreover have "j \<notin> fst ` set ?m" using full(1) by (simp add: map_of_eq_None_iff)
    ultimately have "cache_put c j p = c\<lparr>pc_map := ?m @ [(j, p)], pc_order := (xs' @ k # ys) @ [j]\<rparr>"
      using full(1) by (simp add: cache_put_def store_insert_def update_fresh)
    moreover have "map_of ?m k = Some v" using k(1,2) d(1) xs by (auto simp: store_remove_def delete_conv')
    ultimately show ?thesis using inv' k(3) xs len cap unfolding survives_def cache_get_def
      by (intro conjI exI[of _ xs'] exI[of _ "ys @ [j]"]) (auto simp: map_add_def)
  qed
qed

definition plan_requests :: "crypto \<Rightarrow> ((nat \<Rightarrow> string) \<times> intent_envelope) list \<Rightarrow> planner \<Rightarrow> planner" where
  "plan_requests cr requests p = fold (\<lambda>(fresh, i) p. fst (planner_plan cr fresh p i)) requests p"

lemma planner_plan_capacity: "pc_capacity (pl_cache (fst (planner_plan cr fresh p i))) = pc_capacity (pl_cache p)"
  unfolding planner_plan_def by (simp add: capacity_cache_put Let_def split: option.split sum.split)

lemma plan_requests_inv:
  "cache_inv (pl_cache p) \<Longrightarrow> cache_inv (pl_cache (plan_requests cr requests p))
    \<and> pc_capacity (pl_cache (plan_requests cr requests p)) = pc_capacity (pl_cache p)"
  unfolding plan_requests_def
  by (induction requests arbitrary: p) (simp_all add: planner_plan_inv planner_plan_capacity split: prod.split)

lemma planner_plan_survives:
  assumes "survives (Suc n) k v (pl_cache p)"
  shows "survives n k v (pl_cache (fst (planner_plan cr fresh p i)))"
proof (cases "planner_key cr i = k")
  case True
  with assms have "fst (planner_plan cr fresh p i) = p" by (simp add: planner_plan_def survives_def)
  with assms show ?thesis by (auto simp: survives_def intro: Suc_leD)
next
  case False
  have "survives n k v (pl_cache p)" using assms by (auto simp: survives_def intro: Suc_leD)
  moreover have "survives n k v (cache_put (pl_cache p) (planner_key cr i) q)" for q
    by (rule survives_put[OF assms False])
  ultimately show ?thesis by (simp add: planner_plan_def Let_def split: option.split sum.split)
qed

lemma plan_requests_survive:
  "survives (n + length requests) k v (pl_cache p) \<Longrightarrow> survives n k v (pl_cache (plan_requests cr requests p))"
proof (induction requests arbitrary: p)
  case (Cons r requests)
  then have "survives (n + length requests) k v (pl_cache (fst (planner_plan cr (fst r) p (snd r))))"
    by (intro planner_plan_survives) simp
  from Cons.IH[OF this] show ?case by (simp add: plan_requests_def case_prod_beta)
qed (simp add: plan_requests_def)

lemma cache_new_inv: "cache_inv cache_new" "pc_capacity cache_new = 4096"
  by (simp_all add: cache_inv_def cache_new_def cache_with_capacity_def DEFAULT_CAPACITY_def)

lemma cache_put_survives:
  assumes "cache_inv c" "cache_get c k = None"
  shows "survives (pc_capacity c - 1) k v (cache_put c k v)"
proof -
  have inv: "cache_inv (cache_put c k v)" by (rule cache_inv_put[OF assms(1)])
  obtain xs where o: "pc_order (cache_put c k v) = xs @ [k]"
    using assms(2) by (cases "cache_evict (pc_capacity c) (pc_map c) (pc_order c)") (simp add: cache_put_def cache_get_def)
  have "length (pc_map (cache_put c k v)) = Suc (length xs)" using cache_inv_length[OF inv] o by simp
  then have "pc_capacity c - 1 \<le> pc_capacity (cache_put c k v) - length (pc_map (cache_put c k v)) + length xs"
    by (simp add: capacity_cache_put)
  with inv o show ?thesis by (auto simp: survives_def cache_get_put)
qed

text \<open>C35. The plan cache answers for the intent that filled it. A planner that started with an empty cache and has
  served any requests plans an intent whose key is not cached; then, for as long as fewer than 4096
  requests follow, an intent with the same type, domain and trimmed lower-case goal gets that very plan, which carries
  the identifier of the first intent. Its budget, depth and everything else about it play no part, so the
  bounds are not checked for it.\<close>

theorem planner_cache_replays:
  assumes "pl_cache p0 = cache_new" "p = plan_requests cr before p0" "cache_get (pl_cache p) (planner_key cr i) = None"
    and "planner_plan cr fresh p i = (p1, Ok plan)" "length later < 4096" "p2 = plan_requests cr later p1"
    and "int_type j = int_type i" "int_domain j = int_domain i"
    and "to_lowercase (trim (int_goal j)) = to_lowercase (trim (int_goal i))"
  shows "planner_plan cr fresh' p2 j = (p2, Ok plan) \<and> plan_intent_id plan = int_id i"
proof -
  note miss = planner_plan_miss[OF assms(3,4)]
  have c: "cache_inv (pl_cache p)" "pc_capacity (pl_cache p) = 4096"
    using plan_requests_inv[of p0 cr before] cache_new_inv by (simp_all add: assms(1,2))
  from cache_put_survives[OF c(1) assms(3), of plan] have "survives 4095 (planner_key cr i) plan (pl_cache p1)"
    by (simp add: miss(5) c(2))
  then have "survives (0 + length later) (planner_key cr i) plan (pl_cache p1)"
    using assms(5) unfolding survives_def by fastforce
  from plan_requests_survive[OF this, of cr] have "cache_get (pl_cache p2) (planner_key cr i) = Some plan"
    by (simp add: survives_def assms(6))
  moreover have "planner_key cr j = planner_key cr i" using assms(7-9) by (simp add: planner_key_def key_for_def)
  moreover have "plan_intent_id plan = int_id i" using miss(1) by simp
  ultimately show ?thesis by (simp add: planner_plan_def)
qed

theorem planner_cache_replays_witness:
  "\<exists>p2 plan. planner_plan ex_crypto ex_fresh p2 (ex_plan_intent\<lparr>int_id := ''int-2'', int_depth := 9\<rparr>) = (p2, Ok plan)
     \<and> plan_intent_id plan = ''int-1''
     \<and> bounds_validate (pl_bounds p2) (ex_plan_intent\<lparr>int_id := ''int-2'', int_depth := 9\<rparr>) plan \<noteq> Ok ()"
proof -
  let ?j = "ex_plan_intent\<lparr>int_id := ''int-2'', int_depth := 9\<rparr>"
  obtain p1 plan where run: "planner_plan ex_crypto ex_fresh ex_planner ex_plan_intent = (p1, Ok plan)"
    using ex_planner_run(2) by (auto split: sum.splits simp: prod_eq_iff)
  have p: "pl_cache ex_planner = cache_new" "ex_planner = plan_requests ex_crypto [] ex_planner"
    by (simp_all add: ex_planner_def with_entity_composition_def planner_new_def plan_requests_def)
  have b: "pl_bounds p1 = pl_bounds ex_planner" by (simp add: planner_plan_miss(5)[OF ex_planner_run(1) run])
  have "planner_plan ex_crypto ex_fresh p1 ?j = (p1, Ok plan) \<and> plan_intent_id plan = int_id ex_plan_intent"
    by (rule planner_cache_replays[OF p ex_planner_run(1) run, of "[]"]) (simp_all add: plan_requests_def)
  then show ?thesis
    by (intro exI[of _ p1] exI[of _ plan])
       (simp add: b bounds_validate_Ok ex_planner_def with_entity_composition_def planner_new_def
          bounded_autonomy_default_def ex_plan_intent_def ex_intent_def)
qed

text \<open>The plan cache of a planner stays bounded: after any sequence of requests it holds at most
  4096 plans, and its eviction queue lists exactly the cached keys, each once.\<close>

theorem planner_cache_bounded:
  "let c = pl_cache (plan_requests cr requests (planner_new g b k))
   in cache_len c \<le> 4096 \<and> distinct (pc_order c) \<and> set (pc_order c) = fst ` set (pc_map c)"
  using plan_requests_inv[of "planner_new g b k" cr requests] cache_new_inv
  by (auto simp: planner_new_def cache_inv_def cache_len_def Let_def)

end
