(* ===== verification/Federation.thy ===== *)
theory Federation
  imports Identity
begin

text \<open>
  What crosses an organisational boundary: federation agreements and the router that enforces them
  and co-signed capability tokens (\<open>aaf-federation\<close>), and artifact signing (\<open>aaf-trust\<close>,
  \<open>signing.rs\<close>). A \<open>HashSet\<close> of prohibited fields is the list of its elements in iteration
  order. The JSON serialiser is an argument, as in the identity theory.
\<close>

section \<open>Agreements\<close>

record cell_config =
  cell_id :: string
  cell_region :: string
  cell_local_capabilities :: "string list"

datatype entity_op = Op_Read | Op_Write | Op_Emit

datatype classification_cap = Cap_Public | Cap_Internal | Cap_Confidential | Cap_Restricted

fun cap_level :: "classification_cap \<Rightarrow> u8" where
  "cap_level Cap_Public = 0"
| "cap_level Cap_Internal = 1"
| "cap_level Cap_Confidential = 2"
| "cap_level Cap_Restricted = 3"

fun for_data :: "data_classification \<Rightarrow> u8" where
  "for_data DC_Public = 0"
| "for_data DC_Internal = 1"
| "for_data DC_Confidential = 2"
| "for_data DC_Restricted = 3"

record entity_access_rule =
  ear_entity_id :: string
  ear_op :: entity_op
  ear_max_classification :: "classification_cap option"
  ear_tenant :: "string option"

record federation_agreement =
  fa_parties :: "string list"
  fa_shared_capabilities :: "string list"
  fa_prohibited_fields :: "string list"
  fa_entity_rules :: "entity_access_rule list"

definition with_prohibited_fields ::
  "string list \<Rightarrow> string list \<Rightarrow> string list \<Rightarrow> federation_agreement" where
  "with_prohibited_fields parties shared prohibited =
     \<lparr>fa_parties = parties, fa_shared_capabilities = shared, fa_prohibited_fields = prohibited, fa_entity_rules = []\<rparr>"

definition with_entity_rules ::
  "string list \<Rightarrow> string list \<Rightarrow> entity_access_rule list \<Rightarrow> federation_agreement" where
  "with_entity_rules parties shared rules =
     \<lparr>fa_parties = parties, fa_shared_capabilities = shared, fa_prohibited_fields = [], fa_entity_rules = rules\<rparr>"

definition has_entity_rules :: "federation_agreement \<Rightarrow> bool" where
  "has_entity_rules a \<longleftrightarrow> fa_entity_rules a \<noteq> []"

definition find_rule :: "federation_agreement \<Rightarrow> string \<Rightarrow> entity_op \<Rightarrow> entity_access_rule option" where
  "find_rule a e op = find (\<lambda>r. ear_entity_id r = e \<and> ear_op r = op) (fa_entity_rules a)"

datatype federation_error =
    NoAgreement string
  | FE_BoundaryViolation string
  | EntityNotPermitted string entity_op
  | ClassificationCapExceeded string string data_classification classification_cap
  | TenantMismatch string string string

section \<open>The router\<close>

record fed_router =
  fr_cells :: "cell_config list"
  fr_agreements :: "federation_agreement list"

definition fed_route :: "fed_router \<Rightarrow> string \<Rightarrow> cell_config option" where
  "fed_route rt cap = find (\<lambda>c. cap \<in> set (cell_local_capabilities c)) (fr_cells rt)"

definition agreement_for ::
  "fed_router \<Rightarrow> string \<Rightarrow> string \<Rightarrow> (federation_agreement, federation_error) result" where
  "agreement_for rt from to =
     (case find (\<lambda>a. from \<in> set (fa_parties a) \<and> to \<in> set (fa_parties a)) (fr_agreements rt) of
        Some a \<Rightarrow> Ok a | None \<Rightarrow> Err (NoAgreement to))"

definition enforce_outbound :: "fed_router \<Rightarrow> string \<Rightarrow> string \<Rightarrow> json \<Rightarrow> (unit, federation_error) result" where
  "enforce_outbound rt from to payload =
     bind_result (agreement_for rt from to) (\<lambda>a.
       case payload of
         JObject obj \<Rightarrow>
           (case find (\<lambda>f. f \<in> set (map fst obj)) (fa_prohibited_fields a) of
              Some f \<Rightarrow> Err (FE_BoundaryViolation f) | None \<Rightarrow> Ok ())
       | _ \<Rightarrow> Ok ())"

definition check_entity ::
  "federation_agreement \<Rightarrow> capability_contract \<Rightarrow> entity_ref_lite \<Rightarrow> entity_op \<Rightarrow> (unit, federation_error) result" where
  "check_entity a cap e op =
     (case find_rule a (er_entity_id e) op of
        None \<Rightarrow> Err (EntityNotPermitted (er_entity_id e) op)
      | Some rule \<Rightarrow>
          bind_result
            (case ear_max_classification rule of
               Some c \<Rightarrow>
                 if for_data (cap_data_classification cap) > cap_level c
                 then Err (ClassificationCapExceeded (cap_id cap) (er_entity_id e) (cap_data_classification cap) c)
                 else Ok ()
             | None \<Rightarrow> Ok ())
            (\<lambda>_. case (ear_tenant rule, er_tenant e) of
                   (Some rule_tenant, Some cap_tenant) \<Rightarrow>
                     if rule_tenant \<noteq> cap_tenant
                     then Err (TenantMismatch (er_entity_id e) rule_tenant cap_tenant) else Ok ()
                 | _ \<Rightarrow> Ok ()))"

fun check_all :: "('a \<Rightarrow> (unit, 'e) result) \<Rightarrow> 'a list \<Rightarrow> (unit, 'e) result" where
  "check_all f [] = Ok ()"
| "check_all f (x # xs) = bind_result (f x) (\<lambda>_. check_all f xs)"

definition enforce_capability ::
  "fed_router \<Rightarrow> string \<Rightarrow> string \<Rightarrow> capability_contract \<Rightarrow> (unit, federation_error) result" where
  "enforce_capability rt from to cap =
     bind_result (agreement_for rt from to) (\<lambda>a.
       if \<not> has_entity_rules a then enforce_outbound rt from to (JObject [])
       else bind_result (check_all (\<lambda>r. check_entity a cap r Op_Read) (cap_reads cap)) (\<lambda>_.
            bind_result (check_all (\<lambda>w. check_entity a cap w Op_Write) (cap_writes cap)) (\<lambda>_.
            check_all (\<lambda>e. check_entity a cap (entity_ref_new (evr_id e)) Op_Emit) (cap_emits cap))))"

definition enforce_outbound_entity ::
  "fed_router \<Rightarrow> string \<Rightarrow> string \<Rightarrow> entity_ref_lite \<Rightarrow> entity_op \<Rightarrow> (unit, federation_error) result" where
  "enforce_outbound_entity rt from to e op =
     bind_result (agreement_for rt from to) (\<lambda>a.
       if \<not> has_entity_rules a then Ok ()
       else case find_rule a (er_entity_id e) op of
              Some _ \<Rightarrow> Ok () | None \<Rightarrow> Err (EntityNotPermitted (er_entity_id e) op))"

section \<open>Co-signed tokens\<close>

datatype cosign_error = CS_InvalidSignature string | CS_Identity identity_error | InnerTampered

definition cosign_bytes :: "crypto \<Rightarrow> capability_token \<Rightarrow> string \<Rightarrow> string \<Rightarrow> u8 list" where
  "cosign_bytes c t issuer receiver =
     sha256 c (as_bytes ''aaf:cosign:v1:'' @ as_bytes issuer @ as_bytes ''::'' @ as_bytes receiver
               @ as_bytes ''::'' @ as_bytes (ct_signature t))"

record cosigned_token =
  cst_token :: capability_token
  cst_issuer_cell :: string
  cst_receiver_cell :: string
  cst_issuer_cell_sig :: string
  cst_receiver_cell_sig :: string

definition cosign_token ::
  "crypto \<Rightarrow> capability_token \<Rightarrow> string \<Rightarrow> signer \<Rightarrow> string \<Rightarrow> signer \<Rightarrow> (cosigned_token, cosign_error) result" where
  "cosign_token c t issuer issuer_sign receiver receiver_sign =
     (let bytes = cosign_bytes c t issuer receiver
      in case issuer_sign issuer bytes of
           Inl e \<Rightarrow> Err (CS_Identity e)
         | Inr issuer_sig \<Rightarrow>
             (case receiver_sign receiver bytes of
                Inl e \<Rightarrow> Err (CS_Identity e)
              | Inr receiver_sig \<Rightarrow>
                  Ok \<lparr>cst_token = t, cst_issuer_cell = issuer, cst_receiver_cell = receiver,
                      cst_issuer_cell_sig = issuer_sig, cst_receiver_cell_sig = receiver_sig\<rparr>))"

definition verify_cosigned ::
  "crypto \<Rightarrow> token_claims serialiser \<Rightarrow> timestamp \<Rightarrow> cosigned_token \<Rightarrow> verifier \<Rightarrow> verifier \<Rightarrow> verifier \<Rightarrow> string
   \<Rightarrow> (unit, cosign_error) result" where
  "verify_cosigned c to_vec now ct issuer_verify receiver_verify inner_verify required =
     (let bytes = cosign_bytes c (cst_token ct) (cst_issuer_cell ct) (cst_receiver_cell ct)
      in case issuer_verify (cst_issuer_cell ct) bytes (cst_issuer_cell_sig ct) of
           Inl _ \<Rightarrow> Err (CS_InvalidSignature ''issuer'')
         | Inr _ \<Rightarrow>
             (case receiver_verify (cst_receiver_cell ct) bytes (cst_receiver_cell_sig ct) of
                Inl _ \<Rightarrow> Err (CS_InvalidSignature ''receiver'')
              | Inr _ \<Rightarrow>
                  (case token_verify c to_vec now (cst_token ct) inner_verify required of
                     Inl e \<Rightarrow> Err (if e = InvalidSignature then InnerTampered else CS_Identity e)
                   | Inr _ \<Rightarrow> Ok ())))"

section \<open>Artifact signing\<close>

definition content_digest :: "crypto \<Rightarrow> u8 list \<Rightarrow> string" where
  "content_digest c bytes = hex c (sha256 c bytes)"

definition sign_artifact :: "crypto \<Rightarrow> json serialiser \<Rightarrow> artifact \<Rightarrow> string \<Rightarrow> artifact" where
  "sign_artifact c to_vec a signer_name =
     (let h = content_digest c (case to_vec (art_content a) of Inr bs \<Rightarrow> bs | Inl _ \<Rightarrow> [])
      in a\<lparr>art_content_hash := Some h, art_signature := Some (''v0:'' @ signer_name @ '':'' @ h)\<rparr>)"

definition verify_artifact :: "crypto \<Rightarrow> json serialiser \<Rightarrow> artifact \<Rightarrow> bool" where
  "verify_artifact c to_vec a =
     (case to_vec (art_content a) of
        Inl _ \<Rightarrow> False
      | Inr bs \<Rightarrow> art_content_hash a = Some (content_digest c bs))"

definition sign_artifact_with ::
  "crypto \<Rightarrow> json serialiser \<Rightarrow> artifact \<Rightarrow> string \<Rightarrow> signer \<Rightarrow> artifact \<times> (unit, identity_error) result" where
  "sign_artifact_with c to_vec a did sign =
     (case to_vec (art_content a) of
        Inl e \<Rightarrow> (a, Err (Serialisation e))
      | Inr bs \<Rightarrow>
          let h = content_digest c bs
          in case sign did (as_bytes h) of
               Inl e \<Rightarrow> (a, Err e)
             | Inr detached \<Rightarrow>
                 (a\<lparr>art_content_hash := Some h, art_signature := Some (''x1:'' @ did @ '':'' @ detached)\<rparr>, Ok ()))"

text \<open>\<open>rfind(':')\<close> and \<open>split_at\<close>: the text before and after the last colon.\<close>

definition rsplit_colon :: "string \<Rightarrow> (string \<times> string) option" where
  "rsplit_colon s =
     (if CHR '':'' \<in> set s
      then Some (rev (tl (dropWhile (\<lambda>ch. ch \<noteq> CHR '':'') (rev s))),
                 rev (takeWhile (\<lambda>ch. ch \<noteq> CHR '':'') (rev s)))
      else None)"

definition verify_artifact_with ::
  "crypto \<Rightarrow> json serialiser \<Rightarrow> artifact \<Rightarrow> verifier \<Rightarrow> (bool, identity_error) result" where
  "verify_artifact_with c to_vec a verify =
     (case art_signature a of
        None \<Rightarrow> Ok False
      | Some signature \<Rightarrow>
          (case strip_prefix signature ''x1:'' of
             None \<Rightarrow> Ok False
           | Some rest \<Rightarrow>
               (case rsplit_colon rest of
                  None \<Rightarrow> Ok False
                | Some (did, sig) \<Rightarrow>
                    (case to_vec (art_content a) of
                       Inl e \<Rightarrow> Err (Serialisation e)
                     | Inr bs \<Rightarrow>
                         let expected = content_digest c bs
                         in if art_content_hash a \<noteq> Some expected then Ok False
                            else case verify did (as_bytes expected) sig of
                                   Inr _ \<Rightarrow> Ok True
                                 | Inl e \<Rightarrow> if e = InvalidSignature then Ok False else Err e))))"

section \<open>Enforcement is exactly the agreement\<close>

lemma check_all_Ok: "check_all f xs = Ok () \<longleftrightarrow> (\<forall>x \<in> set xs. f x = Ok ())"
  by (induction xs) (auto simp: bind_result_Ok_iff)

text \<open>The entity accesses a capability declares.\<close>

definition accesses :: "capability_contract \<Rightarrow> (entity_ref_lite \<times> entity_op) list" where
  "accesses cap = map (\<lambda>r. (r, Op_Read)) (cap_reads cap) @ map (\<lambda>w. (w, Op_Write)) (cap_writes cap)
     @ map (\<lambda>e. (entity_ref_new (evr_id e), Op_Emit)) (cap_emits cap)"

definition rule_permits :: "entity_access_rule \<Rightarrow> capability_contract \<Rightarrow> entity_ref_lite \<Rightarrow> bool" where
  "rule_permits rule cap e \<longleftrightarrow>
     (\<forall>c. ear_max_classification rule = Some c \<longrightarrow> for_data (cap_data_classification cap) \<le> cap_level c) \<and>
     (\<forall>t u. ear_tenant rule = Some t \<longrightarrow> er_tenant e = Some u \<longrightarrow> t = u)"

lemma check_entity_Ok:
  "check_entity a cap e op = Ok () \<longleftrightarrow>
     (\<exists>rule. find_rule a (er_entity_id e) op = Some rule \<and> rule_permits rule cap e)"
  by (auto simp: check_entity_def rule_permits_def bind_result_Ok_iff not_less split: option.splits)

lemma enforce_outbound_empty: "agreement_for rt from to = Ok a \<Longrightarrow> enforce_outbound rt from to (JObject []) = Ok ()"
  by (simp add: enforce_outbound_def find_None_iff split: option.splits)

lemma enforce_capability_rules:
  assumes "agreement_for rt from to = Ok a" "has_entity_rules a"
  shows "enforce_capability rt from to cap = check_all (\<lambda>(e, op). check_entity a cap e op) (accesses cap)"
proof -
  have app: "check_all f (xs @ ys) = bind_result (check_all f xs) (\<lambda>_. check_all f ys)"
    for f :: "'x \<Rightarrow> (unit, 'y) result" and xs ys
  proof (induction xs)
    case (Cons x xs)
    then show ?case by (cases "f x") simp_all
  qed simp
  have map: "check_all f (map g xs) = check_all (\<lambda>x. f (g x)) xs" for f :: "'x \<Rightarrow> (unit, 'y) result" and g :: "'z \<Rightarrow> 'x" and xs
    by (induction xs) simp_all
  show ?thesis using assms by (simp add: enforce_capability_def accesses_def app map)
qed

section \<open>Co-signing over signature schemes\<close>

locale cosigning = issuer: signature_scheme isign iverify + receiver: signature_scheme rsign rverify
  for isign iverify rsign rverify
begin

lemma verify_cosigned_eq:
  "verify_cosigned c to_vec now ct iverify rverify inner required = Ok () \<longleftrightarrow>
     isign (cst_issuer_cell ct) (cosign_bytes c (cst_token ct) (cst_issuer_cell ct) (cst_receiver_cell ct))
       = Ok (cst_issuer_cell_sig ct) \<and>
     rsign (cst_receiver_cell ct) (cosign_bytes c (cst_token ct) (cst_issuer_cell ct) (cst_receiver_cell ct))
       = Ok (cst_receiver_cell_sig ct) \<and>
     token_verify c to_vec now (cst_token ct) inner required = Ok ()"
  by (auto simp: verify_cosigned_def Let_def issuer.verify_iff[symmetric] receiver.verify_iff[symmetric]
      split: sum.splits)

lemma cosign_then_verify:
  "cosign_token c t i isign r rsign = Ok ct \<Longrightarrow>
     cst_token ct = t \<and> cst_issuer_cell ct = i \<and> cst_receiver_cell ct = r \<and>
     (verify_cosigned c to_vec now ct iverify rverify inner required = Ok () \<longleftrightarrow>
        token_verify c to_vec now t inner required = Ok ())"
  unfolding verify_cosigned_eq by (auto simp: cosign_token_def Let_def split: sum.splits)

end

interpretation cells: cosigning "ks_sign c ks1" "ks_verify c ks1" "ks_sign c ks2" "ks_verify c ks2" for c ks1 ks2
  by unfold_locales

section \<open>Artifact signatures\<close>

lemma rsplit_colon_join:
  assumes "CHR '':'' \<notin> set sig"
  shows "rsplit_colon (d @ '':'' @ sig) = Some (d, sig)"
proof -
  have "takeWhile (\<lambda>ch. ch \<noteq> CHR '':'') (rev sig @ CHR '':'' # rev d) = rev sig"
    "dropWhile (\<lambda>ch. ch \<noteq> CHR '':'') (rev sig @ CHR '':'' # rev d) = CHR '':'' # rev d"
    using assms by (auto simp: takeWhile_append dropWhile_append)
  then show ?thesis by (simp add: rsplit_colon_def)
qed

context signature_scheme
begin

lemma artifact_sign_verify:
  assumes "sign_artifact_with c to_vec a did sign = (a', Ok ())"
    and "\<And>m s. sign did m = Ok s \<Longrightarrow> CHR '':'' \<notin> set s"
  shows "verify_artifact_with c to_vec a' verify = Ok True"
proof -
  from assms(1) obtain bs s where *: "to_vec (art_content a) = Ok bs" "sign did (as_bytes (content_digest c bs)) = Ok s"
    "a' = a\<lparr>art_content_hash := Some (content_digest c bs), art_signature := Some (''x1:'' @ did @ '':'' @ s)\<rparr>"
    by (auto simp: sign_artifact_with_def Let_def split: sum.splits)
  have "strip_prefix (''x1:'' @ did @ '':'' @ s) ''x1:'' = Some (did @ '':'' @ s)"
    by (simp add: strip_prefix_Some_iff)
  moreover have "rsplit_colon (did @ '':'' @ s) = Some (did, s)"
    using rsplit_colon_join assms(2)[OF *(2)] by blast
  ultimately show ?thesis using * sign_verify[OF *(2)] by (simp add: verify_artifact_with_def)
qed

lemma verify_artifact_True:
  assumes "verify_artifact_with c to_vec a verify = Ok True"
  shows "\<exists>did s bs. art_signature a = Some (''x1:'' @ did @ '':'' @ s) \<and> to_vec (art_content a) = Ok bs
    \<and> art_content_hash a = Some (content_digest c bs) \<and> sign did (as_bytes (content_digest c bs)) = Ok s"
proof -
  have join: "rsplit_colon rest = Some (d, s) \<Longrightarrow> rest = d @ '':'' @ s" for rest d s
  proof -
    assume "rsplit_colon rest = Some (d, s)"
    then have *: "CHR '':'' \<in> set (rev rest)" "d = rev (tl (dropWhile (\<lambda>ch. ch \<noteq> CHR '':'') (rev rest)))"
      "s = rev (takeWhile (\<lambda>ch. ch \<noteq> CHR '':'') (rev rest))"
      by (auto simp: rsplit_colon_def split: if_splits)
    have ne: "dropWhile (\<lambda>ch. ch \<noteq> CHR '':'') (rev rest) \<noteq> []" using *(1) by auto
    then obtain y zs where y: "dropWhile (\<lambda>ch. ch \<noteq> CHR '':'') (rev rest) = y # zs" by (meson neq_Nil_conv)
    with hd_dropWhile[OF ne] have z: "dropWhile (\<lambda>ch. ch \<noteq> CHR '':'') (rev rest) = CHR '':'' # zs" by simp
    have "rest = rev (takeWhile (\<lambda>ch. ch \<noteq> CHR '':'') (rev rest) @ CHR '':'' # zs)"
      using takeWhile_dropWhile_id[of "\<lambda>ch. ch \<noteq> CHR '':''" "rev rest"] z by (metis rev_rev_ident)
    with * z show "rest = d @ '':'' @ s" by simp
  qed
  from assms obtain rest d s bs where "art_signature a = Some (''x1:'' @ rest)" "rsplit_colon rest = Some (d, s)"
    "to_vec (art_content a) = Ok bs" "art_content_hash a = Some (content_digest c bs)"
    "verify d (as_bytes (content_digest c bs)) s = Ok ()"
    by (auto simp: verify_artifact_with_def Let_def strip_prefix_Some_iff split: option.splits sum.splits if_splits)
  with join show ?thesis unfolding verify_iff by blast
qed

end

section \<open>Properties\<close>

definition ex_fed_router :: fed_router where
  "ex_fed_router = \<lparr>fr_cells = [\<lparr>cell_id = ''jp'', cell_region = ''tokyo'', cell_local_capabilities = [''cap-1'']\<rparr>],
     fr_agreements = [with_entity_rules [''jp'', ''eu''] [''cap-1'']
       [\<lparr>ear_entity_id = ''Order'', ear_op = Op_Read, ear_max_classification = Some Cap_Internal, ear_tenant = None\<rparr>]]\<rparr>"

definition ex_reader :: capability_contract where
  "ex_reader = ex_capability\<lparr>cap_reads := [entity_ref_new ''Order'']\<rparr>"

text \<open>C10. The entity boundary is exact. Between two cells under an agreement with entity rules, a
  capability passes iff for every entity it declares to read, write or emit the first rule for that
  entity and operation exists, its classification cap is not exceeded and its tenant restriction
  does not contradict the tenant of the reference; without an agreement nothing passes, and an
  agreement without entity rules lets every capability pass. Adding an access to a capability never
  makes it pass.\<close>

theorem enforce_capability_exact:
  "(enforce_capability rt from to cap = Ok () \<longleftrightarrow>
      (\<exists>a. agreement_for rt from to = Ok a \<and> (has_entity_rules a \<longrightarrow>
         (\<forall>(e, op) \<in> set (accesses cap). \<exists>rule. find_rule a (er_entity_id e) op = Some rule \<and> rule_permits rule cap e))))
   \<and> (set (accesses cap) \<subseteq> set (accesses cap') \<longrightarrow> cap_data_classification cap = cap_data_classification cap' \<longrightarrow>
      enforce_capability rt from to cap' = Ok () \<longrightarrow> enforce_capability rt from to cap = Ok ())"
proof -
  have exact: "enforce_capability rt from to cap = Ok () \<longleftrightarrow>
      (\<exists>a. agreement_for rt from to = Ok a \<and> (has_entity_rules a \<longrightarrow>
         (\<forall>(e, op) \<in> set (accesses cap). \<exists>rule. find_rule a (er_entity_id e) op = Some rule \<and> rule_permits rule cap e)))"
    for cap
  proof (cases "agreement_for rt from to")
    case (Inl e)
    then show ?thesis by (simp add: enforce_capability_def)
  next
    case (Inr a)
    show ?thesis
    proof (cases "has_entity_rules a")
      case True
      with Inr enforce_capability_rules[OF Inr True, of cap] show ?thesis
        by (auto simp: check_all_Ok check_entity_Ok)
    next
      case False
      with Inr enforce_outbound_empty[OF Inr] show ?thesis by (simp add: enforce_capability_def)
    qed
  qed
  show ?thesis
  proof (rule conjI, rule exact, intro impI)
    assume sub: "set (accesses cap) \<subseteq> set (accesses cap')"
      and "cap_data_classification cap = cap_data_classification cap'"
      and ok: "enforce_capability rt from to cap' = Ok ()"
    then have "rule_permits rule cap e = rule_permits rule cap' e" for rule e by (simp add: rule_permits_def)
    with sub ok show "enforce_capability rt from to cap = Ok ()"
      unfolding exact by (simp only: subset_eq) fast
  qed
qed

theorem enforce_capability_exact_witness:
  "enforce_capability ex_fed_router ''jp'' ''eu'' ex_reader = Ok ()
   \<and> enforce_capability ex_fed_router ''jp'' ''eu'' (ex_reader\<lparr>cap_reads := [entity_ref_new ''Invoice'']\<rparr>) \<noteq> Ok ()"
proof -
  let ?a = "hd (fr_agreements ex_fed_router)"
  have "agreement_for ex_fed_router ''jp'' ''eu'' = Ok ?a" "has_entity_rules ?a"
    "find_rule ?a ''Order'' Op_Read = Some (hd (fa_entity_rules ?a))" "find_rule ?a ''Invoice'' Op_Read = None"
    "rule_permits (hd (fa_entity_rules ?a)) ex_reader (entity_ref_new ''Order'')"
    "accesses ex_reader = [(entity_ref_new ''Order'', Op_Read)]"
    "accesses (ex_reader\<lparr>cap_reads := [entity_ref_new ''Invoice'']\<rparr>) = [(entity_ref_new ''Invoice'', Op_Read)]"
    by (simp_all add: ex_fed_router_def agreement_for_def with_entity_rules_def has_entity_rules_def find_rule_def
        rule_permits_def ex_reader_def ex_capability_def accesses_def entity_ref_new_def)
  then show ?thesis
    using enforce_capability_exact[THEN conjunct1, of ex_fed_router "''jp''" "''eu''" ex_reader]
      enforce_capability_exact[THEN conjunct1, of ex_fed_router "''jp''" "''eu''"
        "ex_reader\<lparr>cap_reads := [entity_ref_new ''Invoice'']\<rparr>"]
    by (simp add: entity_ref_new_def)
qed

text \<open>C26. A co-signed token is honoured only under both cells' signatures. With the keystores of the two
  cells, verification succeeds iff each cell's signature is the one its keystore makes over this
  token and this pair of cells, and the inner token verifies for the required capability; a token
  just co-signed verifies iff its inner token does.\<close>

theorem verify_cosigned_exact:
  "(verify_cosigned c to_vec now ct (ks_verify c ks1) (ks_verify c ks2) inner required = Ok () \<longleftrightarrow>
      ks_sign c ks1 (cst_issuer_cell ct) (cosign_bytes c (cst_token ct) (cst_issuer_cell ct) (cst_receiver_cell ct))
        = Ok (cst_issuer_cell_sig ct) \<and>
      ks_sign c ks2 (cst_receiver_cell ct) (cosign_bytes c (cst_token ct) (cst_issuer_cell ct) (cst_receiver_cell ct))
        = Ok (cst_receiver_cell_sig ct) \<and>
      token_verify c to_vec now (cst_token ct) inner required = Ok ())
   \<and> (cosign_token c t i (ks_sign c ks1) r (ks_sign c ks2) = Ok ct \<longrightarrow>
      (verify_cosigned c to_vec now ct (ks_verify c ks1) (ks_verify c ks2) inner required = Ok () \<longleftrightarrow>
       token_verify c to_vec now t inner required = Ok ()))"
proof (rule conjI, rule cells.verify_cosigned_eq, rule impI)
  assume "cosign_token c t i (ks_sign c ks1) r (ks_sign c ks2) = Ok ct"
  from cells.cosign_then_verify[OF this] show "verify_cosigned c to_vec now ct (ks_verify c ks1) (ks_verify c ks2)
      inner required = Ok () \<longleftrightarrow> token_verify c to_vec now t inner required = Ok ()" by simp
qed

theorem verify_cosigned_exact_witness:
  "\<exists>ct. cosign_token ex_crypto \<lparr>ct_claims = ex_claims, ct_signature = ''s''\<rparr> ''did'' (ks_sign ex_crypto ex_keystore)
       ''did'' (ks_sign ex_crypto ex_keystore) = Ok ct
     \<and> verify_cosigned ex_crypto (\<lambda>_. Inr []) 15 ct (ks_verify ex_crypto ex_keystore) (ks_verify ex_crypto ex_keystore)
         (\<lambda>_ _ _. Ok ()) ''cap-1'' = Ok ()"
proof -
  obtain ct where ct: "cosign_token ex_crypto \<lparr>ct_claims = ex_claims, ct_signature = ''s''\<rparr> ''did''
      (ks_sign ex_crypto ex_keystore) ''did'' (ks_sign ex_crypto ex_keystore) = Ok ct"
    by (auto simp: cosign_token_def ks_sign_def ex_keystore_def Let_def)
  moreover have "token_verify ex_crypto (\<lambda>_. Inr []) 15 \<lparr>ct_claims = ex_claims, ct_signature = ''s''\<rparr>
      (\<lambda>_ _ _. Ok ()) ''cap-1'' = Ok ()"
    by (simp add: token_verify_def ex_claims_def)
  ultimately show ?thesis using verify_cosigned_exact[THEN conjunct2] by blast
qed

text \<open>C27. Artifact signatures bind content and identity. When the keystore's signatures contain no colon
  (they are hex strings), an artifact just signed verifies; and whenever an artifact verifies, its
  recorded hash is the digest of its content and its signature is the one the keystore makes over
  that digest for the identity named in the envelope, so changing the content to one with another
  digest makes verification fail.\<close>

theorem artifact_signature_binds:
  assumes "\<And>b. CHR '':'' \<notin> set (hex c b)"
  shows "(sign_artifact_with c to_vec a did (ks_sign c ks) = (a', Ok ()) \<longrightarrow>
           verify_artifact_with c to_vec a' (ks_verify c ks) = Ok True)
     \<and> (verify_artifact_with c to_vec a (ks_verify c ks) = Ok True \<longrightarrow>
          (\<exists>d s bs. art_signature a = Some (''x1:'' @ d @ '':'' @ s) \<and> to_vec (art_content a) = Ok bs
             \<and> art_content_hash a = Some (content_digest c bs) \<and> ks_sign c ks d (as_bytes (content_digest c bs)) = Ok s)
          \<and> (\<forall>v bs bs'. to_vec (art_content a) = Ok bs \<and> to_vec v = Ok bs' \<and> content_digest c bs' \<noteq> content_digest c bs \<longrightarrow>
               verify_artifact_with c to_vec (a\<lparr>art_content := v\<rparr>) (ks_verify c ks) \<noteq> Ok True))"
proof (intro conjI impI allI)
  have "ks_sign c ks did m = Ok s \<Longrightarrow> CHR '':'' \<notin> set s" for m s
    using assms by (auto simp: ks_sign_def split: option.splits)
  then show "sign_artifact_with c to_vec a did (ks_sign c ks) = (a', Ok ()) \<Longrightarrow>
      verify_artifact_with c to_vec a' (ks_verify c ks) = Ok True"
    using in_memory.artifact_sign_verify by blast
  assume v: "verify_artifact_with c to_vec a (ks_verify c ks) = Ok True"
  from in_memory.verify_artifact_True[OF this]
  show "\<exists>d s bs. art_signature a = Some (''x1:'' @ d @ '':'' @ s) \<and> to_vec (art_content a) = Ok bs
      \<and> art_content_hash a = Some (content_digest c bs) \<and> ks_sign c ks d (as_bytes (content_digest c bs)) = Ok s" .
  fix w bs bs'
  assume "to_vec (art_content a) = Ok bs \<and> to_vec w = Ok bs' \<and> content_digest c bs' \<noteq> content_digest c bs"
  with in_memory.verify_artifact_True[OF v]
  show "verify_artifact_with c to_vec (a\<lparr>art_content := w\<rparr>) (ks_verify c ks) \<noteq> Ok True"
    by (auto dest!: in_memory.verify_artifact_True)
qed

definition ex_hex_crypto :: crypto where
  "ex_hex_crypto = \<lparr>sha256 = (\<lambda>bs. take 32 bs), hex = (\<lambda>bs. concat (map (\<lambda>b. if b = 0 then ''00'' else ''ff'') bs))\<rparr>"

definition ex_artifact :: artifact where
  "ex_artifact = artifact_new ''a'' 0 ''report'' JNull
     \<lparr>ap_intent_id = [], ap_task_id = [], ap_trace_id = [], ap_producing_agent = [], ap_capability = [],
      ap_data_sources = [], ap_model_used = None\<rparr>"

definition ex_hex_keystore :: keystore where
  "ex_hex_keystore = [''did:aaf:1'' \<mapsto> key_from_seed ex_hex_crypto [1]]"

theorem artifact_signature_binds_witness:
  "\<exists>a'. sign_artifact_with ex_hex_crypto (\<lambda>_. Inr []) ex_artifact ''did:aaf:1'' (ks_sign ex_hex_crypto ex_hex_keystore)
       = (a', Ok ())
     \<and> verify_artifact_with ex_hex_crypto (\<lambda>_. Inr []) a' (ks_verify ex_hex_crypto ex_hex_keystore) = Ok True"
proof -
  have hx: "CHR '':'' \<notin> set (hex ex_hex_crypto b)" for b by (auto simp: ex_hex_crypto_def)
  obtain a' where a': "sign_artifact_with ex_hex_crypto (\<lambda>_. Inr []) ex_artifact ''did:aaf:1''
      (ks_sign ex_hex_crypto ex_hex_keystore) = (a', Ok ())"
    by (auto simp: sign_artifact_with_def ks_sign_def ex_hex_keystore_def Let_def)
  with artifact_signature_binds[of ex_hex_crypto, OF hx, THEN conjunct1] show ?thesis by blast
qed

end
