(* ===== verification/Intent.thy ===== *)
theory Intent
  imports Identity Trace
begin

text \<open>
  The intent compiler (\<open>aaf-intent\<close>): classification, extraction, enrichment, clarification
  questions, the semantic cache and schema migration. The classifier and the extractor are traits,
  so \<open>compile\<close> takes them as functions; the rule-based ones are defined here. The \<open>regex\<close> crate is
  the parameter \<open>re_find\<close>, which gives the leftmost match of one of the four patterns of the
  extractor. Japanese keywords are their UTF-8 bytes.
\<close>

section \<open>Semantic cache\<close>

definition normalise_input :: "string \<Rightarrow> string" where
  "normalise_input s =
     join_with '' '' (split_whitespace (map (\<lambda>ch. if is_whitespace ch then CHR '' '' else to_lower_char ch) s))"

definition semantic_hash :: "crypto \<Rightarrow> string \<Rightarrow> string" where
  "semantic_hash c s = hex c (sha256 c (as_bytes (normalise_input s)))"

type_synonym intent_cache = "intent_envelope store"

definition icache_get :: "crypto \<Rightarrow> intent_cache \<Rightarrow> string \<Rightarrow> intent_envelope option" where
  "icache_get c m raw = map_of m (semantic_hash c raw)"

definition icache_put :: "crypto \<Rightarrow> intent_cache \<Rightarrow> string \<Rightarrow> intent_envelope \<Rightarrow> intent_cache" where
  "icache_put c m raw e = store_insert (semantic_hash c raw) e m"

definition icache_len :: "intent_cache \<Rightarrow> nat" where
  "icache_len m = length m"

section \<open>Classifier\<close>

definition classifier_signals :: "(intent_type \<times> string list) list" where
  "classifier_signals =
    [(TransactionalIntent,
       [''cancel'',
        ''create'',
        ''update'',
        ''delete'',
        ''send'',
        ''pay'',
        [CHR 0xE3, CHR 0x82, CHR 0xAD, CHR 0xE3, CHR 0x83, CHR 0xA3, CHR 0xE3, CHR 0x83, CHR 0xB3, CHR 0xE3, CHR 0x82, CHR 0xBB, CHR 0xE3, CHR 0x83, CHR 0xAB],
        [CHR 0xE6, CHR 0x9B, CHR 0xB4, CHR 0xE6, CHR 0x96, CHR 0xB0],
        [CHR 0xE4, CHR 0xBD, CHR 0x9C, CHR 0xE6, CHR 0x88, CHR 0x90],
        [CHR 0xE5, CHR 0x89, CHR 0x8A, CHR 0xE9, CHR 0x99, CHR 0xA4],
        [CHR 0xE9, CHR 0x80, CHR 0x81, CHR 0xE4, CHR 0xBF, CHR 0xA1],
        [CHR 0xE6, CHR 0x94, CHR 0xAF, CHR 0xE6, CHR 0x89, CHR 0x95]]),
     (AnalyticalIntent,
       [''show'',
        ''report'',
        ''analy'',
        ''trend'',
        ''compare'',
        [CHR 0xE8, CHR 0xA6, CHR 0x8B, CHR 0xE3, CHR 0x81, CHR 0x9F, CHR 0xE3, CHR 0x81, CHR 0x84],
        [CHR 0xE6, CHR 0x95, CHR 0x99, CHR 0xE3, CHR 0x81, CHR 0x88, CHR 0xE3, CHR 0x81, CHR 0xA6],
        [CHR 0xE5, CHR 0x88, CHR 0x86, CHR 0xE6, CHR 0x9E, CHR 0x90],
        [CHR 0xE6, CHR 0xAF, CHR 0x94, CHR 0xE8, CHR 0xBC, CHR 0x83],
        [CHR 0xE5, CHR 0xA3, CHR 0xB2, CHR 0xE4, CHR 0xB8, CHR 0x8A],
        [CHR 0xE6, CHR 0x8E, CHR 0xA8, CHR 0xE7, CHR 0xA7, CHR 0xBB]]),
     (PlanningIntent,
       [''plan'',
        ''draft'',
        ''design'',
        [CHR 0xE8, CHR 0xA8, CHR 0x88, CHR 0xE7, CHR 0x94, CHR 0xBB],
        [CHR 0xE4, CHR 0xBC, CHR 0x81, CHR 0xE7, CHR 0x94, CHR 0xBB],
        [CHR 0xE7, CHR 0xAB, CHR 0x8B, CHR 0xE3, CHR 0x81, CHR 0xA6, CHR 0xE3, CHR 0x81, CHR 0x9F, CHR 0xE3, CHR 0x81, CHR 0x84],
        [CHR 0xE3, CHR 0x83, CHR 0xAD, CHR 0xE3, CHR 0x83, CHR 0xBC, CHR 0xE3, CHR 0x83, CHR 0x89, CHR 0xE3, CHR 0x83, CHR 0x9E, CHR 0xE3, CHR 0x83, CHR 0x83, CHR 0xE3, CHR 0x83, CHR 0x97]]),
     (DelegationIntent,
       [''ask'',
        ''delegate'',
        ''hand off'',
        [CHR 0xE4, CHR 0xBE, CHR 0x9D, CHR 0xE9, CHR 0xA0, CHR 0xBC],
        [CHR 0xE5, CHR 0xA7, CHR 0x94, CHR 0xE8, CHR 0xAD, CHR 0xB2],
        [CHR 0xE3, CHR 0x81, CHR 0x8A, CHR 0xE9, CHR 0xA1, CHR 0x98, CHR 0xE3, CHR 0x81, CHR 0x84]]),
     (GovernanceIntent,
       [''policy'',
        ''permission'',
        ''approval limit'',
        ''issue key'',
        [CHR 0xE3, CHR 0x83, CHR 0x9D, CHR 0xE3, CHR 0x83, CHR 0xAA, CHR 0xE3, CHR 0x82, CHR 0xB7, CHR 0xE3, CHR 0x83, CHR 0xBC],
        [CHR 0xE6, CHR 0x89, CHR 0xBF, CHR 0xE8, CHR 0xAA, CHR 0x8D],
        [CHR 0xE6, CHR 0xA8, CHR 0xA9, CHR 0xE9, CHR 0x99, CHR 0x90],
        [CHR 0xE7, CHR 0x99, CHR 0xBA, CHR 0xE8, CHR 0xA1, CHR 0x8C]])]"

definition rule_classify :: "string \<Rightarrow> intent_type option" where
  "rule_classify s =
     map_option fst (find (\<lambda>(kind, keys). list_ex (contains_str (to_lowercase s)) keys) classifier_signals)"

section \<open>Extractor\<close>

datatype extractor_pattern = PERIOD_RE | REGION_RE | SKU_RE | AMOUNT_RE

definition rule_extract :: "(extractor_pattern \<Rightarrow> string \<Rightarrow> string option) \<Rightarrow> string \<Rightarrow> (string \<times> json) list" where
  "rule_extract re_find s =
     (let put = (\<lambda>k v m. btree_entry k v (\<lambda>_. v) m);
          m1 = (if re_find PERIOD_RE s \<noteq> None then put ''period_ref'' (JString ''last_month'') [] else []);
          m2 = (if re_find REGION_RE s \<noteq> None then put ''dimension'' (JString ''region'') m1 else m1);
          m3 = (case re_find SKU_RE s of Some t \<Rightarrow> put ''sku'' (JString t) m2 | None \<Rightarrow> m2)
      in case re_find AMOUNT_RE s of Some t \<Rightarrow> put ''amount'' (JString t) m3 | None \<Rightarrow> m3)"

section \<open>Enricher\<close>

definition enrich :: "intent_envelope \<Rightarrow> intent_envelope" where
  "enrich e =
     (let e1 = (if rq_role (int_requester e) = ''analyst'' \<and> map_of (int_constraints e) ''dimension'' = None
                then e\<lparr>int_constraints :=
                  btree_entry ''dimension'' (JString ''region'') (\<lambda>_. JString ''region'') (int_constraints e)\<rparr>
                else e)
      in if int_risk_tier e1 = RT_Read then e1\<lparr>int_approval_policy := ''none''\<rparr> else e1)"

definition merge_entity :: "string option \<Rightarrow> entity_ref_lite \<Rightarrow> entity_ref_lite list \<Rightarrow> entity_ref_lite list" where
  "merge_entity tenant ent es =
     (let ent' = (if er_tenant ent = None then ent\<lparr>er_tenant := tenant\<rparr> else ent)
      in if list_ex (\<lambda>x. er_entity_id x = er_entity_id ent' \<and> er_tenant x = er_tenant ent') es
         then es else es @ [ent'])"

definition enrich_with_ontology ::
  "(string \<Rightarrow> string \<Rightarrow> entity_ref_lite list) \<Rightarrow> intent_envelope \<Rightarrow> intent_envelope" where
  "enrich_with_ontology resolve e =
     (let e1 = enrich e; discovered = resolve (int_domain e1) (int_goal e1)
      in e1\<lparr>int_entities_in_context :=
           fold (merge_entity (rq_tenant (int_requester e1))) discovered (int_entities_in_context e1)\<rparr>)"

section \<open>Refinement\<close>

record clarification =
  cq_field :: string
  cq_prompt :: string

definition questions_for :: "intent_envelope \<Rightarrow> clarification list" where
  "questions_for e =
     take 2 (
       (if trim (int_goal e) = []
        then [\<lparr>cq_field = ''goal'', cq_prompt = ''What goal would you like the agent to achieve?''\<rparr>] else []) @
       (if trim (int_domain e) = []
        then [\<lparr>cq_field = ''domain'',
               cq_prompt = ''Which business domain does this fall under (e.g. sales, warehouse)?''\<rparr>] else []) @
       (case int_type e of
          TransactionalIntent \<Rightarrow>
            if map_of (int_constraints e) ''target'' = None
            then [\<lparr>cq_field = ''target'', cq_prompt = ''What entity should I act on?''\<rparr>] else []
        | AnalyticalIntent \<Rightarrow>
            if map_of (int_constraints e) ''period_ref'' = None
            then [\<lparr>cq_field = ''period_ref'', cq_prompt = ''Which time period should I analyse?''\<rparr>] else []
        | _ \<Rightarrow> []))"

section \<open>Compiler\<close>

datatype intent_error = ClassificationFailed | IncompleteIntent "string list" | IE_Contract contract_error

datatype compile_outcome = Compiled intent_envelope | NeedsRefinement "clarification list"

fun tier_of :: "intent_type \<Rightarrow> risk_tier" where
  "tier_of TransactionalIntent = RT_Write"
| "tier_of AnalyticalIntent = RT_Read"
| "tier_of PlanningIntent = RT_Advisory"
| "tier_of DelegationIntent = RT_Delegation"
| "tier_of GovernanceIntent = RT_Governance"

text \<open>\<open>compile\<close>: the fresh intent and trace identifiers and the current time are the record
  \<open>compile_env\<close>, with the classifier, the extractor and the hash functions.\<close>

record compile_env =
  ce_crypto :: crypto
  ce_classify :: "string \<Rightarrow> intent_type option"
  ce_extract :: "string \<Rightarrow> (string \<times> json) list"
  ce_fresh_id :: string
  ce_fresh_trace :: string
  ce_now :: timestamp

definition compile ::
  "compile_env \<Rightarrow> intent_cache \<Rightarrow> string \<Rightarrow> requester \<Rightarrow> string \<Rightarrow> budget_contract
   \<Rightarrow> intent_cache \<times> (compile_outcome, intent_error) result" where
  "compile v cache raw req domain budget =
     (case icache_get (ce_crypto v) cache raw of
        Some cached \<Rightarrow> (cache, Ok (Compiled cached))
      | None \<Rightarrow>
          (case ce_classify v raw of
             None \<Rightarrow> (cache, Err ClassificationFailed)
           | Some ty \<Rightarrow>
               let e = enrich
                     \<lparr>int_id = ce_fresh_id v, int_type = ty, int_requester = req, int_goal = trim raw,
                      int_domain = domain, int_constraints = ce_extract v raw, int_budget = budget,
                      int_deadline = None, int_risk_tier = tier_of ty, int_approval_policy = ''human'',
                      int_output_contract = None, int_trace_id = ce_fresh_trace v, int_depth = 0,
                      int_created_at = ce_now v, int_entities_in_context = []\<rparr>;
                   qs = questions_for e
               in if qs \<noteq> [] \<and> list_ex (\<lambda>q. cq_field q = ''goal'' \<or> cq_field q = ''domain'') qs
                  then (cache, Ok (NeedsRefinement qs))
                  else case validate_intent e of
                         Inl err \<Rightarrow> (cache, Err (IE_Contract err))
                       | Inr _ \<Rightarrow> (icache_put (ce_crypto v) cache raw e, Ok (Compiled e))))"

section \<open>Migration\<close>

type_synonym migrator = "(u32 \<times> u32) \<rightharpoonup> (intent_envelope \<Rightarrow> intent_envelope)"

definition migrator_register :: "migrator \<Rightarrow> u32 \<Rightarrow> u32 \<Rightarrow> (intent_envelope \<Rightarrow> intent_envelope) \<Rightarrow> migrator" where
  "migrator_register m from to hook = m((from, to) \<mapsto> hook)"

function migrate :: "migrator \<Rightarrow> intent_envelope \<Rightarrow> u32 \<Rightarrow> u32 \<Rightarrow> intent_envelope" where
  "migrate m e cursor to =
     (if cursor < to
      then let next = cursor + 1
           in migrate m (case m (cursor, next) of Some h \<Rightarrow> h e | None \<Rightarrow> e) next to
      else e)"
  by pat_completeness auto

lemma word_less_Suc: "(a :: 'a::len word) < b \<Longrightarrow> unat (a + 1) = Suc (unat a)"
proof -
  assume "a < b"
  moreover have "unat b < 2 ^ LENGTH('a)" by simp
  ultimately have "Suc (unat a) < 2 ^ LENGTH('a)" unfolding word_less_nat_alt by linarith
  then show ?thesis by (simp add: unat_word_ariths)
qed

termination migrate
  by (relation "measure (\<lambda>(m, e, cursor, to). unat to - unat cursor)")
     (auto simp: word_less_Suc word_less_nat_alt)

declare migrate.simps [simp del]

section \<open>What compilation promises\<close>

lemma questions_for_at_most_two: "length (questions_for e) \<le> 2"
  unfolding questions_for_def length_take by (rule min.cobounded2)

lemma questions_for_blank:
  "list_ex (\<lambda>q. cq_field q = ''goal'' \<or> cq_field q = ''domain'') (questions_for e) \<longleftrightarrow>
     trim (int_goal e) = [] \<or> trim (int_domain e) = []"
  by (auto simp: questions_for_def split: intent_type.splits)

lemma enrich_keeps:
  "int_goal (enrich e) = int_goal e" "int_domain (enrich e) = int_domain e" "int_type (enrich e) = int_type e"
  "int_requester (enrich e) = int_requester e" "int_budget (enrich e) = int_budget e"
  "int_depth (enrich e) = int_depth e" "int_risk_tier (enrich e) = int_risk_tier e"
  "int_id (enrich e) = int_id e" "int_entities_in_context (enrich e) = int_entities_in_context e"
  "int_approval_policy (enrich e) = (if int_risk_tier e = RT_Read then ''none'' else int_approval_policy e)"
  by (simp_all add: enrich_def Let_def)

lemma compile_cached:
  "compile v cache raw req domain budget = (cache', Ok (Compiled e)) \<Longrightarrow>
     icache_get (ce_crypto v) cache' raw = Some e"
  by (auto simp: compile_def Let_def icache_get_def icache_put_def store_insert_def update_conv'
      split: option.splits if_splits sum.splits)

text \<open>Enrichment adds no entity that is already in the context under the same tenant.\<close>

definition entity_key :: "entity_ref_lite \<Rightarrow> string \<times> string option" where
  "entity_key x = (er_entity_id x, er_tenant x)"

lemma merge_entity_distinct:
  "distinct (map entity_key es) \<Longrightarrow> distinct (map entity_key (merge_entity t x es))"
  by (auto simp: merge_entity_def Let_def entity_key_def list_ex_iff)

lemma merge_entity_prefix: "\<exists>new. merge_entity t x es = es @ new"
  by (auto simp: merge_entity_def Let_def)

lemma merge_entity_covers:
  "(er_entity_id x, case er_tenant x of None \<Rightarrow> t | Some u \<Rightarrow> Some u) \<in> entity_key ` set (merge_entity t x es)"
proof -
  let ?x = "if er_tenant x = None then x\<lparr>er_tenant := t\<rparr> else x"
  have k: "(er_entity_id x, case er_tenant x of None \<Rightarrow> t | Some u \<Rightarrow> Some u) = entity_key ?x"
    by (cases "er_tenant x") (simp_all add: entity_key_def)
  show ?thesis
  proof (cases "\<exists>y \<in> set es. entity_key y = entity_key ?x")
    case True
    then have "merge_entity t x es = es" by (auto simp: merge_entity_def Let_def list_ex_iff entity_key_def)
    with True k show ?thesis by (metis imageI)
  next
    case False
    then have "merge_entity t x es = es @ [?x]" by (auto simp: merge_entity_def Let_def list_ex_iff entity_key_def)
    with k show ?thesis by simp
  qed
qed

lemma fold_merge_entity:
  "distinct (map entity_key es) \<Longrightarrow> distinct (map entity_key (fold (merge_entity t) xs es))"
  "\<exists>new. fold (merge_entity t) xs es = es @ new"
  "x \<in> set xs \<Longrightarrow> (er_entity_id x, case er_tenant x of None \<Rightarrow> t | Some u \<Rightarrow> Some u)
     \<in> entity_key ` set (fold (merge_entity t) xs es)"
proof -
  show grow: "\<exists>new. fold (merge_entity t) xs es = es @ new" for es xs
  proof (induction xs arbitrary: es)
    case (Cons y xs)
    from merge_entity_prefix[of t y es] Cons[of "merge_entity t y es"] show ?case by auto
  qed simp
  show "distinct (map entity_key es) \<Longrightarrow> distinct (map entity_key (fold (merge_entity t) xs es))"
    by (induction xs arbitrary: es) (simp_all add: merge_entity_distinct)
  show "x \<in> set xs \<Longrightarrow> (er_entity_id x, case er_tenant x of None \<Rightarrow> t | Some u \<Rightarrow> Some u)
     \<in> entity_key ` set (fold (merge_entity t) xs es)"
  proof (induction xs arbitrary: es)
    case (Cons y xs)
    show ?case
    proof (cases "x = y")
      case True
      obtain new where "fold (merge_entity t) xs (merge_entity t y es) = merge_entity t y es @ new" using grow by blast
      with merge_entity_covers[of y t es] True show ?thesis by auto
    next
      case False
      with Cons show ?thesis by auto
    qed
  qed simp
qed

text \<open>Migration runs the registered hooks of each version step in order.\<close>

lemma migrate_step:
  "migrate m e a (a + 1) = (case m (a, a + 1) of Some h \<Rightarrow> h e | None \<Rightarrow> e)" if "a < a + 1"
  using that by (subst migrate.simps) (simp add: Let_def, subst migrate.simps, simp)

lemma migrate_compose:
  "a \<le> b \<Longrightarrow> b \<le> c \<Longrightarrow> migrate m e a c = migrate m (migrate m e a b) b c"
proof (induction m e a b rule: migrate.induct)
  case (1 m e a b)
  show ?case
  proof (cases "a < b")
    case True
    then have "a < c" using 1(3) by simp
    moreover have "a + 1 \<le> b" using word_less_Suc[OF True] True by (simp add: word_le_nat_alt word_less_nat_alt)
    ultimately show ?thesis
      using 1(1)[OF True refl _ 1(3)] True by (subst migrate.simps, subst (2) migrate.simps) (simp add: Let_def)
  next
    case False
    with 1(2) show ?thesis by (subst (2) migrate.simps) simp
  qed
qed

section \<open>Properties\<close>

definition ex_env :: compile_env where
  "ex_env = \<lparr>ce_crypto = ex_crypto, ce_classify = rule_classify, ce_extract = rule_extract (\<lambda>_ _. None),
     ce_fresh_id = ''int-9'', ce_fresh_trace = ''trace-9'', ce_now = 7\<rparr>"

text \<open>The envelope a classified text gets before the clarification and contract checks, and a cache miss
  in its terms.\<close>

definition draft_envelope ::
  "compile_env \<Rightarrow> string \<Rightarrow> requester \<Rightarrow> string \<Rightarrow> budget_contract \<Rightarrow> intent_type \<Rightarrow> intent_envelope" where
  "draft_envelope v raw req domain budget ty = enrich
     \<lparr>int_id = ce_fresh_id v, int_type = ty, int_requester = req, int_goal = trim raw,
      int_domain = domain, int_constraints = ce_extract v raw, int_budget = budget, int_deadline = None,
      int_risk_tier = tier_of ty, int_approval_policy = ''human'', int_output_contract = None,
      int_trace_id = ce_fresh_trace v, int_depth = 0, int_created_at = ce_now v, int_entities_in_context = []\<rparr>"

lemma draft_envelope_keeps:
  "int_goal (draft_envelope v raw req domain budget ty) = trim raw"
  "int_domain (draft_envelope v raw req domain budget ty) = domain"
  "int_type (draft_envelope v raw req domain budget ty) = ty"
  "int_requester (draft_envelope v raw req domain budget ty) = req"
  "int_budget (draft_envelope v raw req domain budget ty) = budget"
  "int_depth (draft_envelope v raw req domain budget ty) = 0"
  "int_risk_tier (draft_envelope v raw req domain budget ty) = tier_of ty"
  "int_approval_policy (draft_envelope v raw req domain budget ty) = (if tier_of ty = RT_Read then ''none'' else ''human'')"
  by (simp_all add: draft_envelope_def enrich_keeps)

lemma compile_miss:
  fixes v raw req domain budget ty
  defines "e \<equiv> draft_envelope v raw req domain budget ty"
  assumes "icache_get (ce_crypto v) cache raw = None" "ce_classify v raw = Some ty"
  shows "compile v cache raw req domain budget =
      (if trim (trim raw) = [] \<or> trim domain = [] then (cache, Ok (NeedsRefinement (questions_for e)))
       else case validate_intent e of Inl err \<Rightarrow> (cache, Err (IE_Contract err))
            | Inr _ \<Rightarrow> (icache_put (ce_crypto v) cache raw e, Ok (Compiled e)))"
    and "trim (trim raw) = [] \<or> trim domain = [] \<Longrightarrow> questions_for e \<noteq> []"
proof -
  have blank: "list_ex (\<lambda>q. cq_field q = ''goal'' \<or> cq_field q = ''domain'') (questions_for e) \<longleftrightarrow>
      trim (trim raw) = [] \<or> trim domain = []"
    unfolding questions_for_blank e_def draft_envelope_keeps ..
  then show ne: "trim (trim raw) = [] \<or> trim domain = [] \<Longrightarrow> questions_for e \<noteq> []"
    by (cases "questions_for e") auto
  show "compile v cache raw req domain budget =
      (if trim (trim raw) = [] \<or> trim domain = [] then (cache, Ok (NeedsRefinement (questions_for e)))
       else case validate_intent e of Inl err \<Rightarrow> (cache, Err (IE_Contract err))
            | Inr _ \<Rightarrow> (icache_put (ce_crypto v) cache raw e, Ok (Compiled e)))"
    using blank ne unfolding compile_def assms(2,3) option.case draft_envelope_def[symmetric] e_def[symmetric] Let_def by auto
qed

definition blank_text :: "string \<Rightarrow> bool" where
  "blank_text s \<longleftrightarrow> (\<forall>c \<in> set s. is_whitespace c)"

lemma trim_Nil_iff: "trim s = [] \<longleftrightarrow> blank_text s"
proof -
  have "trim s = [] \<longleftrightarrow> (\<forall>c \<in> set (dropWhile is_whitespace s). is_whitespace c)"
    by (simp add: trim_def dropWhile_eq_Nil_conv)
  also have "\<dots> \<longleftrightarrow> blank_text s" unfolding blank_text_def by (induction s) auto
  finally show ?thesis .
qed

lemma trim_trim_Nil: "trim (trim s) = [] \<longleftrightarrow> blank_text s"
proof -
  have "\<not> blank_text (trim s)" if "trim s \<noteq> []"
  proof -
    let ?r = "dropWhile is_whitespace (rev (dropWhile is_whitespace s))"
    have "?r \<noteq> []" using that by (simp add: trim_def)
    then have "hd ?r \<in> set (trim s)" "\<not> is_whitespace (hd ?r)" by (simp_all add: trim_def hd_dropWhile)
    then show ?thesis by (auto simp: blank_text_def)
  qed
  then show ?thesis using trim_Nil_iff[of s] trim_Nil_iff[of "trim s"] by (auto simp: blank_text_def)
qed

lemma map_of_btree_entry_new: "map_of m k = None \<Longrightarrow> map_of (btree_entry k v f m) = (map_of m)(k \<mapsto> f v)"
  by (induction k v f m rule: btree_entry.induct) (auto split: if_splits)

lemma draft_envelope_constraints:
  "map_of (int_constraints (draft_envelope v raw req domain budget ty)) =
     (if rq_role req = ''analyst'' \<and> map_of (ce_extract v raw) ''dimension'' = None
      then (map_of (ce_extract v raw))(''dimension'' \<mapsto> JString ''region'') else map_of (ce_extract v raw))"
  by (auto simp: draft_envelope_def enrich_def Let_def map_of_btree_entry_new)

lemma questions_for_fields:
  "''goal'' \<in> cq_field ` set (questions_for e) \<longleftrightarrow> trim (int_goal e) = []"
  "''domain'' \<in> cq_field ` set (questions_for e) \<longleftrightarrow> trim (int_domain e) = []"
  by (auto simp: questions_for_def split: intent_type.splits)

text \<open>C29. What compilation does with an input that is not cached, on every path. A text the classifier does
  not recognise fails to be classified. A recognised text is answered with one or two questions exactly when the
  text or the domain is blank, and a question for the goal or the domain is among them exactly when that one is blank; with
  both given it is refused exactly when the cost limit of the budget is not finite or negative. Otherwise it
  is compiled: the envelope is valid, at depth zero, carries the caller's own requester, domain, budget
  and trimmed text and the risk tier of its type, skips approval exactly in the read tier, and has the constraints
  extracted from the text, with the region as an analyst's default dimension. The envelope is then
  cached for this text, and nothing else is ever cached.\<close>

theorem compile_sound:
  assumes "icache_get (ce_crypto v) cache raw = None" "compile v cache raw req domain budget = (cache', r)"
  shows "case ce_classify v raw of
      None \<Rightarrow> r = Err ClassificationFailed \<and> cache' = cache
    | Some ty \<Rightarrow>
        if blank_text raw \<or> blank_text domain
        then cache' = cache \<and> (\<exists>qs. r = Ok (NeedsRefinement qs) \<and> qs \<noteq> [] \<and> length qs \<le> 2
          \<and> (''goal'' \<in> cq_field ` set qs \<longleftrightarrow> blank_text raw) \<and> (''domain'' \<in> cq_field ` set qs \<longleftrightarrow> blank_text domain))
        else if \<not> is_finite_f (max_cost_usd budget) \<or> flt (max_cost_usd budget) (Fin 0)
        then cache' = cache \<and> r = Err (IE_Contract (InvalidBudget (max_cost_usd budget)))
        else \<exists>e. r = Ok (Compiled e) \<and> validate_intent e = Ok () \<and> int_depth e = 0 \<and> int_requester e = req
          \<and> int_domain e = domain \<and> int_budget e = budget \<and> int_goal e = trim raw \<and> int_type e = ty
          \<and> (ty, int_risk_tier e) \<in> {(TransactionalIntent, RT_Write), (AnalyticalIntent, RT_Read), (PlanningIntent, RT_Advisory),
               (DelegationIntent, RT_Delegation), (GovernanceIntent, RT_Governance)}
          \<and> (int_approval_policy e = ''none'' \<longleftrightarrow> int_risk_tier e = RT_Read)
          \<and> map_of (int_constraints e) =
              (if rq_role req = ''analyst'' \<and> map_of (ce_extract v raw) ''dimension'' = None
               then (map_of (ce_extract v raw))(''dimension'' \<mapsto> JString ''region'') else map_of (ce_extract v raw))
          \<and> (\<forall>other. icache_get (ce_crypto v) cache' other =
               (if semantic_hash (ce_crypto v) other = semantic_hash (ce_crypto v) raw then Some e
                else icache_get (ce_crypto v) cache other))"
proof (cases "ce_classify v raw")
  case None
  with assms show ?thesis by (simp add: compile_def)
next
  case (Some ty)
  let ?e = "draft_envelope v raw req domain budget ty"
  have tier: "(ty, tier_of ty) \<in> {(TransactionalIntent, RT_Write), (AnalyticalIntent, RT_Read), (PlanningIntent, RT_Advisory),
      (DelegationIntent, RT_Delegation), (GovernanceIntent, RT_Governance)}" by (cases ty) simp_all
  have valid: "validate_intent ?e = validate_budget budget" if "\<not> (blank_text raw \<or> blank_text domain)"
    using that by (simp add: validate_intent_def draft_envelope_keeps trim_Nil_iff[of domain] trim_trim_Nil MAX_DEPTH_def)
  note run = compile_miss[OF assms(1) Some, where req = req and domain = domain and budget = budget, unfolded trim_trim_Nil trim_Nil_iff[of domain] assms(2)]
  show ?thesis
  proof (cases "blank_text raw \<or> blank_text domain")
    case True
    with run questions_for_at_most_two[of ?e] questions_for_fields[of ?e] Some show ?thesis
      by (simp add: draft_envelope_keeps trim_trim_Nil trim_Nil_iff[of domain])
  next
    case False
    with run(1) valid Some tier show ?thesis
      by (auto simp: validate_budget_def draft_envelope_keeps draft_envelope_constraints icache_get_def icache_put_def store_insert_def update_conv')
  qed
qed

lemma ex_compiled:
  "\<exists>cache e. compile ex_env [] ''show stock'' ex_requester ''shop'' ex_budget = (cache, Ok (Compiled e))
     \<and> int_risk_tier e = RT_Read"
proof -
  have c: "ce_classify ex_env ''show stock'' = Some AnalyticalIntent" unfolding ex_env_def by code_simp
  have t: "trim ''show stock'' = ''show stock''" "trim ''shop'' = ''shop''" by (simp_all add: trim_def is_whitespace_def)
  have "validate_intent (draft_envelope ex_env ''show stock'' ex_requester ''shop'' ex_budget AnalyticalIntent) = Ok ()"
    by (simp add: validate_intent_def draft_envelope_keeps t validate_budget_def ex_budget_def MAX_DEPTH_def fle_def is_finite_f_def)
  then show ?thesis
    using compile_miss(1)[where v = ex_env and cache = "[]", OF _ c, of ex_requester "''shop''" ex_budget]
    by (simp add: icache_get_def t draft_envelope_keeps)
qed

theorem compile_sound_witness:
  "\<exists>cache' e. compile ex_env [] ''show stock'' ex_requester ''shop'' ex_budget = (cache', Ok (Compiled e))
     \<and> validate_intent e = Ok () \<and> int_approval_policy e = ''none''"
proof -
  have miss: "icache_get (ce_crypto ex_env) [] ''show stock'' = None" by (simp add: icache_get_def)
  obtain cache' e where *: "compile ex_env [] ''show stock'' ex_requester ''shop'' ex_budget = (cache', Ok (Compiled e))"
    "int_risk_tier e = RT_Read" using ex_compiled by blast
  have "validate_intent e = Ok () \<and> (int_approval_policy e = ''none'' \<longleftrightarrow> int_risk_tier e = RT_Read)"
    using compile_sound[OF miss *(1)] by (auto split: option.splits if_splits)
  with * show ?thesis by auto
qed

text \<open>Later calls of a compiler, with any classifier, extractor and caller.\<close>

definition compile_calls ::
  "(compile_env \<times> string \<times> requester \<times> string \<times> budget_contract) list \<Rightarrow> intent_cache \<Rightarrow> intent_cache" where
  "compile_calls calls cache = fold (\<lambda>(v, raw, req, domain, budget) c. fst (compile v c raw req domain budget)) calls cache"

lemma compile_keeps_entry:
  assumes "icache_get (ce_crypto v) cache raw = Some e"
  shows "icache_get (ce_crypto v) (fst (compile v cache raw' req domain budget)) raw = Some e"
  using assms by (auto simp: compile_def Let_def icache_get_def icache_put_def store_insert_def update_conv'
      split: option.splits sum.splits)

lemma compile_calls_keep_entry:
  "icache_get k cache raw = Some e \<Longrightarrow> \<forall>c \<in> set calls. ce_crypto (fst c) = k
    \<Longrightarrow> icache_get k (compile_calls calls cache) raw = Some e"
proof (induction calls arbitrary: cache)
  case (Cons c calls)
  then have "icache_get k (compile_calls [c] cache) raw = Some e"
    using compile_keeps_entry[of "fst c" cache raw e] by (simp add: compile_calls_def case_prod_beta)
  from Cons.IH[OF this] Cons.prems(2) show ?case by (simp add: compile_calls_def)
qed (simp add: compile_calls_def)

text \<open>C36. The semantic cache is shared between requesters: once an input was compiled for one caller, the same text up to
  letter case and white space compiles to that envelope for every later caller, whatever was compiled in
  between, so a second caller receives an intent with the first caller's identity, scopes and tenant, domain and budget.\<close>

theorem compile_returns_first_requester:
  assumes "icache_get (ce_crypto v) before raw = None" "compile v before raw req domain budget = (cache, Ok (Compiled e))"
    and "\<forall>c \<in> set calls. ce_crypto (fst c) = ce_crypto v" "normalise_input raw' = normalise_input raw" "ce_crypto v' = ce_crypto v"
  shows "compile v' (compile_calls calls cache) raw' req' domain' budget' = (compile_calls calls cache, Ok (Compiled e))
    \<and> int_requester e = req \<and> int_domain e = domain \<and> int_budget e = budget"
proof -
  have "icache_get (ce_crypto v) (compile_calls calls cache) raw = Some e"
    by (rule compile_calls_keep_entry[OF compile_cached[OF assms(2)] assms(3)])
  then have "icache_get (ce_crypto v') (compile_calls calls cache) raw' = Some e"
    using assms(4,5) by (simp add: icache_get_def semantic_hash_def)
  moreover have "int_requester e = req \<and> int_domain e = domain \<and> int_budget e = budget"
    using assms(1,2) by (auto simp: compile_def Let_def enrich_keeps split: option.splits if_splits sum.splits)
  ultimately show ?thesis by (simp add: compile_def)
qed

theorem compile_returns_first_requester_witness:
  "\<exists>cache e. compile ex_env (compile_calls [(ex_env, ''other'', ex_requester, ''shop'', ex_budget)] cache) ''SHOW  stock''
       (ex_requester\<lparr>rq_user_id := ''mallory'', rq_tenant := Some ''t2''\<rparr>) ''bank'' ex_budget
       = (compile_calls [(ex_env, ''other'', ex_requester, ''shop'', ex_budget)] cache, Ok (Compiled e))
     \<and> rq_user_id (int_requester e) = ''u1'' \<and> rq_tenant (int_requester e) = Some ''t1'' \<and> int_domain e = ''shop''"
proof -
  obtain cache e where *: "compile ex_env [] ''show stock'' ex_requester ''shop'' ex_budget = (cache, Ok (Compiled e))"
    using ex_compiled by blast
  have miss: "icache_get (ce_crypto ex_env) [] ''show stock'' = None" by (simp add: icache_get_def)
  have "normalise_input ''SHOW  stock'' = normalise_input ''show stock''" by code_simp
  then show ?thesis
    using compile_returns_first_requester[OF miss *, of "[(ex_env, ''other'', ex_requester, ''shop'', ex_budget)]" "''SHOW  stock''" ex_env]
    by (intro exI[of _ cache] exI[of _ e]) (simp add: ex_requester_def)
qed

end
