(* ===== verification/Ontology.thy ===== *)
theory Ontology
  imports Storage
begin

text \<open>
  The ontology (\<open>aaf-ontology\<close>): entities with classifications, relations and versions, the
  in-memory registry that guards classification, compatibility and relations, lineage records, the
  exact-match resolver and the schema importer.
\<close>

section \<open>Entities\<close>

record entity_version =
  ov_major :: u32
  ov_minor :: u32
  ov_patch :: u32

definition version_initial :: entity_version where
  "version_initial = \<lparr>ov_major = 0, ov_minor = 1, ov_patch = 0\<rparr>"

definition version_display :: "entity_version \<Rightarrow> string" where
  "version_display v = show_nat (unat (ov_major v)) @ ''.'' @ show_nat (unat (ov_minor v)) @ ''.''
     @ show_nat (unat (ov_patch v))"

datatype classification = CL_Public | CL_Internal | CL_Pii | CL_Regulated string

fun classification_level :: "classification \<Rightarrow> u8" where
  "classification_level CL_Public = 0"
| "classification_level CL_Internal = 1"
| "classification_level CL_Pii = 2"
| "classification_level (CL_Regulated _) = 3"

definition can_flow_into :: "classification \<Rightarrow> classification \<Rightarrow> bool" where
  "can_flow_into a b \<longleftrightarrow> classification_level a \<le> classification_level b"

datatype field_type = FT_String | FT_Integer | FT_Float | FT_Boolean | FT_Timestamp | FT_Money
  | FT_EntityRef string | FT_Object | FT_List string

record entity_field =
  ef_name :: string
  ef_field_type :: field_type
  ef_required :: bool
  ef_classification :: "classification option"
  ef_description :: string

record entity_ref =
  eref_entity_id :: string
  eref_version :: entity_version
  eref_tenant :: "string option"
  eref_local_id :: "string option"

definition eref_new :: "string \<Rightarrow> entity_version \<Rightarrow> entity_ref" where
  "eref_new e v = \<lparr>eref_entity_id = e, eref_version = v, eref_tenant = None, eref_local_id = None\<rparr>"

definition eref_with_tenant :: "entity_ref \<Rightarrow> string \<Rightarrow> entity_ref" where
  "eref_with_tenant r t = r\<lparr>eref_tenant := Some t\<rparr>"

definition eref_with_local_id :: "entity_ref \<Rightarrow> string \<Rightarrow> entity_ref" where
  "eref_with_local_id r l = r\<lparr>eref_local_id := Some l\<rparr>"

datatype relation_kind = HasOne | HasMany | References | DerivedFrom

datatype cardinality = ExactlyOne | ZeroOrOne | ZeroOrMany | OneOrMany

record relation =
  rel_kind :: relation_kind
  rel_from :: string
  rel_to :: string
  rel_cardinality :: cardinality
  rel_description :: string

definition relation_new :: "relation_kind \<Rightarrow> string \<Rightarrow> string \<Rightarrow> cardinality \<Rightarrow> relation" where
  "relation_new k a b c = \<lparr>rel_kind = k, rel_from = a, rel_to = b, rel_cardinality = c, rel_description = []\<rparr>"

record entity =
  en_id :: string
  en_version :: entity_version
  en_description :: string
  en_classification :: classification
  en_fields :: "entity_field list"
  en_relations :: "relation list"
  en_owner_service :: "string option"

definition entity_new :: "string \<Rightarrow> string \<Rightarrow> classification \<Rightarrow> entity" where
  "entity_new i d c = \<lparr>en_id = i, en_version = version_initial, en_description = d, en_classification = c,
     en_fields = [], en_relations = [], en_owner_service = None\<rparr>"

definition classification_for :: "entity \<Rightarrow> string \<Rightarrow> classification" where
  "classification_for e field =
     (case Option.bind (find (\<lambda>f. ef_name f = field) (en_fields e)) ef_classification of
        Some c \<Rightarrow> c | None \<Rightarrow> en_classification e)"

section \<open>Versions\<close>

datatype version_compatibility = VC_Compatible | VC_Additive | VC_Breaking

definition version_compare :: "entity_version \<Rightarrow> entity_version \<Rightarrow> version_compatibility" where
  "version_compare cur new =
     (if ov_major new > ov_major cur then VC_Breaking
      else if ov_major new = ov_major cur \<and> ov_minor new > ov_minor cur then VC_Additive
      else if ov_major new = ov_major cur \<and> ov_minor new = ov_minor cur \<and> ov_patch new \<ge> ov_patch cur
      then VC_Compatible
      else VC_Breaking)"

section \<open>The registry\<close>

datatype ontology_error =
    ON_NotFound string
  | IncompatibleVersion entity_version entity_version
  | DanglingRelation string string
  | ClassificationDowngrade classification classification
  | CrossTenant string string

type_synonym ontology = "entity store"

definition ontology_upsert :: "ontology \<Rightarrow> entity \<Rightarrow> bool \<Rightarrow> ontology \<times> (unit, ontology_error) result" where
  "ontology_upsert m e allow_breaking =
     (case find (\<lambda>rel. \<not> (rel_to rel = en_id e \<or> map_of m (rel_to rel) \<noteq> None)) (en_relations e) of
        Some rel \<Rightarrow> (m, Err (DanglingRelation (rel_from rel) (rel_to rel)))
      | None \<Rightarrow>
          (case map_of m (en_id e) of
             Some existing \<Rightarrow>
               if \<not> can_flow_into (en_classification existing) (en_classification e)
               then (m, Err (ClassificationDowngrade (en_classification existing) (en_classification e)))
               else if version_compare (en_version existing) (en_version e) = VC_Breaking \<and> \<not> allow_breaking
               then (m, Err (IncompatibleVersion (en_version existing) (en_version e)))
               else (store_insert (en_id e) e m, Ok ())
           | None \<Rightarrow> (store_insert (en_id e) e m, Ok ())))"

definition ontology_get :: "ontology \<Rightarrow> string \<Rightarrow> (entity, ontology_error) result" where
  "ontology_get m i = (case map_of m i of Some e \<Rightarrow> Ok e | None \<Rightarrow> Err (ON_NotFound i))"

definition ontology_list :: "ontology \<Rightarrow> entity list" where
  "ontology_list m = store_values m"

definition ontology_remove :: "ontology \<Rightarrow> string \<Rightarrow> ontology" where
  "ontology_remove m i = store_remove m i"

section \<open>Lineage and resolution\<close>

record entity_ref_versioned =
  erv_ref :: entity_ref
  erv_version :: entity_version

record lineage_record =
  lr_produced :: entity_ref_versioned
  lr_derived_from :: "entity_ref_versioned list"
  lr_producing_capability :: string
  lr_trace_id :: string
  lr_created_at :: timestamp

type_synonym lineage_store = "lineage_record list"

definition lineage_record_op :: "lineage_store \<Rightarrow> lineage_record \<Rightarrow> lineage_store" where
  "lineage_record_op s r = s @ [r]"

definition lineage_for_entity :: "lineage_store \<Rightarrow> string \<Rightarrow> lineage_record list" where
  "lineage_for_entity s i = filter (\<lambda>r. eref_entity_id (erv_ref (lr_produced r)) = i) s"

datatype resolver_outcome = Resolved entity_ref | AmbiguousRefs "entity_ref list" | Unresolved

type_synonym exact_resolver = "(string \<times> string) \<rightharpoonup> entity_ref"

definition resolver_insert :: "exact_resolver \<Rightarrow> string \<Rightarrow> string \<Rightarrow> entity_ref \<Rightarrow> exact_resolver" where
  "resolver_insert t s l r = t((s, l) \<mapsto> r)"

definition resolver_register ::
  "exact_resolver \<Rightarrow> string \<Rightarrow> string \<Rightarrow> string \<Rightarrow> entity_version \<Rightarrow> exact_resolver" where
  "resolver_register t s l e v = resolver_insert t s l (eref_with_local_id (eref_new e v) l)"

definition resolver_resolve :: "exact_resolver \<Rightarrow> string \<Rightarrow> string \<Rightarrow> resolver_outcome" where
  "resolver_resolve t s l = (case t (s, l) of Some r \<Rightarrow> Resolved r | None \<Rightarrow> Unresolved)"

section \<open>Schema import\<close>

definition import_field_type :: "json \<Rightarrow> field_type" where
  "import_field_type field =
     (case Option.bind (json_get field ''type'') json_as_str of
        None \<Rightarrow> FT_Object
      | Some t \<Rightarrow>
          if t = ''string'' then FT_String
          else if t = ''integer'' then FT_Integer
          else if t = ''number'' then FT_Float
          else if t = ''boolean'' then FT_Boolean
          else if t = ''object'' then FT_Object
          else if t = ''array''
          then FT_List (case Option.bind (Option.bind (json_get field ''items'') (\<lambda>i. json_get i ''type'')) json_as_str of
                          Some s \<Rightarrow> s | None \<Rightarrow> ''string'')
          else FT_Object)"

definition import_object_schema :: "string \<Rightarrow> string \<Rightarrow> classification \<Rightarrow> json \<Rightarrow> entity" where
  "import_object_schema i d c schema =
     (case json_get schema ''properties'' of
        Some (JObject obj) \<Rightarrow>
          let required = (case json_get schema ''required'' of
                            Some (JArray vs) \<Rightarrow> List.map_filter json_as_str vs | _ \<Rightarrow> [])
          in (entity_new i d c)\<lparr>en_fields :=
               map (\<lambda>(name, field).
                      \<lparr>ef_name = name, ef_field_type = import_field_type field, ef_required = name \<in> set required,
                       ef_classification = None,
                       ef_description = (case Option.bind (json_get field ''description'') json_as_str of
                                           Some s \<Rightarrow> s | None \<Rightarrow> [])\<rparr>) obj\<rparr>
      | _ \<Rightarrow> entity_new i d c)"

section \<open>What the registry guards\<close>

definition relations_closed :: "ontology \<Rightarrow> bool" where
  "relations_closed m \<longleftrightarrow> (\<forall>i e. map_of m i = Some e \<longrightarrow> (\<forall>rel \<in> set (en_relations e). map_of m (rel_to rel) \<noteq> None))"

definition version_ge :: "entity_version \<Rightarrow> entity_version \<Rightarrow> bool" where
  "version_ge new cur \<longleftrightarrow> ov_major new = ov_major cur \<and>
     (ov_minor new > ov_minor cur \<or> ov_minor new = ov_minor cur \<and> ov_patch new \<ge> ov_patch cur)"

lemma version_compare_Breaking: "version_compare cur new = VC_Breaking \<longleftrightarrow> \<not> version_ge new cur"
  by (auto simp: version_compare_def version_ge_def)

lemma version_ge_refl: "version_ge v v"
  by (simp add: version_ge_def)

lemma version_ge_trans: "version_ge a b \<Longrightarrow> version_ge b c \<Longrightarrow> version_ge a c"
  by (auto simp: version_ge_def)

lemma upsert_cases:
  obtains (refused) err where "ontology_upsert m e b = (m, Err err)"
  | (stored) "ontology_upsert m e b = (store_insert (en_id e) e m, Ok ())"
      "\<forall>rel \<in> set (en_relations e). rel_to rel = en_id e \<or> map_of m (rel_to rel) \<noteq> None"
      "\<And>old. map_of m (en_id e) = Some old \<Longrightarrow> can_flow_into (en_classification old) (en_classification e)
         \<and> (b \<or> version_ge (en_version e) (en_version old))"
proof (cases "snd (ontology_upsert m e b)")
  case (Inl err)
  then have "ontology_upsert m e b = (m, Err err)"
    by (auto simp: ontology_upsert_def split: option.splits if_splits)
  then show thesis by (rule refused)
next
  case (Inr u)
  then have "ontology_upsert m e b = (store_insert (en_id e) e m, Ok ())"
    by (auto simp: ontology_upsert_def split: option.splits if_splits)
  moreover have "\<forall>rel \<in> set (en_relations e). rel_to rel = en_id e \<or> map_of m (rel_to rel) \<noteq> None"
    using Inr by (auto simp: ontology_upsert_def find_None_iff split: option.splits)
  moreover have "can_flow_into (en_classification old) (en_classification e)
      \<and> (b \<or> version_ge (en_version e) (en_version old))" if "map_of m (en_id e) = Some old" for old
    using Inr that by (auto simp: ontology_upsert_def version_compare_Breaking split: option.splits if_splits)
  ultimately show thesis by (rule stored)
qed

lemma map_of_store_insert: "map_of (store_insert k v m) = (map_of m)(k \<mapsto> v)"
  by (simp add: store_insert_def update_conv')

lemma upsert_closed: "relations_closed m \<Longrightarrow> relations_closed (fst (ontology_upsert m e b))"
  by (cases rule: upsert_cases[of m e b]) (auto simp: relations_closed_def map_of_store_insert split: if_splits)

lemma upsert_monotone:
  assumes "map_of m i = Some old"
  shows "\<exists>new. map_of (fst (ontology_upsert m e b)) i = Some new
    \<and> classification_level (en_classification old) \<le> classification_level (en_classification new)
    \<and> (b \<or> version_ge (en_version new) (en_version old))"
  using assms by (cases rule: upsert_cases[of m e b])
    (auto simp: map_of_store_insert can_flow_into_def version_ge_refl)

text \<open>A run of upserts, each with its own override of the version check.\<close>

definition upserts :: "(entity \<times> bool) list \<Rightarrow> ontology \<Rightarrow> ontology" where
  "upserts us m = fold (\<lambda>(e, b) m. fst (ontology_upsert m e b)) us m"

lemma upserts_closed: "relations_closed m \<Longrightarrow> relations_closed (upserts us m)"
  unfolding upserts_def by (induction us arbitrary: m) (auto simp: upsert_closed)

lemma upserts_monotone:
  "map_of m i = Some old \<Longrightarrow> \<exists>new. map_of (upserts us m) i = Some new
    \<and> classification_level (en_classification old) \<le> classification_level (en_classification new)
    \<and> ((\<exists>u \<in> set us. snd u) \<or> version_ge (en_version new) (en_version old))"
proof (induction us arbitrary: m old)
  case Nil
  then show ?case by (simp add: upserts_def version_ge_refl)
next
  case (Cons u us)
  obtain mid where mid: "map_of (fst (ontology_upsert m (fst u) (snd u))) i = Some mid"
    "classification_level (en_classification old) \<le> classification_level (en_classification mid)"
    "snd u \<or> version_ge (en_version mid) (en_version old)"
    using upsert_monotone[OF Cons.prems] by blast
  from Cons.IH[OF mid(1)] mid(2,3) show ?case
    by (auto simp: upserts_def case_prod_beta intro: version_ge_trans order_trans)
qed

section \<open>Properties\<close>

definition ex_entity :: entity where
  "ex_entity = entity_new ''Order'' ''an order'' CL_Pii"

text \<open>C11. The ontology registry only moves forward. Starting from a registry whose relations all lead to
  registered entities, any run of upserts, accepted or refused, keeps every relation target
  registered, never loses an entity, never lowers an entity's classification level, and without an
  explicit override never changes an entity's major version or takes its version back. The override
  does not extend to the classification, although the documentation of the error and of the operation reads as if it did.\<close>

theorem ontology_upserts_monotone:
  assumes "relations_closed m"
  shows "relations_closed (upserts us m)
    \<and> (\<forall>i old. ontology_get m i = Ok old \<longrightarrow>
         (\<exists>new. ontology_get (upserts us m) i = Ok new
            \<and> classification_level (en_classification old) \<le> classification_level (en_classification new)
            \<and> ((\<forall>u \<in> set us. \<not> snd u) \<longrightarrow> version_ge (en_version new) (en_version old))))"
proof (intro conjI allI impI)
  show "relations_closed (upserts us m)" by (rule upserts_closed[OF assms])
  fix i old assume "ontology_get m i = Ok old"
  then have "map_of m i = Some old" by (simp add: ontology_get_def split: option.splits)
  from upserts_monotone[OF this, of us] show "\<exists>new. ontology_get (upserts us m) i = Ok new
      \<and> classification_level (en_classification old) \<le> classification_level (en_classification new)
      \<and> ((\<forall>u \<in> set us. \<not> snd u) \<longrightarrow> version_ge (en_version new) (en_version old))"
    by (auto simp: ontology_get_def)
qed

theorem ontology_upserts_monotone_witness:
  "\<exists>new. ontology_get (upserts [(ex_entity\<lparr>en_classification := CL_Public\<rparr>, True)] (upserts [(ex_entity, False)] [])) ''Order'' = Ok new
     \<and> 2 \<le> classification_level (en_classification new)"
proof -
  have "relations_closed (upserts [(ex_entity, False)] [])"
    using ontology_upserts_monotone[of "[]"] by (simp add: relations_closed_def)
  moreover have "ontology_get (upserts [(ex_entity, False)] []) ''Order'' = Ok ex_entity"
    by (simp add: upserts_def ontology_upsert_def ex_entity_def entity_new_def store_insert_def ontology_get_def)
  moreover have "classification_level (en_classification ex_entity) = 2" by (simp add: ex_entity_def entity_new_def)
  ultimately show ?thesis
    using ontology_upserts_monotone[of "upserts [(ex_entity, False)] []"] by metis
qed

end
