(* ===== verification/Surface.thy ===== *)
theory Surface
  imports Intent Ontology
begin

text \<open>
  The application surface (\<open>aaf-surface\<close>): application events, their routing and adaptation to
  intents, situation packaging, state projections, and action proposals with their approval
  life cycle. Fresh identifiers and the current time are arguments.
\<close>

section \<open>Events\<close>

record event_source =
  es_app_id :: string
  es_surface :: string

record screen_context =
  sc_route :: string
  sc_component :: string
  sc_visible_fields :: "string list"

record session_context =
  se_user_id :: string
  se_role :: string
  se_scopes :: "string list"
  se_locale :: string
  se_tenant_id :: string

record surface_constraints =
  su_time_budget_ms :: "u64 option"
  su_cost_budget_usd :: "f64 option"

record situation =
  si_current_entities :: "entity_ref_lite list"
  si_current_screen :: "screen_context option"
  si_session :: session_context
  si_constraints :: surface_constraints

record app_event =
  ae_event_id :: string
  ae_event_type :: string
  ae_source :: event_source
  ae_situation :: situation
  ae_payload :: json
  ae_session_id :: string
  ae_timestamp :: timestamp
  ae_trace_id :: "string option"

definition app_event_new ::
  "string \<Rightarrow> timestamp \<Rightarrow> string \<Rightarrow> event_source \<Rightarrow> situation \<Rightarrow> string \<Rightarrow> app_event" where
  "app_event_new fresh now ty src sit sess =
     \<lparr>ae_event_id = fresh, ae_event_type = ty, ae_source = src, ae_situation = sit, ae_payload = JNull,
      ae_session_id = sess, ae_timestamp = now, ae_trace_id = None\<rparr>"

datatype surface_error =
    SU_MissingCompensation nat
  | ProjectionDenied string string
  | ContextBudgetExceeded nat nat
  | IllegalTransition string string

section \<open>Situation packager\<close>

definition DEFAULT_SITUATION_BUDGET_TOKENS :: nat where
  "DEFAULT_SITUATION_BUDGET_TOKENS = 1000"

definition package_entities :: "situation \<Rightarrow> entity_ref_lite list" where
  "package_entities s = si_current_entities s"

definition situation_tokens :: "string \<Rightarrow> nat" where
  "situation_tokens t = (length t + 3) div 4"

definition package_screen_fields :: "nat \<Rightarrow> situation \<Rightarrow> (string, surface_error) result" where
  "package_screen_fields budget s =
     (let joined = join_with '','' (case si_current_screen s of Some sc \<Rightarrow> sc_visible_fields sc | None \<Rightarrow> []);
          used = situation_tokens joined
      in if used > budget then Err (ContextBudgetExceeded used budget) else Ok joined)"

section \<open>Event to intent\<close>

record rule_adapter =
  ra_rules :: "string \<rightharpoonup> intent_type"
  ra_default_budget :: budget_contract

definition adapter_defaults :: rule_adapter where
  "adapter_defaults =
     \<lparr>ra_rules = [''order.page.opened'' \<mapsto> AnalyticalIntent, ''order.cancel.requested'' \<mapsto> TransactionalIntent,
                  ''order.review.requested'' \<mapsto> DelegationIntent],
      ra_default_budget = \<lparr>max_tokens = 3000, max_cost_usd = Fin (1 / 2), max_latency_ms = 15000\<rparr>\<rparr>"

fun surface_tier :: "intent_type \<Rightarrow> risk_tier" where
  "surface_tier TransactionalIntent = RT_Write"
| "surface_tier AnalyticalIntent = RT_Read"
| "surface_tier PlanningIntent = RT_Advisory"
| "surface_tier DelegationIntent = RT_Delegation"
| "surface_tier GovernanceIntent = RT_Governance"

definition adapt :: "string \<Rightarrow> string \<Rightarrow> timestamp \<Rightarrow> rule_adapter \<Rightarrow> app_event \<Rightarrow> intent_envelope option" where
  "adapt fresh fresh_trace now a ev =
     (case ra_rules a (ae_event_type ev) of
        None \<Rightarrow> None
      | Some ty \<Rightarrow>
          let session = si_session (ae_situation ev); cons = si_constraints (ae_situation ev);
              b0 = ra_default_budget a;
              b1 = (case su_time_budget_ms cons of Some t \<Rightarrow> b0\<lparr>max_latency_ms := t\<rparr> | None \<Rightarrow> b0);
              b2 = (case su_cost_budget_usd cons of Some c \<Rightarrow> b1\<lparr>max_cost_usd := c\<rparr> | None \<Rightarrow> b1)
          in Some \<lparr>int_id = fresh, int_type = ty,
               int_requester = \<lparr>rq_user_id = se_user_id session, rq_role = se_role session,
                                rq_scopes = se_scopes session, rq_tenant = Some (se_tenant_id session)\<rparr>,
               int_goal = ''handle event '' @ ae_event_type ev, int_domain = es_surface (ae_source ev),
               int_constraints = [], int_budget = b2, int_deadline = None, int_risk_tier = surface_tier ty,
               int_approval_policy = ''human'', int_output_contract = None,
               int_trace_id = (case ae_trace_id ev of Some t \<Rightarrow> t | None \<Rightarrow> fresh_trace), int_depth = 0,
               int_created_at = now, int_entities_in_context = package_entities (ae_situation ev)\<rparr>)"

section \<open>Event routing\<close>

datatype event_category = EC_FastPath | EC_AgentInterpret | EC_Composite

definition event_classify :: "app_event \<Rightarrow> event_category" where
  "event_classify ev =
     (if starts_with (ae_event_type ev) ''fast.'' then EC_FastPath
      else case ae_payload ev of
             JObject obj \<Rightarrow> if length obj \<le> 5 \<and> obj \<noteq> [] then EC_FastPath else EC_AgentInterpret
           | JArray arr \<Rightarrow> if length arr \<ge> 2 then EC_Composite else EC_AgentInterpret
           | _ \<Rightarrow> EC_AgentInterpret)"

definition event_decompose :: "(nat \<Rightarrow> string) \<Rightarrow> app_event \<Rightarrow> app_event list option" where
  "event_decompose fresh ev =
     (case ae_payload ev of
        JArray arr \<Rightarrow>
          if length arr < 2 then None
          else Some (map (\<lambda>(i, item). ev\<lparr>ae_event_id := fresh i,
                 ae_event_type := ae_event_type ev @ ''['' @ show_nat i @ '']'', ae_payload := item\<rparr>) (enumerate 0 arr))
      | _ \<Rightarrow> None)"

datatype route_outcome = RO_FastPath app_event | RO_AgentInterpret app_event | RO_Decomposed "app_event list"

text \<open>The router is generic in its classifier.\<close>

definition event_route ::
  "(app_event \<Rightarrow> event_category) \<Rightarrow> (app_event \<Rightarrow> app_event list option) \<Rightarrow> app_event \<Rightarrow> route_outcome" where
  "event_route cls decomp ev =
     (case cls ev of
        EC_FastPath \<Rightarrow> RO_FastPath ev
      | EC_AgentInterpret \<Rightarrow> RO_AgentInterpret ev
      | EC_Composite \<Rightarrow> (case decomp ev of Some subs \<Rightarrow> RO_Decomposed subs | None \<Rightarrow> RO_AgentInterpret ev))"

section \<open>State projections\<close>

datatype projection_error = FieldNotSelected string | WrongTenant

fun surface_of_projection_error :: "projection_error \<Rightarrow> surface_error" where
  "surface_of_projection_error (FieldNotSelected f) = ProjectionDenied ''<unknown>'' f"
| "surface_of_projection_error WrongTenant = ProjectionDenied ''<unknown>'' ''<tenant>''"

record state_projection =
  sp_projection_id :: string
  sp_root_entity :: entity_ref_lite
  sp_tenant :: string
  sp_selected_fields :: "string list"
  sp_freshness_ms :: u64

definition projection_new :: "string \<Rightarrow> entity_ref_lite \<Rightarrow> string \<Rightarrow> string list \<Rightarrow> u64 \<Rightarrow> state_projection" where
  "projection_new fresh ent t selected ms = \<lparr>sp_projection_id = fresh, sp_root_entity = ent, sp_tenant = t,
     sp_selected_fields = selected, sp_freshness_ms = ms\<rparr>"

definition allows_field :: "state_projection \<Rightarrow> string \<Rightarrow> bool" where
  "allows_field p f \<longleftrightarrow> f \<in> set (sp_selected_fields p)"

definition read_field :: "state_projection \<Rightarrow> string \<Rightarrow> json \<Rightarrow> (json, projection_error) result" where
  "read_field p f payload =
     (if \<not> allows_field p f then Err (FieldNotSelected f)
      else Ok (case json_get payload f of Some v \<Rightarrow> v | None \<Rightarrow> JNull))"

definition check_tenant :: "state_projection \<Rightarrow> string \<Rightarrow> (unit, projection_error) result" where
  "check_tenant p caller = (if sp_tenant p \<noteq> caller then Err WrongTenant else Ok ())"

section \<open>Proposals\<close>

record compensation_ref =
  cr_capability :: string

datatype ui_kind = UI_Diff | UI_Form | UI_Card | UI_Banner

record ui_hints =
  ui_kind :: ui_kind
  ui_priority :: u8
  ui_dismissable :: bool

definition ui_hints_default :: ui_hints where
  "ui_hints_default = \<lparr>ui_kind = UI_Card, ui_priority = 50, ui_dismissable = True\<rparr>"

record state_mutation =
  sm_entity_ref :: entity_ref_lite
  sm_field_path :: string
  sm_from_value :: json
  sm_to_value :: json
  sm_preview_renderer_hint :: "string option"
  sm_reversible :: bool
  sm_compensation_ref :: compensation_ref

datatype proposal_state = PP_Draft | PP_Proposed | PP_AppReview | PP_Accepted | PP_Rejected
  | PP_Transformed | PP_Expired

fun proposal_state_debug :: "proposal_state \<Rightarrow> string" where
  "proposal_state_debug PP_Draft = ''Draft''"
| "proposal_state_debug PP_Proposed = ''Proposed''"
| "proposal_state_debug PP_AppReview = ''AppReview''"
| "proposal_state_debug PP_Accepted = ''Accepted''"
| "proposal_state_debug PP_Rejected = ''Rejected''"
| "proposal_state_debug PP_Transformed = ''Transformed''"
| "proposal_state_debug PP_Expired = ''Expired''"

record action_proposal =
  ap_proposal_id :: string
  ap_intent :: string
  ap_trace :: string
  ap_tenant_id :: string
  ap_summary :: string
  ap_rationale :: string
  ap_mutations :: "state_mutation list"
  ap_artifacts :: "string list"
  ap_ui_hints :: ui_hints
  ap_compensation_ref :: "compensation_ref option"
  ap_expires_at :: timestamp
  ap_approval_state :: proposal_state
  ap_created_at :: timestamp

definition proposal_build ::
  "string \<Rightarrow> timestamp \<Rightarrow> string \<Rightarrow> string \<Rightarrow> string \<Rightarrow> string \<Rightarrow> string \<Rightarrow> state_mutation list \<Rightarrow> string list
   \<Rightarrow> ui_hints \<Rightarrow> compensation_ref option \<Rightarrow> timestamp \<Rightarrow> (action_proposal, surface_error) result" where
  "proposal_build fresh now intent tr tenant summary rationale mutations artifacts hints cref expires =
     (if mutations \<noteq> [] \<and> cref = None then Err (SU_MissingCompensation (length mutations))
      else Ok \<lparr>ap_proposal_id = fresh, ap_intent = intent, ap_trace = tr, ap_tenant_id = tenant,
        ap_summary = summary, ap_rationale = rationale, ap_mutations = mutations, ap_artifacts = artifacts,
        ap_ui_hints = hints, ap_compensation_ref = cref, ap_expires_at = expires,
        ap_approval_state = PP_Draft, ap_created_at = now\<rparr>)"

fun proposal_step :: "proposal_state \<Rightarrow> proposal_state \<Rightarrow> bool" where
  "proposal_step PP_Draft PP_Proposed = True"
| "proposal_step PP_Proposed PP_AppReview = True"
| "proposal_step PP_AppReview s = (s = PP_Accepted \<or> s = PP_Rejected \<or> s = PP_Transformed \<or> s = PP_Expired)"
| "proposal_step _ _ = False"

definition transition_to :: "action_proposal \<Rightarrow> proposal_state \<Rightarrow> action_proposal \<times> (unit, surface_error) result" where
  "transition_to p s =
     (if \<not> proposal_step (ap_approval_state p) s
      then (p, Err (IllegalTransition (proposal_state_debug (ap_approval_state p)) (proposal_state_debug s)))
      else (p\<lparr>ap_approval_state := s\<rparr>, Ok ()))"

definition proposal_publish :: "action_proposal \<Rightarrow> action_proposal \<times> (unit, surface_error) result" where
  "proposal_publish p =
     (case transition_to p PP_Proposed of
        (p1, Inl e) \<Rightarrow> (p1, Err e)
      | (p1, Inr _) \<Rightarrow> (case transition_to p1 PP_AppReview of (p2, Inl e) \<Rightarrow> (p2, Err e) | (p2, Inr _) \<Rightarrow> (p2, Ok ())))"

definition proposal_accept :: "action_proposal \<Rightarrow> action_proposal \<times> (unit, surface_error) result" where
  "proposal_accept p = transition_to p PP_Accepted"

definition proposal_reject :: "action_proposal \<Rightarrow> action_proposal \<times> (unit, surface_error) result" where
  "proposal_reject p = transition_to p PP_Rejected"

definition proposal_transform :: "action_proposal \<Rightarrow> action_proposal \<times> (unit, surface_error) result" where
  "proposal_transform p = transition_to p PP_Transformed"

definition proposal_expire :: "action_proposal \<Rightarrow> action_proposal \<times> (unit, surface_error) result" where
  "proposal_expire p = transition_to p PP_Expired"

section \<open>The proposal life cycle\<close>

datatype lifecycle_op = LPublish | LAccept | LReject | LTransform | LExpire

fun lifecycle_apply :: "lifecycle_op \<Rightarrow> action_proposal \<Rightarrow> action_proposal \<times> (unit, surface_error) result" where
  "lifecycle_apply LPublish p = proposal_publish p"
| "lifecycle_apply LAccept p = proposal_accept p"
| "lifecycle_apply LReject p = proposal_reject p"
| "lifecycle_apply LTransform p = proposal_transform p"
| "lifecycle_apply LExpire p = proposal_expire p"

lemmas lifecycle_defs = proposal_publish_def proposal_accept_def proposal_reject_def proposal_transform_def
  proposal_expire_def transition_to_def

text \<open>The proposals a client can hold: built, then moved by the life cycle's operations.\<close>

inductive proposal_reachable :: "action_proposal \<Rightarrow> lifecycle_op list \<Rightarrow> bool" where
  pr_build: "proposal_build fresh now intent tr tenant summary rationale mutations artifacts hints cref expires = Ok p
     \<Longrightarrow> proposal_reachable p []"
| pr_apply: "proposal_reachable p ops \<Longrightarrow> lifecycle_apply op p = (p', Ok ()) \<Longrightarrow> proposal_reachable p' (ops @ [op])"
| pr_refuse: "proposal_reachable p ops \<Longrightarrow> lifecycle_apply op p = (p', Err e) \<Longrightarrow> proposal_reachable p' ops"

fun state_after :: "lifecycle_op \<Rightarrow> proposal_state" where
  "state_after LPublish = PP_AppReview"
| "state_after LAccept = PP_Accepted"
| "state_after LReject = PP_Rejected"
| "state_after LTransform = PP_Transformed"
| "state_after LExpire = PP_Expired"

lemma proposal_step_iff:
  "proposal_step a b \<longleftrightarrow> (a = PP_Draft \<and> b = PP_Proposed) \<or> (a = PP_Proposed \<and> b = PP_AppReview) \<or>
     (a = PP_AppReview \<and> b \<in> {PP_Accepted, PP_Rejected, PP_Transformed, PP_Expired})"
  by (cases a; cases b) auto

lemma lifecycle_Ok_iff:
  "lifecycle_apply op p = (p', Ok ()) \<longleftrightarrow> p' = p\<lparr>ap_approval_state := state_after op\<rparr> \<and>
     ap_approval_state p = (if op = LPublish then PP_Draft else PP_AppReview)"
  by (cases op) (auto simp: lifecycle_defs proposal_step_iff split: if_splits)

lemma lifecycle_Err:
  "lifecycle_apply op p = (p', Err e) \<Longrightarrow> p' = p"
  by (cases op) (auto simp: lifecycle_defs proposal_step_iff split: if_splits)

lemma proposal_reachable_inv:
  "proposal_reachable p ops \<Longrightarrow>
     (ap_mutations p \<noteq> [] \<longrightarrow> ap_compensation_ref p \<noteq> None) \<and>
     (case ops of [] \<Rightarrow> ap_approval_state p = PP_Draft
      | op # ops' \<Rightarrow> op = LPublish \<and>
          (case ops' of [] \<Rightarrow> ap_approval_state p = PP_AppReview
           | [op'] \<Rightarrow> op' \<noteq> LPublish \<and> ap_approval_state p = state_after op' | _ \<Rightarrow> False))"
proof (induction rule: proposal_reachable.induct)
  case pr_build
  then show ?case by (auto simp: proposal_build_def split: if_splits)
next
  case (pr_apply p ops op p')
  then have p': "p' = p\<lparr>ap_approval_state := state_after op\<rparr>"
    "ap_approval_state p = (if op = LPublish then PP_Draft else PP_AppReview)" by (simp_all add: lifecycle_Ok_iff)
  have "state_after x \<noteq> PP_Draft" "x \<noteq> LPublish \<Longrightarrow> state_after x \<noteq> PP_AppReview" for x by (cases x; simp)+
  with pr_apply.IH p' show ?case by (auto split: list.splits if_splits)
next
  case (pr_refuse p ops op p' e)
  then show ?case using lifecycle_Err by blast
qed

section \<open>Properties\<close>

definition ex_mutation :: state_mutation where
  "ex_mutation = \<lparr>sm_entity_ref = entity_ref_new ''Order'', sm_field_path = ''status'', sm_from_value = JNull,
     sm_to_value = JNull, sm_preview_renderer_hint = None, sm_reversible = True,
     sm_compensation_ref = \<lparr>cr_capability = ''undo''\<rparr>\<rparr>"

definition ex_proposal :: action_proposal where
  "ex_proposal = \<lparr>ap_proposal_id = ''p'', ap_intent = ''i'', ap_trace = ''t'', ap_tenant_id = ''t1'',
     ap_summary = [], ap_rationale = [], ap_mutations = [ex_mutation], ap_artifacts = [],
     ap_ui_hints = ui_hints_default, ap_compensation_ref = Some \<lparr>cr_capability = ''undo''\<rparr>,
     ap_expires_at = 9, ap_approval_state = PP_Draft, ap_created_at = 1\<rparr>"

text \<open>C12. Rule 20 on the surface: a proposal that was built and moved by the life cycle's operations, in
  whatever order and with whatever refusals, carries a compensation whenever it carries mutations; a
  decision (accepted, rejected, transformed or expired) was taken exactly once and only after
  publication; and a decided proposal refuses every further operation and stays as it is.\<close>

theorem proposal_lifecycle_safe:
  assumes "proposal_reachable p ops"
  shows "(ap_mutations p \<noteq> [] \<longrightarrow> ap_compensation_ref p \<noteq> None)
    \<and> (ap_approval_state p \<in> {PP_Accepted, PP_Rejected, PP_Transformed, PP_Expired} \<longrightarrow>
         (\<exists>op. ops = [LPublish, op] \<and> op \<noteq> LPublish \<and> ap_approval_state p = state_after op)
         \<and> (\<forall>op. \<exists>e. lifecycle_apply op p = (p, Err e)))"
proof -
  note inv = proposal_reachable_inv[OF assms]
  have stuck: "\<exists>e. lifecycle_apply op p = (p, Err e)"
    if "ap_approval_state p \<in> {PP_Accepted, PP_Rejected, PP_Transformed, PP_Expired}" for op
  proof -
    obtain p' r where r: "lifecycle_apply op p = (p', r)" by fastforce
    with that have "r \<noteq> Ok ()" by (auto simp: lifecycle_Ok_iff split: if_splits)
    with r lifecycle_Err show ?thesis by (cases r) auto
  qed
  from inv stuck show ?thesis by (auto split: list.splits)
qed

theorem proposal_lifecycle_safe_witness:
  "\<exists>p. proposal_reachable p [LPublish, LAccept] \<and> ap_mutations p \<noteq> [] \<and> ap_compensation_ref p \<noteq> None
     \<and> (\<exists>e. proposal_reject p = (p, Err e))"
proof -
  have "proposal_build ''p'' 1 ''i'' ''t'' ''t1'' [] [] [ex_mutation] [] ui_hints_default
      (Some \<lparr>cr_capability = ''undo''\<rparr>) 9 = Ok ex_proposal"
    by (simp add: proposal_build_def ex_proposal_def)
  from pr_build[OF this] have "proposal_reachable (ex_proposal\<lparr>ap_approval_state := PP_AppReview\<rparr>) ([] @ [LPublish])"
    by (rule pr_apply) (simp add: lifecycle_Ok_iff ex_proposal_def del: lifecycle_apply.simps)
  then have "proposal_reachable (ex_proposal\<lparr>ap_approval_state := PP_Accepted\<rparr>) (([] @ [LPublish]) @ [LAccept])"
    by (rule pr_apply) (simp add: lifecycle_Ok_iff ex_proposal_def del: lifecycle_apply.simps)
  from proposal_lifecycle_safe[OF this] this show ?thesis
    by (intro exI[of _ "ex_proposal\<lparr>ap_approval_state := PP_Accepted\<rparr>"])
       (auto simp: ex_proposal_def dest: spec[of _ LReject])
qed

text \<open>Decomposition of a composite event: a payload of two or more items becomes one event per item, in
  order, in the same session, situation and source. Their event types are suffixed with the item's
  index, so the default adapter has no rule for any of them and turns none into an intent.\<close>

theorem decomposed_events_not_adapted:
  assumes "event_route event_classify (event_decompose fresh) ev = RO_Decomposed subs"
  shows "ae_payload ev = JArray (map ae_payload subs) \<and> 2 \<le> length subs
    \<and> (\<forall>s \<in> set subs. ae_situation s = ae_situation ev \<and> ae_source s = ae_source ev \<and> ae_session_id s = ae_session_id ev
         \<and> adapt i t now adapter_defaults s = None)"
proof -
  from assms obtain arr where arr: "ae_payload ev = JArray arr" "2 \<le> length arr"
    "subs = map (\<lambda>(i, item). ev\<lparr>ae_event_id := fresh i,
       ae_event_type := ae_event_type ev @ ''['' @ show_nat i @ '']'', ae_payload := item\<rparr>) (enumerate 0 arr)"
    by (auto simp: event_route_def event_decompose_def split: event_category.splits option.splits json.splits if_splits)
  have pay: "map ae_payload (map (\<lambda>(i, item). ev\<lparr>ae_event_id := fresh i,
      ae_event_type := ae_event_type ev @ ''['' @ show_nat i @ '']'', ae_payload := item\<rparr>) (enumerate n xs)) = xs" for n xs
    by (induction xs arbitrary: n) auto
  have "last (ae_event_type s) = CHR '']''" if "s \<in> set subs" for s
    using that arr(3) by auto
  then have "ra_rules adapter_defaults (ae_event_type s) = None" if "s \<in> set subs" for s
    using that by (fastforce simp: adapter_defaults_def)
  with arr pay[of 0 arr] show ?thesis by (auto simp: adapt_def)
qed

end
