(* ===== verification/Sidecar.thy ===== *)
theory Sidecar
  imports Planner Policy
begin

text \<open>
  The processes beside a service: the sidecar (\<open>aaf-sidecar\<close>: anti-corruption layer, capability
  publisher, local fast path, guards, health, field mapping, proxy), the in-process wrapper
  (\<open>aaf-wrapper\<close>) and the loopback transport (\<open>aaf-transport\<close>). A capability function of the wrapper
  acts on a world \<open>'w\<close>; the textual rendering of a JSON payload is the parameter \<open>render\<close>.
\<close>

section \<open>Anti-corruption layer\<close>

datatype acl_error = NoTranslator string | TranslationFailed string

datatype acl_direction = ToService | ToAaf

record translator =
  tl_entity_id :: string
  tl_to_service :: "json \<Rightarrow> (json, acl_error) result"
  tl_to_aaf :: "json \<Rightarrow> (json, acl_error) result"

type_synonym acl_registry = "translator store"

definition acl_register :: "acl_registry \<Rightarrow> translator \<Rightarrow> acl_registry" where
  "acl_register r t = store_insert (tl_entity_id t) t r"

definition acl_to_service :: "acl_registry \<Rightarrow> string \<Rightarrow> json \<Rightarrow> (json, acl_error) result" where
  "acl_to_service r e v = (case map_of r e of None \<Rightarrow> Err (NoTranslator e) | Some t \<Rightarrow> tl_to_service t v)"

definition acl_to_aaf :: "acl_registry \<Rightarrow> string \<Rightarrow> json \<Rightarrow> (json, acl_error) result" where
  "acl_to_aaf r e v = (case map_of r e of None \<Rightarrow> Err (NoTranslator e) | Some t \<Rightarrow> tl_to_aaf t v)"

definition acl_has :: "acl_registry \<Rightarrow> string \<Rightarrow> bool" where
  "acl_has r e \<longleftrightarrow> map_of r e \<noteq> None"

definition acl_len :: "acl_registry \<Rightarrow> nat" where
  "acl_len r = length r"

record field_renaming =
  fr_entity :: string
  fr_aaf_to_service :: "string \<rightharpoonup> string"
  fr_service_to_aaf :: "string \<rightharpoonup> string"

definition field_renaming_new :: "string \<Rightarrow> (string \<times> string) list \<Rightarrow> field_renaming" where
  "field_renaming_new e ms =
     \<lparr>fr_entity = e,
      fr_aaf_to_service = fold (\<lambda>(a, s) m. m(a \<mapsto> s)) ms Map.empty,
      fr_service_to_aaf = fold (\<lambda>(a, s) m. m(s \<mapsto> a)) ms Map.empty\<rparr>"

definition new_key :: "(string \<rightharpoonup> string) \<Rightarrow> string \<Rightarrow> string" where
  "new_key m k = (case m k of Some n \<Rightarrow> n | None \<Rightarrow> k)"

definition rename_entries :: "(string \<rightharpoonup> string) \<Rightarrow> (string \<times> json) list \<Rightarrow> (string \<times> json) list" where
  "rename_entries m obj = fold (\<lambda>(k, v). btree_entry (new_key m k) v (\<lambda>_. v)) obj []"

definition rename_fields :: "(string \<rightharpoonup> string) \<Rightarrow> json \<Rightarrow> json" where
  "rename_fields m v = (case v of JObject obj \<Rightarrow> JObject (rename_entries m obj) | _ \<Rightarrow> v)"

definition renaming_translator :: "field_renaming \<Rightarrow> translator" where
  "renaming_translator f =
     \<lparr>tl_entity_id = fr_entity f, tl_to_service = (\<lambda>v. Ok (rename_fields (fr_aaf_to_service f) v)),
      tl_to_aaf = (\<lambda>v. Ok (rename_fields (fr_service_to_aaf f) v))\<rparr>"

section \<open>Publisher, fast path, guards, health and proxy\<close>

fun publish :: "registry \<Rightarrow> capability_contract list \<Rightarrow> registry \<times> (unit, registry_error) result" where
  "publish g [] = (g, Ok ())"
| "publish g (c # cs) =
     (let (g', r) = registry_register g c in case r of Inl e \<Rightarrow> (g', Err e) | Inr _ \<Rightarrow> publish g' cs)"

type_synonym local_fast_path = fast_path_rule_set

definition lfp_add :: "local_fast_path \<Rightarrow> fast_path_rule \<Rightarrow> local_fast_path" where
  "lfp_add f r = fp_push f r"

definition lfp_evaluate :: "(json \<Rightarrow> json \<Rightarrow> bool) \<Rightarrow> local_fast_path \<Rightarrow> intent_envelope \<Rightarrow> fast_path_outcome" where
  "lfp_evaluate jeq f i = fp_evaluate jeq f i"

definition local_check_input :: "policy_engine \<Rightarrow> intent_envelope \<Rightarrow> string \<Rightarrow> policy_decision" where
  "local_check_input e i payload = input_guard_check e i payload"

definition local_check_output :: "policy_engine \<Rightarrow> intent_envelope \<Rightarrow> string \<Rightarrow> policy_decision" where
  "local_check_output e i out = output_guard_check e i out"

type_synonym sidecar_health = bool

definition health_healthy :: sidecar_health where
  "health_healthy = True"

definition mark_unhealthy :: "sidecar_health \<Rightarrow> sidecar_health" where
  "mark_unhealthy h = False"

definition mark_healthy :: "sidecar_health \<Rightarrow> sidecar_health" where
  "mark_healthy h = True"

record sidecar_mapping =
  smp_intent_field :: string
  smp_api_field :: string
  smp_default :: "json option"

definition mapping_apply :: "sidecar_mapping \<Rightarrow> (string \<times> json) list \<Rightarrow> (string \<times> json) list \<Rightarrow> (string \<times> json) list" where
  "mapping_apply fm cons out =
     (case map_of cons (smp_intent_field fm) of
        Some v \<Rightarrow> btree_entry (smp_api_field fm) v (\<lambda>_. v) out
      | None \<Rightarrow> (case smp_default fm of
                   Some v \<Rightarrow> btree_entry (smp_api_field fm) v (\<lambda>_. v) out | None \<Rightarrow> out))"

datatype proxy_decision = PD_FastPath string json | ForwardToAaf | DirectForward

record proxy =
  px_fast_path :: local_fast_path
  px_health :: sidecar_health

definition proxy_handle :: "(json \<Rightarrow> json \<Rightarrow> bool) \<Rightarrow> proxy \<Rightarrow> intent_envelope \<Rightarrow> proxy_decision" where
  "proxy_handle jeq p i =
     (if \<not> px_health p then DirectForward
      else case lfp_evaluate jeq (px_fast_path p) i of
             FPMatch c req \<Rightarrow> PD_FastPath c req | NoMatch \<Rightarrow> ForwardToAaf)"

section \<open>The in-process wrapper\<close>

datatype wrapper_error = WR_Unknown string | WR_PolicyDenied policy_decision | WR_CapabilityFailed string

type_synonym 'w capability_fn = "'w \<Rightarrow> json \<Rightarrow> 'w \<times> (json, string) result"

record 'w wrapper =
  wr_capabilities :: "string \<rightharpoonup> 'w capability_fn"
  wr_policy :: policy_engine

definition wrapper_new :: "policy_engine \<Rightarrow> 'w wrapper" where
  "wrapper_new e = \<lparr>wr_capabilities = Map.empty, wr_policy = e\<rparr>"

definition wrapper_register :: "'w wrapper \<Rightarrow> string \<Rightarrow> 'w capability_fn \<Rightarrow> 'w wrapper" where
  "wrapper_register wr n f = wr\<lparr>wr_capabilities := (wr_capabilities wr)(n \<mapsto> f)\<rparr>"

definition wrapper_intent :: "string \<Rightarrow> string \<Rightarrow> timestamp \<Rightarrow> string \<Rightarrow> intent_envelope" where
  "wrapper_intent fresh fresh_trace now name =
     \<lparr>int_id = fresh, int_type = TransactionalIntent,
      int_requester = \<lparr>rq_user_id = ''in-process'', rq_role = ''module'', rq_scopes = [''auto-approve''], rq_tenant = None\<rparr>,
      int_goal = name, int_domain = ''in-process'', int_constraints = [],
      int_budget = \<lparr>max_tokens = 0, max_cost_usd = Fin 0, max_latency_ms = 1000\<rparr>, int_deadline = None,
      int_risk_tier = RT_Read, int_approval_policy = ''none'', int_output_contract = None,
      int_trace_id = fresh_trace, int_depth = 0, int_created_at = now, int_entities_in_context = []\<rparr>"

definition wrapper_invoke ::
  "(json \<Rightarrow> string) \<Rightarrow> string \<Rightarrow> string \<Rightarrow> timestamp \<Rightarrow> 'w wrapper \<Rightarrow> 'w \<Rightarrow> string \<Rightarrow> json
   \<Rightarrow> 'w \<times> (json, wrapper_error) result" where
  "wrapper_invoke render fresh fresh_trace now wr w name payload =
     (case wr_capabilities wr name of
        None \<Rightarrow> (w, Err (WR_Unknown name))
      | Some f \<Rightarrow>
          let dec = input_guard_check (wr_policy wr) (wrapper_intent fresh fresh_trace now name) (render payload)
          in if \<not> is_allowed dec then (w, Err (WR_PolicyDenied dec))
             else let (w', r) = f w payload
                  in (w', case r of Inr v \<Rightarrow> Ok v | Inl e \<Rightarrow> Err (WR_CapabilityFailed e)))"

section \<open>Loopback transport\<close>

datatype transport_error = TE_Failure string | TE_Remote string

record transport_envelope =
  te_channel :: string
  te_body :: json

type_synonym loopback = "transport_envelope list"

definition loopback_send :: "loopback \<Rightarrow> transport_envelope \<Rightarrow> loopback \<times> (unit, transport_error) result" where
  "loopback_send l e = (l @ [e], Ok ())"

definition loopback_request ::
  "loopback \<Rightarrow> transport_envelope \<Rightarrow> loopback \<times> (transport_envelope, transport_error) result" where
  "loopback_request l e =
     (l @ [e], Ok \<lparr>te_channel = te_channel e, te_body = JObject [(''echo'', te_body e)]\<rparr>)"

section \<open>Renaming is invertible\<close>

lemma sorted_assoc_unique:
  fixes a b :: "('k::linorder \<times> 'v) list"
  assumes "sorted_wrt (<) (map fst a)" "sorted_wrt (<) (map fst b)" "map_of a = map_of b"
  shows "a = b"
proof -
  have da: "distinct (map fst a)" and db: "distinct (map fst b)" using assms(1,2) strict_sorted_iff by blast+
  have "fst ` set a = fst ` set b" by (metis assms(3) dom_map_of_conv_image_fst)
  then have keys: "map fst a = map fst b"
    using assms(1,2) by (intro strict_sorted_equal) auto
  have "map (\<lambda>k. (k, the (map_of c k))) (map fst c) = c" if "distinct (map fst c)" for c :: "('k \<times> 'v) list"
    unfolding map_map by (rule map_idI) (use that in \<open>auto simp: map_of_is_SomeI\<close>)
  from this[OF da] this[OF db] show ?thesis by (metis keys assms(3))
qed

lemma rename_entries_map:
  assumes "distinct (map (new_key m \<circ> fst) obj)"
  shows "sorted_wrt (<) (map fst (rename_entries m obj)) \<and>
    map_of (rename_entries m obj) = map_of (map (\<lambda>(k, v). (new_key m k, v)) obj)"
  using assms unfolding rename_entries_def
proof (induction obj rule: rev_induct)
  case (snoc kv obj)
  obtain k v where kv: "kv = (k, v)" by fastforce
  from snoc.prems kv have fresh: "new_key m k \<notin> fst ` set (map (\<lambda>(k, v). (new_key m k, v)) obj)"
    by (auto simp: image_iff)
  have app: "map_of (xs @ [(key, v)]) = (map_of xs)(key \<mapsto> v)" if "key \<notin> fst ` set xs" for xs :: "(string \<times> json) list" and key
    using that by (induction xs) (auto simp: fun_eq_iff)
  from snoc.IH snoc.prems show ?case
    by (simp add: kv sorted_btree_entry map_of_btree_entry app[OF fresh] del: map_of_append)
qed simp

lemma fold_upd_map_of:
  assumes "distinct (map f ms)"
  shows "fold (\<lambda>x m. m(f x \<mapsto> g x)) ms m0 = m0 ++ map_of (map (\<lambda>x. (f x, g x)) ms)"
  using assms
proof (induction ms arbitrary: m0)
  case (Cons x ms)
  then have "map_of (map (\<lambda>x. (f x, g x)) ms) (f x) = None" by (auto simp: map_of_eq_None_iff)
  with Cons show ?case by (auto simp: fun_eq_iff map_add_def split: option.splits)
qed simp

text \<open>Both directions of a one-to-one renaming, as maps.\<close>

lemma renaming_maps:
  assumes "distinct (map fst ms)" "distinct (map snd ms)"
  shows "fr_aaf_to_service (field_renaming_new e ms) = map_of ms"
    and "fr_service_to_aaf (field_renaming_new e ms) = map_of (map (\<lambda>(a, s). (s, a)) ms)"
proof -
  show "fr_aaf_to_service (field_renaming_new e ms) = map_of ms"
    using fold_upd_map_of[of fst ms snd Map.empty] assms(1) by (simp add: field_renaming_new_def case_prod_beta')
  show "fr_service_to_aaf (field_renaming_new e ms) = map_of (map (\<lambda>(a, s). (s, a)) ms)"
    using fold_upd_map_of[of snd ms fst Map.empty] assms(2) by (simp add: field_renaming_new_def case_prod_beta')
qed

lemma new_key_inverse:
  assumes "distinct (map fst ms)" "distinct (map snd ms)" "k \<notin> set (map fst ms) \<Longrightarrow> k \<notin> set (map snd ms)"
  shows "new_key (map_of (map (\<lambda>(a, s). (s, a)) ms)) (new_key (map_of ms) k) = k"
proof (cases "map_of ms k")
  case None
  then have "k \<notin> set (map snd ms)" using assms(3) by (simp add: map_of_eq_None_iff)
  then have "map_of (map (\<lambda>(a, s). (s, a)) ms) k = None" by (force simp: map_of_eq_None_iff)
  with None show ?thesis by (simp add: new_key_def)
next
  case (Some s)
  from map_of_SomeD[OF this] have "(s, k) \<in> set (map (\<lambda>(a, s). (s, a)) ms)" by auto
  moreover have "distinct (map fst (map (\<lambda>(a, s). (s, a)) ms))"
    using assms(2) by (simp add: comp_def case_prod_beta')
  ultimately have "map_of (map (\<lambda>(a, s). (s, a)) ms) s = Some k" by (rule map_of_is_SomeI[rotated])
  with Some show ?thesis by (simp add: new_key_def)
qed

section \<open>Properties\<close>

text \<open>C34. The anti-corruption layer loses nothing: for a one-to-one field mapping, translating an object to
  the service's vocabulary and back gives the same object, provided no field of the object that the
  mapping does not rename carries the name of a service field.\<close>

theorem acl_rename_roundtrip:
  assumes "distinct (map fst ms)" "distinct (map snd ms)" "sorted_wrt (<) (map fst obj)"
    and "\<forall>k \<in> set (map fst obj). k \<notin> set (map fst ms) \<longrightarrow> k \<notin> set (map snd ms)"
    and "r = acl_register reg (renaming_translator (field_renaming_new e ms))"
  shows "bind_result (acl_to_service r e (JObject obj)) (acl_to_aaf r e) = Ok (JObject obj)"
proof -
  let ?f = "new_key (map_of ms)" and ?g = "new_key (map_of (map (\<lambda>(a, s). (s, a)) ms))"
  have inv: "?g (?f k) = k" if "k \<in> fst ` set obj" for k
    by (rule new_key_inverse[OF assms(1,2)]) (use assms(4) that in auto)
  then have inj: "inj_on ?f (fst ` set obj)" by (rule inj_on_inverseI)
  have dobj: "distinct (map fst obj)" using assms(3) strict_sorted_iff by blast
  have d1: "distinct (map (?f \<circ> fst) obj)"
    using inj dobj by (simp add: distinct_map comp_inj_on)
  let ?mid = "rename_entries (map_of ms) obj"
  note mid = rename_entries_map[OF d1]
  have dmid: "distinct (map fst ?mid)" using mid strict_sorted_iff by blast
  have dren: "distinct (map fst (map (\<lambda>(k, v). (?f k, v)) obj))" using d1 by (simp add: comp_def case_prod_beta')
  have keys: "set ?mid = set (map (\<lambda>(k, v). (?f k, v)) obj)"
    using mid dmid dren by (metis map_of_inject_set)
  then have gf: "?g (fst x) \<in> fst ` set obj \<and> ?f (?g (fst x)) = fst x" if "x \<in> set ?mid" for x
    using that inv by (auto simp: image_iff) (metis fst_conv)+
  have d2: "distinct (map (?g \<circ> fst) ?mid)"
  proof -
    have "inj_on ?g (fst ` set ?mid)" by (rule inj_on_inverseI[of _ ?f]) (use gf in auto)
    with dmid show ?thesis by (simp add: distinct_map comp_inj_on)
  qed
  note fin = rename_entries_map[OF d2]
  have "map_of (map (\<lambda>(k, v). (?g k, v)) ?mid) = map_of obj"
  proof (subst map_of_inject_set)
    show "distinct (map fst (map (\<lambda>(k, v). (?g k, v)) ?mid))" using d2 by (simp add: comp_def case_prod_beta')
    show "distinct (map fst obj)" by (rule dobj)
    show "set (map (\<lambda>(k, v). (?g k, v)) ?mid) = set obj"
      using inv by (force simp: keys image_image case_prod_beta')
  qed
  with fin assms(3) have "rename_entries (map_of (map (\<lambda>(a, s). (s, a)) ms)) ?mid = obj"
    by (intro sorted_assoc_unique) simp_all
  moreover have "fr_entity (field_renaming_new e ms) = e" by (simp add: field_renaming_new_def)
  ultimately show ?thesis
    by (simp add: assms(5) acl_to_service_def acl_to_aaf_def acl_register_def store_insert_def update_conv'
        renaming_translator_def renaming_maps[OF assms(1,2)] rename_fields_def)
qed

theorem acl_rename_roundtrip_witness:
  "\<exists>r. bind_result (acl_to_service r ''Customer'' (JObject [(''name'', JString ''n''), (''segment'', JNull)]))
     (acl_to_aaf r ''Customer'') = Ok (JObject [(''name'', JString ''n''), (''segment'', JNull)])
   \<and> acl_to_service r ''Customer'' (JObject [(''name'', JString ''n'')]) = Ok (JObject [(''account_name'', JString ''n'')])"
proof -
  let ?r = "acl_register [] (renaming_translator (field_renaming_new ''Customer'' [(''name'', ''account_name'')]))"
  have "acl_to_service ?r ''Customer'' (JObject [(''name'', JString ''n'')]) = Ok (JObject [(''account_name'', JString ''n'')])"
    by (simp add: acl_to_service_def acl_register_def store_insert_def renaming_translator_def field_renaming_new_def
        rename_fields_def rename_entries_def new_key_def)
  then show ?thesis
    using acl_rename_roundtrip[of "[(''name'', ''account_name'')]" "[(''name'', JString ''n''), (''segment'', JNull)]" ?r "[]" "''Customer''"]
    by (intro exI[of _ ?r]) (simp add: less_list_code)
qed

text \<open>Publishing stops at the first capability the registry refuses; what came before is registered.\<close>

lemma publish_prefix:
  "publish g cs = (g', r) \<Longrightarrow>
     \<exists>pre post. cs = pre @ post \<and> (r = Ok () \<longrightarrow> post = []) \<and>
       (\<forall>c \<in> set pre. validate_capability c = Ok ()) \<and>
       (case r of Inl e \<Rightarrow> post \<noteq> [] \<and> validate_capability (hd post) \<noteq> Ok () | Inr _ \<Rightarrow> True)"
proof (induction cs arbitrary: g)
  case (Cons c cs)
  show ?case
  proof (cases "validate_capability c = Ok ()")
    case True
    with Cons.prems obtain g1 where "publish g1 cs = (g', r)"
      by (auto simp: registry_register_def split: sum.splits)
    from Cons.IH[OF this] obtain pre post where "cs = pre @ post" "r = Ok () \<longrightarrow> post = []"
      "\<forall>c \<in> set pre. validate_capability c = Ok ()"
      "case r of Inl e \<Rightarrow> post \<noteq> [] \<and> validate_capability (hd post) \<noteq> Ok () | Inr _ \<Rightarrow> True" by blast
    with True show ?thesis by (intro exI[of _ "c # pre"] exI[of _ post]) auto
  next
    case False
    with Cons.prems obtain e where "r = Err e" by (auto simp: registry_register_def split: sum.splits)
    with False show ?thesis by (intro exI[of _ "[]"] exI[of _ "c # cs"]) auto
  qed
qed auto

text \<open>The in-process wrapper runs a capability only behind its input guard: it changes the world or
  returns a capability's result only if the name is registered and the guard allows the rendered
  payload; a refusal leaves the world untouched and reports the guard's decision.\<close>

lemma wrapper_guards_every_call:
  "(case wrapper_invoke render i t now wr w name payload of (w', r) \<Rightarrow>
      (\<exists>f. wr_capabilities wr name = Some f
         \<and> is_allowed (input_guard_check (wr_policy wr) (wrapper_intent i t now name) (render payload))
         \<and> w' = fst (f w payload)
         \<and> r = (case snd (f w payload) of Inr v \<Rightarrow> Ok v | Inl e \<Rightarrow> Err (WR_CapabilityFailed e)))
      \<or> (w' = w \<and> (r = Err (WR_Unknown name) \<and> wr_capabilities wr name = None
           \<or> (\<exists>d. r = Err (WR_PolicyDenied d) \<and> \<not> is_allowed d
                \<and> d = input_guard_check (wr_policy wr) (wrapper_intent i t now name) (render payload)))))"
  by (auto simp: wrapper_invoke_def Let_def split: option.splits prod.splits)

end
