(* ===== verification/Learn.thy ===== *)
theory Learn
  imports Trace Planner
begin

text \<open>
  Learning from traces (\<open>aaf-learn\<close>): the four subscribers that see every observation offered by
  the trace recorder: the capability scorer, the escalation tuner, the fast-path miner and the
  router tuner. A hash set of sessions is the list of its elements; 32-bit floats round with
  \<open>to_f32\<close>.
\<close>

section \<open>Capability scorer\<close>

fun fadd32 :: "f32 \<Rightarrow> f32 \<Rightarrow> f32" where
  "fadd32 (Fin x) (Fin y) = to_f32 (x + y)"
| "fadd32 a b = fadd a b"

fun fabs :: "f64 \<Rightarrow> f64" where
  "fabs (Fin x) = Fin \<bar>x\<bar>"
| "fabs NInf = PInf"
| "fabs a = a"

record scorer_config =
  sco_success_delta :: f32
  sco_failure_delta :: f32

definition scorer_config_default :: scorer_config where
  "scorer_config_default = \<lparr>sco_success_delta = to_f32 (2 / 100), sco_failure_delta = to_f32 (5 / 100)\<rparr>"

definition f32_epsilon :: f32 where
  "f32_epsilon = Fin (1 / 2 ^ 23)"

record capability_scorer =
  scr_config :: scorer_config
  scr_scores :: "f32 hashmap"

definition scorer_new :: "scorer_config \<Rightarrow> capability_scorer" where
  "scorer_new c = \<lparr>scr_config = c, scr_scores = Map.empty\<rparr>"

definition score_for :: "capability_scorer \<Rightarrow> string \<Rightarrow> f32" where
  "score_for s agent = (case scr_scores s agent of Some v \<Rightarrow> v | None \<Rightarrow> Fin (1 / 2))"

definition scorer_delta :: "scorer_config \<Rightarrow> outcome_status \<Rightarrow> f32" where
  "scorer_delta c st =
     (case st of
        OS_Succeeded \<Rightarrow> sco_success_delta c
      | OS_Failed \<Rightarrow> fneg (sco_failure_delta c)
      | OS_RolledBack \<Rightarrow> fneg (sco_failure_delta c)
      | _ \<Rightarrow> Fin 0)"

definition scorer_on_observation :: "capability_scorer \<Rightarrow> observation \<Rightarrow> capability_scorer" where
  "scorer_on_observation s ob =
     (case ob_outcome_detail ob of
        None \<Rightarrow> s
      | Some oc \<Rightarrow>
          let delta = scorer_delta (scr_config s) (oc_status oc)
          in if flt (fabs delta) f32_epsilon then s
             else s\<lparr>scr_scores := (scr_scores s)(ob_agent ob \<mapsto>
                      fclamp (fadd32 (score_for s (ob_agent ob)) delta) (Fin 0) (Fin 1))\<rparr>)"

section \<open>Escalation tuner\<close>

record escalation_stats =
  est_total :: u64
  est_escalated :: u64
  est_escalated_then_succeeded :: u64

definition escalation_new :: escalation_stats where
  "escalation_new = \<lparr>est_total = 0, est_escalated = 0, est_escalated_then_succeeded = 0\<rparr>"

definition escalation_rate :: "escalation_stats \<Rightarrow> f64" where
  "escalation_rate s = (if est_total s = 0 then Fin 0
     else fdiv (f64_of_nat (unat (est_escalated s))) (f64_of_nat (unat (est_total s))))"

definition false_escalation_rate :: "escalation_stats \<Rightarrow> f64" where
  "false_escalation_rate s = (if est_escalated s = 0 then Fin 0
     else fdiv (f64_of_nat (unat (est_escalated_then_succeeded s))) (f64_of_nat (unat (est_escalated s))))"

definition tuner_on_observation :: "escalation_stats \<Rightarrow> observation \<Rightarrow> escalation_stats" where
  "tuner_on_observation s ob =
     (case ob_outcome_detail ob of
        None \<Rightarrow> s
      | Some oc \<Rightarrow>
          let s1 = s\<lparr>est_total := est_total s + 1\<rparr>
          in if oc_status oc = OS_Escalated then s1\<lparr>est_escalated := est_escalated s1 + 1\<rparr> else s1)"

section \<open>Fast-path miner\<close>

type_synonym pattern_key = "string \<times> string \<times> string list"

record pattern_evidence =
  pe_intent_ids :: "string list"
  pe_sessions :: "string list"

record miner_config =
  mc_threshold :: nat
  mc_min_distinct_sessions :: nat

definition miner_config_default :: miner_config where
  "miner_config_default = \<lparr>mc_threshold = 10, mc_min_distinct_sessions = 3\<rparr>"

record miner =
  mn_config :: miner_config
  mn_patterns :: "pattern_key \<rightharpoonup> pattern_evidence"
  mn_proposals :: "learned_rule list"

definition miner_new :: "miner_config \<Rightarrow> miner" where
  "miner_new c = \<lparr>mn_config = c, mn_patterns = Map.empty, mn_proposals = []\<rparr>"

definition miner_relevant :: "observation \<Rightarrow> bool" where
  "miner_relevant ob \<longleftrightarrow>
     (case ob_outcome_detail ob of Some oc \<Rightarrow> oc_status oc = OS_Succeeded | None \<Rightarrow> False)
     \<and> contains_str (ob_reasoning ob) ''Agent''"

definition miner_key :: "observation \<Rightarrow> pattern_key" where
  "miner_key ob = (''AgentAssisted'', ob_agent ob, [ob_node_id ob])"

definition evidence_at :: "miner \<Rightarrow> pattern_key \<Rightarrow> pattern_evidence" where
  "evidence_at m k = (case mn_patterns m k of Some e \<Rightarrow> e | None \<Rightarrow> \<lparr>pe_intent_ids = [], pe_sessions = []\<rparr>)"

definition miner_on_observation :: "timestamp \<Rightarrow> miner \<Rightarrow> observation \<Rightarrow> miner" where
  "miner_on_observation now m ob =
     (if \<not> miner_relevant ob then m
      else let k = miner_key ob; e0 = evidence_at m k;
               e = \<lparr>pe_intent_ids = pe_intent_ids e0 @ [ob_trace_id ob],
                    pe_sessions = List.insert (ob_trace_id ob) (pe_sessions e0)\<rparr>
           in if length (pe_intent_ids e) \<ge> mc_threshold (mn_config m)
                 \<and> length (pe_sessions e) \<ge> mc_min_distinct_sessions (mn_config m)
              then let rule_id = ''lr-fp-'' @ show_nat (length (pe_intent_ids e)) @ ''-'' @ show_nat (length (pe_sessions e));
                       lr = learned_propose now rule_id LS_Miner (pe_intent_ids e) (hd (pe_intent_ids e))
                   in m\<lparr>mn_proposals := mn_proposals m @ [lr],
                        mn_patterns := (mn_patterns m)(k \<mapsto> \<lparr>pe_intent_ids = [], pe_sessions = []\<rparr>)\<rparr>
              else m\<lparr>mn_patterns := (mn_patterns m)(k \<mapsto> e)\<rparr>)"

section \<open>Router tuner\<close>

record bucket_stats =
  bk_count :: u64
  bk_total_cost :: f64
  bk_successes :: u64

definition bucket_default :: bucket_stats where
  "bucket_default = \<lparr>bk_count = 0, bk_total_cost = Fin 0, bk_successes = 0\<rparr>"

definition bucket_success_rate :: "bucket_stats \<Rightarrow> f64" where
  "bucket_success_rate b = (if bk_count b = 0 then Fin 0
     else fdiv (f64_of_nat (unat (bk_successes b))) (f64_of_nat (unat (bk_count b))))"

definition bucket_avg_cost :: "bucket_stats \<Rightarrow> f64" where
  "bucket_avg_cost b = (if bk_count b = 0 then Fin 0 else fdiv (bk_total_cost b) (f64_of_nat (unat (bk_count b))))"

type_synonym router_tuner = "(string \<times> step_outcome) \<rightharpoonup> bucket_stats"

definition rtuner_on_observation :: "router_tuner \<Rightarrow> observation \<Rightarrow> router_tuner" where
  "rtuner_on_observation t ob =
     (case ob_outcome_detail ob of
        None \<Rightarrow> t
      | Some oc \<Rightarrow>
          let k = (ob_agent ob, ob_outcome ob);
              b = (case t k of Some b \<Rightarrow> b | None \<Rightarrow> bucket_default);
              b1 = b\<lparr>bk_count := bk_count b + 1, bk_total_cost := fadd (bk_total_cost b) (oc_cost_usd oc)\<rparr>
          in t(k \<mapsto> (if oc_status oc = OS_Succeeded then b1\<lparr>bk_successes := bk_successes b1 + 1\<rparr> else b1)))"

section \<open>What the miner proposes\<close>

definition mine :: "miner \<Rightarrow> (timestamp \<times> observation) list \<Rightarrow> miner" where
  "mine m obs = fold (\<lambda>(now, ob) m. miner_on_observation now m ob) obs m"

text \<open>The traces of the successful agent observations of one agent and node, one entry per observation, in
  order.\<close>

definition agent_success :: "observation \<Rightarrow> bool" where
  "agent_success ob \<longleftrightarrow> map_option oc_status (ob_outcome_detail ob) = Some OS_Succeeded
     \<and> contains_str (ob_reasoning ob) ''Agent''"

definition sightings :: "string \<Rightarrow> string \<Rightarrow> (timestamp \<times> observation) list \<Rightarrow> string list" where
  "sightings a n obs =
     map ob_trace_id (filter (\<lambda>ob. agent_success ob \<and> ob_agent ob = a \<and> ob_node_id ob = n) (map snd obs))"

definition mature :: "miner_config \<Rightarrow> string list \<Rightarrow> bool" where
  "mature c ts \<longleftrightarrow> mc_threshold c \<le> length ts \<and> mc_min_distinct_sessions c \<le> card (set ts)"

lemma miner_relevant_iff: "miner_relevant ob \<longleftrightarrow> agent_success ob"
  by (auto simp: miner_relevant_def agent_success_def split: option.splits)

lemma sightings_simps [simp]:
  "sightings a n [] = []"
  "sightings a n (obs @ [(now, ob)]) =
     (if agent_success ob \<and> ob_agent ob = a \<and> ob_node_id ob = n then sightings a n obs @ [ob_trace_id ob] else sightings a n obs)"
  by (simp_all add: sightings_def)

text \<open>The evidence of a rule is the run of sightings that ends with the observation that completed it.\<close>

definition evidenced :: "miner_config \<Rightarrow> (timestamp \<times> observation) list \<Rightarrow> learned_rule \<Rightarrow> bool" where
  "evidenced c obs r \<longleftrightarrow> lru_approval_state r = LA_Proposed
     \<and> (\<exists>upto rest a n older. obs = upto @ rest \<and> sightings a n upto = older @ lru_evidence r)
     \<and> lru_evidence r \<noteq> [] \<and> mature c (lru_evidence r) \<and> (butlast (lru_evidence r) = [] \<or> \<not> mature c (butlast (lru_evidence r)))"

lemma evidenced_more: "evidenced c obs r \<Longrightarrow> evidenced c (obs @ later) r"
  unfolding evidenced_def by (metis append.assoc)

definition collected :: "miner_config \<Rightarrow> string list \<Rightarrow> pattern_evidence \<Rightarrow> bool" where
  "collected c seen e \<longleftrightarrow> distinct (pe_sessions e) \<and> set (pe_sessions e) = set (pe_intent_ids e)
     \<and> (\<exists>older. seen = older @ pe_intent_ids e) \<and> (pe_intent_ids e = [] \<or> \<not> mature c (pe_intent_ids e))"

definition pending_count :: "miner \<Rightarrow> nat" where
  "pending_count m = (\<Sum>k \<in> dom (mn_patterns m). length (pe_intent_ids (evidence_at m k)))"

definition miner_inv :: "miner_config \<Rightarrow> (timestamp \<times> observation) list \<Rightarrow> miner \<Rightarrow> bool" where
  "miner_inv c obs m \<longleftrightarrow> mn_config m = c
     \<and> (\<forall>a n. collected c (sightings a n obs) (evidence_at m (''AgentAssisted'', a, [n])))
     \<and> (\<forall>r \<in> set (mn_proposals m). evidenced c obs r)
     \<and> finite (dom (mn_patterns m))
     \<and> sum_list (map (length \<circ> lru_evidence) (mn_proposals m))
         + pending_count m = length (filter agent_success (map snd obs))"

lemma pending_count_upd:
  assumes "finite (dom (mn_patterns m))" "mn_patterns m' = (mn_patterns m)(j \<mapsto> e)"
  shows "pending_count m' + length (pe_intent_ids (evidence_at m j)) = pending_count m + length (pe_intent_ids e)"
proof -
  let ?g = "\<lambda>m k. length (pe_intent_ids (evidence_at m k))" and ?D = "dom (mn_patterns m)"
  have "sum (?g m') (?D - {j}) = sum (?g m) (?D - {j})"
    using assms(2) by (intro sum.cong) (auto simp: evidence_at_def)
  moreover have "pending_count m = ?g m j + sum (?g m) (?D - {j})"
    using assms(1) sum.remove[of ?D j "?g m"] by (cases "j \<in> ?D") (auto simp: pending_count_def evidence_at_def domIff)
  moreover have "pending_count m' = length (pe_intent_ids e) + sum (?g m') (?D - {j})"
    using assms by (simp add: pending_count_def sum.insert_remove) (simp add: evidence_at_def)
  ultimately show ?thesis by simp
qed

lemma miner_step_inv:
  assumes "miner_inv c obs m"
  shows "miner_inv c (obs @ [(now, ob)]) (miner_on_observation now m ob)"
proof (cases "agent_success ob")
  case False
  then have "sightings a n (obs @ [(now, ob)]) = sightings a n obs" for a n by simp
  with False assms evidenced_more[of c obs _ "[(now, ob)]"] show ?thesis
    by (auto simp: miner_inv_def miner_on_observation_def miner_relevant_iff)
next
  case True
  let ?k = "miner_key ob" and ?t = "ob_trace_id ob"
  let ?prev = "evidence_at m ?k"
  let ?e = "\<lparr>pe_intent_ids = pe_intent_ids ?prev @ [?t], pe_sessions = List.insert ?t (pe_sessions ?prev)\<rparr>"
  let ?none = "\<lparr>pe_intent_ids = [], pe_sessions = []\<rparr> :: pattern_evidence"
  let ?seen = "sightings (ob_agent ob) (ob_node_id ob)"
  note inv = assms[unfolded miner_inv_def]
  have e0: "collected c (?seen obs) ?prev" using inv by (simp add: miner_key_def)
  then obtain older where older: "?seen obs = older @ pe_intent_ids ?prev" by (auto simp: collected_def)
  have ses: "distinct (pe_sessions ?e)" "set (pe_sessions ?e) = set (pe_intent_ids ?e)" using e0 by (auto simp: collected_def)
  then have "length (pe_sessions ?e) = card (set (pe_intent_ids ?e))" by (metis distinct_card)
  then have guard: "length (pe_intent_ids ?e) \<ge> mc_threshold (mn_config m) \<and> length (pe_sessions ?e) \<ge> mc_min_distinct_sessions (mn_config m)
      \<longleftrightarrow> mature c (pe_intent_ids ?e)" using inv by (simp add: mature_def)
  have seen: "sightings a n (obs @ [(now, ob)]) =
      (if (''AgentAssisted'', a, [n]) = ?k then older @ pe_intent_ids ?e else sightings a n obs)" for a n
    using True older by (auto simp: miner_key_def)
  have ev: "evidence_at (m\<lparr>mn_proposals := ps, mn_patterns := (mn_patterns m)(?k \<mapsto> e)\<rparr>) k = (if k = ?k then e else evidence_at m k)"
    "evidence_at (m\<lparr>mn_patterns := (mn_patterns m)(?k \<mapsto> e)\<rparr>) k = (if k = ?k then e else evidence_at m k)" for k e ps
    by (simp_all add: evidence_at_def)
  have fin: "finite (dom (mn_patterns m))" using inv by blast
  have more: "evidenced c (obs @ [(now, ob)]) r" if "r \<in> set (mn_proposals m)" for r
    using inv that by (blast intro: evidenced_more)
  have old: "collected c (sightings a n obs) (evidence_at m (''AgentAssisted'', a, [n]))" for a n using inv by blast
  show ?thesis
  proof (cases "mature c (pe_intent_ids ?e)")
    case mat: True
    define lr where "lr = learned_propose now (''lr-fp-'' @ show_nat (length (pe_intent_ids ?e)) @ ''-'' @ show_nat (length (pe_sessions ?e)))
      LS_Miner (pe_intent_ids ?e) (hd (pe_intent_ids ?e))"
    have m': "miner_on_observation now m ob = m\<lparr>mn_proposals := mn_proposals m @ [lr], mn_patterns := (mn_patterns m)(?k \<mapsto> ?none)\<rparr>"
      using True mat guard by (simp add: miner_on_observation_def miner_relevant_iff lr_def Let_def)
    have "?seen (obs @ [(now, ob)]) = older @ lru_evidence lr" using older True by (simp add: lr_def learned_propose_def)
    then have "\<exists>upto rest a n older. obs @ [(now, ob)] = upto @ rest \<and> sightings a n upto = older @ lru_evidence lr"
      by (metis append_Nil2)
    moreover have "lru_evidence lr = pe_intent_ids ?prev @ [?t]" by (simp add: lr_def learned_propose_def)
    ultimately have "evidenced c (obs @ [(now, ob)]) lr"
      using mat e0 by (auto simp: evidenced_def collected_def lr_def learned_propose_def)
    moreover have "collected c (sightings a n (obs @ [(now, ob)])) (if (''AgentAssisted'', a, [n]) = ?k then ?none
        else evidence_at m (''AgentAssisted'', a, [n]))" for a n
      using old[of a n] unfolding seen by (auto simp: collected_def)
    moreover have "length (lru_evidence lr) = Suc (length (pe_intent_ids ?prev))" by (simp add: lr_def learned_propose_def)
    ultimately show ?thesis
      using inv more True pending_count_upd[OF fin, of "miner_on_observation now m ob" ?k ?none] unfolding m' miner_inv_def ev by auto
  next
    case im: False
    have m': "miner_on_observation now m ob = m\<lparr>mn_patterns := (mn_patterns m)(?k \<mapsto> ?e)\<rparr>"
      using True im guard by (auto simp: miner_on_observation_def miner_relevant_iff Let_def)
    have "collected c (sightings a n (obs @ [(now, ob)])) (if (''AgentAssisted'', a, [n]) = ?k then ?e
        else evidence_at m (''AgentAssisted'', a, [n]))" for a n
      using old[of a n] ses im unfolding seen by (auto simp: collected_def)
    then show ?thesis
      using inv more True pending_count_upd[OF fin, of "miner_on_observation now m ob" ?k ?e] unfolding m' miner_inv_def ev by auto
  qed
qed

lemma mine_inv: "miner_inv c obs (mine (miner_new c) obs)"
proof (induction obs rule: rev_induct)
  case Nil
  show ?case by (simp add: mine_def miner_inv_def miner_new_def evidence_at_def collected_def pending_count_def)
next
  case (snoc p obs)
  then show ?case using miner_step_inv[of c obs "mine (miner_new c) obs" "fst p" "snd p"] by (simp add: mine_def case_prod_beta)
qed

section \<open>Scores stay in range\<close>

definition unit_score :: "f32 \<Rightarrow> bool" where
  "unit_score s \<longleftrightarrow> (\<exists>x. s = Fin x \<and> 0 \<le> x \<and> x \<le> 1)"

lemma clamp_unit_score: "a \<noteq> NaN \<Longrightarrow> unit_score (fclamp a (Fin 0) (Fin 1))"
  unfolding unit_score_def by (rule fclamp_unit)

lemma to_f32_not_NaN: "to_f32 x \<noteq> NaN"
  by (simp add: to_f32_def pack_def Let_def)

lemma scorer_step_unit:
  assumes "is_finite_f (sco_success_delta (scr_config s))" "is_finite_f (sco_failure_delta (scr_config s))"
    and "\<forall>a. unit_score (score_for s a)"
  shows "\<forall>a. unit_score (score_for (scorer_on_observation s ob) a)"
proof -
  have "\<exists>y. scorer_delta (scr_config s) st = Fin y" for st
    using assms(1,2) by (cases st) (auto simp: scorer_delta_def is_finite_f_def split: f64.splits)
  then have "fadd32 (score_for s a) (scorer_delta (scr_config s) st) \<noteq> NaN" for a st
    using assms(3) to_f32_not_NaN by (metis fadd32.simps(1) unit_score_def)
  then have clamp: "unit_score (fclamp (fadd32 (score_for s a) (scorer_delta (scr_config s) st)) (Fin 0) (Fin 1))" for a st
    by (rule clamp_unit_score)
  show ?thesis
  proof (cases "ob_outcome_detail ob")
    case (Some oc)
    with clamp assms(3) show ?thesis by (auto simp: scorer_on_observation_def Let_def score_for_def)
  qed (use assms(3) in \<open>simp add: scorer_on_observation_def\<close>)
qed

text \<open>The false-escalation statistic is never fed: no observation increments its counter.\<close>

lemma false_escalations_never_counted:
  "est_escalated_then_succeeded (fold (\<lambda>ob s. tuner_on_observation s ob) obs escalation_new) = 0"
proof -
  have "est_escalated_then_succeeded (fold (\<lambda>ob s. tuner_on_observation s ob) obs s) = est_escalated_then_succeeded s" for s
    by (induction obs arbitrary: s) (simp_all add: tuner_on_observation_def Let_def split: option.splits)
  then show ?thesis by (simp add: escalation_new_def)
qed

section \<open>Properties\<close>

text \<open>C33. Learning proposes and never activates (Rule 18). Whatever observations the miner sees, every rule it
  proposes is in the state "proposed" and not live. Its evidence lists the traces of successful agent observations of one
  agent at one node, one entry for each observation, in order and without a gap, up to some moment of the history; they are at
  least the configured number of observations, from at least the configured number of distinct traces, and before
  the last of them one of the two numbers was not reached. No observation is evidence twice: all rules together
  list no more entries than there were successful agent observations.\<close>

theorem miner_proposals_evidenced:
  "(\<forall>r \<in> set (mn_proposals (mine (miner_new c) obs)). lru_approval_state r = LA_Proposed \<and> \<not> is_live r
     \<and> (\<exists>upto rest a n older. obs = upto @ rest \<and> sightings a n upto = older @ lru_evidence r)
     \<and> mc_threshold c \<le> length (lru_evidence r) \<and> mc_min_distinct_sessions c \<le> card (set (lru_evidence r))
     \<and> lru_evidence r \<noteq> []
     \<and> (butlast (lru_evidence r) \<noteq> [] \<longrightarrow> length (butlast (lru_evidence r)) < mc_threshold c
          \<or> card (set (butlast (lru_evidence r))) < mc_min_distinct_sessions c))
   \<and> sum_list (map (length \<circ> lru_evidence) (mn_proposals (mine (miner_new c) obs))) \<le> length (filter agent_success (map snd obs))"
proof
  note inv = mine_inv[of c obs, unfolded miner_inv_def]
  show "\<forall>r \<in> set (mn_proposals (mine (miner_new c) obs)). lru_approval_state r = LA_Proposed \<and> \<not> is_live r
     \<and> (\<exists>upto rest a n older. obs = upto @ rest \<and> sightings a n upto = older @ lru_evidence r)
     \<and> mc_threshold c \<le> length (lru_evidence r) \<and> mc_min_distinct_sessions c \<le> card (set (lru_evidence r))
     \<and> lru_evidence r \<noteq> []
     \<and> (butlast (lru_evidence r) \<noteq> [] \<longrightarrow> length (butlast (lru_evidence r)) < mc_threshold c
          \<or> card (set (butlast (lru_evidence r))) < mc_min_distinct_sessions c)"
  proof
    fix r assume "r \<in> set (mn_proposals (mine (miner_new c) obs))"
    then have "evidenced c obs r" using inv by blast
    then show "lru_approval_state r = LA_Proposed \<and> \<not> is_live r
     \<and> (\<exists>upto rest a n older. obs = upto @ rest \<and> sightings a n upto = older @ lru_evidence r)
     \<and> mc_threshold c \<le> length (lru_evidence r) \<and> mc_min_distinct_sessions c \<le> card (set (lru_evidence r))
     \<and> lru_evidence r \<noteq> []
     \<and> (butlast (lru_evidence r) \<noteq> [] \<longrightarrow> length (butlast (lru_evidence r)) < mc_threshold c
          \<or> card (set (butlast (lru_evidence r))) < mc_min_distinct_sessions c)"
      unfolding evidenced_def mature_def by (auto simp: is_live_def)
  qed
  show "sum_list (map (length \<circ> lru_evidence) (mn_proposals (mine (miner_new c) obs))) \<le> length (filter agent_success (map snd obs))"
    using inv by linarith
qed

definition ex_learn_observation :: "string \<Rightarrow> string \<Rightarrow> observation" where
  "ex_learn_observation tr ag = attach_outcome ((observation_minimal 0 tr ''n'' 1 ag SO_Success)\<lparr>ob_reasoning := ''Agent step''\<rparr>)
     (outcome_minimal OS_Succeeded 0 0 (Fin 0))"

definition ex_miner_config :: miner_config where
  "ex_miner_config = \<lparr>mc_threshold = 2, mc_min_distinct_sessions = 2\<rparr>"

lemma ex_mine:
  "map lru_id (mn_proposals (mine (miner_new ex_miner_config)
     [(0, ex_learn_observation ''t1'' ''a''), (0, ex_learn_observation ''t2'' ''a''),
      (0, ex_learn_observation ''t1'' ''b''), (0, ex_learn_observation ''t2'' ''b'')])) = [''lr-fp-2-2'', ''lr-fp-2-2'']"
  by code_simp

theorem miner_proposals_evidenced_witness:
  "\<exists>r \<in> set (mn_proposals (mine (miner_new ex_miner_config)
     [(0, ex_learn_observation ''t1'' ''a''), (0, ex_learn_observation ''t2'' ''a''),
      (0, ex_learn_observation ''t1'' ''b''), (0, ex_learn_observation ''t2'' ''b'')])). \<not> is_live r \<and> 2 \<le> card (set (lru_evidence r))"
proof -
  let ?obs = "[(0, ex_learn_observation ''t1'' ''a''), (0, ex_learn_observation ''t2'' ''a''),
      (0, ex_learn_observation ''t1'' ''b''), (0, ex_learn_observation ''t2'' ''b'')]"
  obtain r where r: "r \<in> set (mn_proposals (mine (miner_new ex_miner_config) ?obs))"
    using ex_mine by (metis list.set_intros(1) list.simps(8) neq_Nil_conv list.distinct(1))
  with miner_proposals_evidenced[of ex_miner_config ?obs] have "\<not> is_live r" "2 \<le> card (set (lru_evidence r))"
    by (auto simp: ex_miner_config_def)
  with r show ?thesis by blast
qed

end
