(* ===== verification/Eval.thy ===== *)
theory Eval
  imports Learn
begin

text \<open>
  Evaluation (\<open>aaf-eval\<close>): the deterministic judge, golden suites, the regression report and the
  trace replayer. The provider under test is a function from intent text to answer; a judge is a
  function from expected and actual text to a verdict. YAML parsing is not modelled.
\<close>

section \<open>Judge\<close>

record judge_verdict =
  jv_score :: f64
  jv_reasoning :: string
  jv_judge_model :: string

definition is_alphanumeric :: "char \<Rightarrow> bool" where
  "is_alphanumeric ch \<longleftrightarrow> (CHR ''a'' \<le> ch \<and> ch \<le> CHR ''z'') \<or> (CHR ''A'' \<le> ch \<and> ch \<le> CHR ''Z'') \<or> is_digit ch"

fun split_pred_aux :: "(char \<Rightarrow> bool) \<Rightarrow> string \<Rightarrow> string \<Rightarrow> string list" where
  "split_pred_aux p [] acc = [rev acc]"
| "split_pred_aux p (c # cs) acc = (if p c then rev acc # split_pred_aux p cs [] else split_pred_aux p cs (c # acc))"

definition judge_tokens :: "string \<Rightarrow> string list" where
  "judge_tokens s =
     remdups (map to_lowercase (filter (\<lambda>t. t \<noteq> []) (split_pred_aux (\<lambda>c. \<not> is_alphanumeric c) s [])))"

definition deterministic_judge :: "string \<Rightarrow> string \<Rightarrow> string \<Rightarrow> judge_verdict" where
  "deterministic_judge label expected actual =
     (let e = judge_tokens expected; a = judge_tokens actual;
          score = (if e = [] \<and> a = [] then Fin 1
                   else let inter = f64_of_nat (length (filter (\<lambda>t. t \<in> set a) e));
                            uni = f64_of_nat (length (remdups (e @ a)))
                        in if feq uni (Fin 0) then Fin 0 else fdiv inter uni)
      in \<lparr>jv_score = score,
          jv_reasoning = ''jaccard over '' @ show_nat (length e) @ '' expected / '' @ show_nat (length a) @ '' actual tokens'',
          jv_judge_model = label\<rparr>)"

section \<open>Golden suites\<close>

record golden_case =
  gc_id :: string
  gc_intent :: string
  gc_expected :: string
  gc_min_score :: "f64 option"

record golden_suite =
  gs_name :: string
  gs_threshold :: f64
  gs_cases :: "golden_case list"

record case_result =
  cre_case_id :: string
  cre_verdict :: judge_verdict
  cre_passed :: bool

record suite_result =
  sr_suite :: string
  sr_total :: nat
  sr_passed :: nat
  sr_mean_score :: f64
  sr_cases :: "case_result list"

definition all_passed :: "suite_result \<Rightarrow> bool" where
  "all_passed r \<longleftrightarrow> sr_passed r = sr_total r"

datatype golden_error = GoldenYaml string | GoldenEmpty

text \<open>\<open>GoldenSuite::from_yaml\<close>; the YAML parser is a parameter, its error carries a message.\<close>

definition golden_from_yaml ::
  "(string \<Rightarrow> (golden_suite, string) result) \<Rightarrow> string \<Rightarrow> (golden_suite, golden_error) result" where
  "golden_from_yaml parse yaml =
     (case parse yaml of
        Inl e \<Rightarrow> Err (GoldenYaml e)
      | Inr s \<Rightarrow> if gs_cases s = [] then Err GoldenEmpty else Ok s)"

fun golden_loop ::
  "f64 \<Rightarrow> (string \<Rightarrow> string) \<Rightarrow> (string \<Rightarrow> string \<Rightarrow> judge_verdict) \<Rightarrow> golden_case list \<Rightarrow> f64 \<Rightarrow> nat \<Rightarrow> case_result list
   \<Rightarrow> f64 \<times> nat \<times> case_result list" where
  "golden_loop th provider judge [] sumsc passed out = (sumsc, passed, out)"
| "golden_loop th provider judge (c # cs) sumsc passed out =
     (let verdict = judge (gc_expected c) (provider (gc_intent c));
          threshold = (case gc_min_score c of Some m \<Rightarrow> m | None \<Rightarrow> th);
          ok = fle threshold (jv_score verdict)
      in golden_loop th provider judge cs (fadd sumsc (jv_score verdict)) (if ok then passed + 1 else passed)
           (out @ [\<lparr>cre_case_id = gc_id c, cre_verdict = verdict, cre_passed = ok\<rparr>]))"

definition golden_run :: "golden_suite \<Rightarrow> (string \<Rightarrow> string) \<Rightarrow> (string \<Rightarrow> string \<Rightarrow> judge_verdict) \<Rightarrow> suite_result" where
  "golden_run s provider judge =
     (case golden_loop (gs_threshold s) provider judge (gs_cases s) (Fin 0) 0 [] of (sumsc, passed, cases) \<Rightarrow>
        \<lparr>sr_suite = gs_name s, sr_total = length (gs_cases s), sr_passed = passed,
         sr_mean_score = (if cases = [] then Fin 0 else fdiv sumsc (f64_of_nat (length cases))), sr_cases = cases\<rparr>)"

section \<open>Regression report\<close>

record regression_delta =
  rgd_case_id :: string
  rgd_baseline_score :: f64
  rgd_candidate_score :: f64
  rgd_delta :: f64

record regression_report =
  rep_baseline :: string
  rep_candidate :: string
  rep_mean_delta :: f64
  rep_regressions :: u32
  rep_improvements :: u32
  rep_per_case :: "regression_delta list"

text \<open>A hash map collected from the cases keeps the last score of each case; the report sorts by case,
  so the iteration order of the map is immaterial and the model iterates it in key order.\<close>

definition scores_by_case :: "suite_result \<Rightarrow> (string \<times> f64) list" where
  "scores_by_case r =
     fold (\<lambda>c. btree_entry (cre_case_id c) (jv_score (cre_verdict c)) (\<lambda>_. jv_score (cre_verdict c))) (sr_cases r) []"

definition regression_eps :: f64 where
  "regression_eps = to_f64 (1 / 10 ^ 9)"

fun regression_loop ::
  "(string \<rightharpoonup> f64) \<Rightarrow> (string \<times> f64) list \<Rightarrow> u32 \<Rightarrow> u32 \<Rightarrow> regression_delta list \<Rightarrow> u32 \<times> u32 \<times> regression_delta list" where
  "regression_loop cand [] rg im out = (rg, im, out)"
| "regression_loop cand ((i, base) # bs) rg im out =
     (case cand i of
        Some cs \<Rightarrow>
          let delta = fsub cs base;
              rg' = (if flt delta (fneg regression_eps) then rg + 1 else rg);
              im' = (if \<not> flt delta (fneg regression_eps) \<and> flt regression_eps delta then im + 1 else im)
          in regression_loop cand bs rg' im'
               (out @ [\<lparr>rgd_case_id = i, rgd_baseline_score = base, rgd_candidate_score = cs, rgd_delta = delta\<rparr>])
      | None \<Rightarrow> regression_loop cand bs (rg + 1) im out)"

definition regression_build :: "suite_result \<Rightarrow> suite_result \<Rightarrow> regression_report" where
  "regression_build b c =
     (case regression_loop (map_of (scores_by_case c)) (scores_by_case b) 0 0 [] of (rg, im, out) \<Rightarrow>
        \<lparr>rep_baseline = sr_suite b, rep_candidate = sr_suite c, rep_mean_delta = fsub (sr_mean_score c) (sr_mean_score b),
         rep_regressions = rg, rep_improvements = im,
         rep_per_case = stable_sort_by (\<lambda>x y. rgd_case_id x \<le> rgd_case_id y) out\<rparr>)"

definition has_regression :: "regression_report \<Rightarrow> bool" where
  "has_regression r \<longleftrightarrow> rep_regressions r > 0"

section \<open>Report documents\<close>

record report_document =
  rd_suite :: suite_result
  rd_regression :: "regression_report option"

text \<open>\<open>ReportWriter::to_json\<close>; the pretty printer is a parameter, its error carries a message.\<close>

definition report_to_json :: "(report_document \<Rightarrow> (string, string) result) \<Rightarrow> report_document \<Rightarrow> string" where
  "report_to_json to_string_pretty doc =
     (case to_string_pretty doc of Inr s \<Rightarrow> s | Inl e \<Rightarrow> ''{'' @ [CHR 0x22] @ ''error'' @ [CHR 0x22, CHR 0x3A, CHR 0x22] @ e @ [CHR 0x22] @ ''}'')"

section \<open>Replayer\<close>

datatype divergence =
    StepMissing u32 string
  | StepTypeChanged u32 string string
  | CostDrift u32 f64 f64
  | LatencyDrift u32 u64 u64
  | StatusChanged trace_status trace_status

record replayer =
  rp_cost_tolerance_usd :: f64
  rp_latency_tolerance_ms :: u64

definition replayer_default :: replayer where
  "replayer_default = \<lparr>rp_cost_tolerance_usd = to_f64 (5 / 10000), rp_latency_tolerance_ms = 50\<rparr>"

definition abs_diff :: "u64 \<Rightarrow> u64 \<Rightarrow> u64" where
  "abs_diff a b = (if a < b then b - a else a - b)"

definition compare_step :: "replayer \<Rightarrow> trace_step \<Rightarrow> trace_step \<Rightarrow> divergence list" where
  "compare_step r b c =
     (if tst_step_type b \<noteq> tst_step_type c then [StepTypeChanged (tst_step b) (tst_step_type b) (tst_step_type c)] else []) @
     (if flt (rp_cost_tolerance_usd r) (fabs (fsub (tst_cost_usd b) (tst_cost_usd c)))
      then [CostDrift (tst_step b) (tst_cost_usd b) (tst_cost_usd c)] else []) @
     (if abs_diff (tst_duration_ms b) (tst_duration_ms c) > rp_latency_tolerance_ms r
      then [LatencyDrift (tst_step b) (tst_duration_ms b) (tst_duration_ms c)] else [])"

fun diverges_steps :: "replayer \<Rightarrow> trace_step list \<Rightarrow> trace_step list \<Rightarrow> divergence list" where
  "diverges_steps r (b # bs) (c # cs) = compare_step r b c @ diverges_steps r bs cs"
| "diverges_steps r (b # bs) [] = StepMissing (tst_step b) ''candidate'' # diverges_steps r bs []"
| "diverges_steps r [] (c # cs) = StepMissing (tst_step c) ''baseline'' # diverges_steps r [] cs"
| "diverges_steps r [] [] = []"

definition diverges :: "replayer \<Rightarrow> execution_trace \<Rightarrow> execution_trace \<Rightarrow> divergence list" where
  "diverges r b c =
     (if tr_status b \<noteq> tr_status c then [StatusChanged (tr_status b) (tr_status c)] else []) @
     diverges_steps r (tr_steps b) (tr_steps c)"

section \<open>What the replayer and the report detect\<close>

definition step_agrees :: "replayer \<Rightarrow> trace_step \<Rightarrow> trace_step \<Rightarrow> bool" where
  "step_agrees r b c \<longleftrightarrow> tst_step_type b = tst_step_type c
     \<and> \<not> flt (rp_cost_tolerance_usd r) (fabs (fsub (tst_cost_usd b) (tst_cost_usd c)))
     \<and> \<bar>uint (tst_duration_ms b) - uint (tst_duration_ms c)\<bar> \<le> uint (rp_latency_tolerance_ms r)"

lemma uint_abs_diff: "uint (abs_diff a b) = \<bar>uint a - uint b\<bar>"
  by (auto simp: abs_diff_def word_less_alt uint_sub_if')

lemma compare_step_Nil: "compare_step r b c = [] \<longleftrightarrow> step_agrees r b c"
  by (simp add: compare_step_def step_agrees_def word_less_alt uint_abs_diff not_less)

lemma diverges_steps_Nil: "diverges_steps r bs cs = [] \<longleftrightarrow> list_all2 (step_agrees r) bs cs"
  by (induction r bs cs rule: diverges_steps.induct) (simp_all add: compare_step_Nil)

text \<open>How one baseline case counts.\<close>

definition regressed :: "(string \<rightharpoonup> f64) \<Rightarrow> string \<times> f64 \<Rightarrow> bool" where
  "regressed cand b \<longleftrightarrow> (case cand (fst b) of None \<Rightarrow> True | Some s \<Rightarrow> flt (fsub s (snd b)) (fneg regression_eps))"

definition improved :: "(string \<rightharpoonup> f64) \<Rightarrow> string \<times> f64 \<Rightarrow> bool" where
  "improved cand b \<longleftrightarrow> (case cand (fst b) of None \<Rightarrow> False
     | Some s \<Rightarrow> \<not> flt (fsub s (snd b)) (fneg regression_eps) \<and> flt regression_eps (fsub s (snd b)))"

lemma regression_loop_counts:
  "regression_loop cand bs rg im out = (rg', im', out') \<Longrightarrow>
     rg' = rg + of_nat (length (filter (regressed cand) bs)) \<and> im' = im + of_nat (length (filter (improved cand) bs))
     \<and> map rgd_case_id out' = map rgd_case_id out @ filter (\<lambda>i. cand i \<noteq> None) (map fst bs)"
proof (induction bs arbitrary: rg im out)
  case (Cons b bs)
  obtain i s where b: "b = (i, s)" by fastforce
  show ?case
  proof (cases "cand i")
    case None
    with Cons.prems b have "regression_loop cand bs (rg + 1) im out = (rg', im', out')" by simp
    from Cons.IH[OF this] None b show ?thesis by (simp add: regressed_def improved_def)
  next
    case (Some t)
    from Cons.prems[unfolded b regression_loop.simps Some option.case Let_def] have
      "regression_loop cand bs (if flt (fsub t s) (fneg regression_eps) then rg + 1 else rg)
        (if \<not> flt (fsub t s) (fneg regression_eps) \<and> flt regression_eps (fsub t s) then im + 1 else im)
        (out @ [\<lparr>rgd_case_id = i, rgd_baseline_score = s, rgd_candidate_score = t, rgd_delta = fsub t s\<rparr>]) = (rg', im', out')" .
    from Cons.IH[OF this] Some b show ?thesis by (auto simp: regressed_def improved_def algebra_simps)
  qed
qed simp

lemma golden_loop_counts:
  "golden_loop th provider judge cs acc passed out = (acc', passed', out') \<Longrightarrow>
     passed' + length (filter cre_passed out) = passed + length (filter cre_passed out') \<and>
     map cre_case_id out' = map cre_case_id out @ map gc_id cs"
  by (induction th provider judge cs acc passed out rule: golden_loop.induct) (auto simp: Let_def split: if_splits)

section \<open>Properties\<close>

text \<open>The replayer reports no divergence exactly for runs that agree: the same final status, the same
  number of steps, and step by step the same type, a cost within the tolerance and a duration within
  the tolerance, whichever of the two is larger. In particular a trace with finite costs never
  diverges from itself under a tolerance that is not negative.\<close>

theorem replayer_exact:
  "(diverges r b c = [] \<longleftrightarrow> tr_status b = tr_status c \<and> list_all2 (step_agrees r) (tr_steps b) (tr_steps c))
   \<and> (\<not> flt (rp_cost_tolerance_usd r) (Fin 0) \<and> (\<forall>s \<in> set (tr_steps b). is_finite_f (tst_cost_usd s)) \<longrightarrow> diverges r b b = [])"
proof (intro conjI impI)
  have exact: "diverges r b c = [] \<longleftrightarrow> tr_status b = tr_status c \<and> list_all2 (step_agrees r) (tr_steps b) (tr_steps c)" for c
    by (simp add: diverges_def diverges_steps_Nil)
  then show "diverges r b c = [] \<longleftrightarrow> tr_status b = tr_status c \<and> list_all2 (step_agrees r) (tr_steps b) (tr_steps c)" .
  assume tol: "\<not> flt (rp_cost_tolerance_usd r) (Fin 0) \<and> (\<forall>s \<in> set (tr_steps b). is_finite_f (tst_cost_usd s))"
  have "step_agrees r s s" if "s \<in> set (tr_steps b)" for s
  proof -
    from tol that obtain x where "tst_cost_usd s = Fin x" by (cases "tst_cost_usd s") (auto simp: is_finite_f_def)
    then have "fabs (fsub (tst_cost_usd s) (tst_cost_usd s)) = Fin 0" by (simp add: fsub_def to_f64_def pack_def round_to_def)
    with tol show ?thesis by (simp add: step_agrees_def)
  qed
  then show "diverges r b b = []" unfolding exact by (simp add: list_all2_same)
qed

text \<open>The regression report counts every baseline case once: as a regression when the candidate has no
  result for it or scores lower by more than the epsilon, as an improvement when it scores higher by
  more than the epsilon; its table lists exactly the cases both runs have. Cases only the candidate
  has count nowhere.\<close>

theorem regression_report_exact:
  "let b = scores_by_case base; c = map_of (scores_by_case cand); r = regression_build base cand
   in rep_regressions r = of_nat (length (filter (regressed c) b))
    \<and> rep_improvements r = of_nat (length (filter (improved c) b))
    \<and> mset (map rgd_case_id (rep_per_case r)) = mset (filter (\<lambda>i. c i \<noteq> None) (map fst b))"
proof -
  obtain rg im out where l: "regression_loop (map_of (scores_by_case cand)) (scores_by_case base) 0 0 [] = (rg, im, out)"
    by (metis prod_cases3)
  have "mset (map rgd_case_id (stable_sort_by le out)) = mset (map rgd_case_id out)" for le by simp
  with regression_loop_counts[OF l] show ?thesis
    by (simp add: regression_build_def l Let_def del: mset_map mset_filter)
qed

end
