(* ===== verification/Anthropic.thy ===== *)
theory Anthropic
  imports LLM
begin

text \<open>
  The Anthropic provider (\<open>aaf-llm/src/anthropic.rs\<close>): the request body, the response parser and the
  retry loop. The HTTP sender, the clock and the timer act on an open world; \<open>to_string\<close> is the
  JSON printer. A message whose role demands a block it does not carry makes the source panic: the
  request builder then returns no value.
\<close>

type_synonym u16 = "16 word"

text \<open>\<open>HttpSender\<close>, \<open>SystemTime::now\<close> (the nanoseconds of the second) and \<open>tokio::time::sleep\<close>.\<close>

record 'w http_env =
  he_send :: "'w \<Rightarrow> json \<Rightarrow> 'w \<times> (u16 \<times> json, llm_error) result"
  he_nanos :: "'w \<Rightarrow> u64"
  he_sleep :: "u64 \<Rightarrow> 'w \<Rightarrow> 'w"
  he_to_string :: "json \<Rightarrow> string"

record fixed_sender =
  fs_status :: u16
  fs_body :: json

definition fixed_sender_ok :: "json \<Rightarrow> fixed_sender" where
  "fixed_sender_ok b = \<lparr>fs_status = 200, fs_body = b\<rparr>"

definition fixed_send :: "fixed_sender \<Rightarrow> 'w \<Rightarrow> json \<Rightarrow> 'w \<times> (u16 \<times> json, llm_error) result" where
  "fixed_send s w b = (w, Ok (fs_status s, fs_body s))"

record anthropic_provider =
  ap_default_model :: string
  ap_max_retries :: u32
  ap_retry_base_delay_ms :: u64
  ap_pricing :: "model_pricing list"

definition anthropic_new :: anthropic_provider where
  "anthropic_new = \<lparr>ap_default_model = ''claude-sonnet-4-6-20250514'', ap_max_retries = 3,
     ap_retry_base_delay_ms = 1000, ap_pricing = anthropic_pricing\<rparr>"

definition ap_with_model :: "anthropic_provider \<Rightarrow> string \<Rightarrow> anthropic_provider" where
  "ap_with_model p m = p\<lparr>ap_default_model := m\<rparr>"

definition ap_with_max_retries :: "anthropic_provider \<Rightarrow> u32 \<Rightarrow> anthropic_provider" where
  "ap_with_max_retries p n = p\<lparr>ap_max_retries := n\<rparr>"

definition ap_with_pricing :: "anthropic_provider \<Rightarrow> model_pricing list \<Rightarrow> anthropic_provider" where
  "ap_with_pricing p t = p\<lparr>ap_pricing := t\<rparr>"

section \<open>Request building\<close>

definition tool_use_content :: "tool_use_block \<Rightarrow> json" where
  "tool_use_content tu = json_object [(''role'', JString ''assistant''),
     (''content'', JArray [json_object [(''type'', JString ''tool_use''), (''id'', JString (tu_id tu)),
        (''name'', JString (tu_name tu)), (''input'', tu_input tu)]])]"

definition map_message :: "chat_message \<Rightarrow> json option" where
  "map_message m =
     (case cm_role m of
        R_User \<Rightarrow> Some (json_object [(''role'', JString ''user''), (''content'', JString (cm_content m))])
      | R_Assistant \<Rightarrow>
          Some (case cm_tool_use m of
                  Some tu \<Rightarrow> tool_use_content tu
                | None \<Rightarrow> json_object [(''role'', JString ''assistant''), (''content'', JString (cm_content m))])
      | R_ToolUse \<Rightarrow> map_option tool_use_content (cm_tool_use m)
      | R_ToolResult \<Rightarrow>
          map_option (\<lambda>tr. json_object [(''role'', JString ''user''),
            (''content'', JArray [json_object [(''type'', JString ''tool_result''),
               (''tool_use_id'', JString (trb_tool_use_id tr)), (''content'', JString (trb_content tr))]])])
            (cm_tool_result m)
      | R_System \<Rightarrow> Some (json_object [(''role'', JString ''user''), (''content'', JString [])]))"

fun map_messages :: "chat_message list \<Rightarrow> json list option" where
  "map_messages [] = Some []"
| "map_messages (m # ms) = do { j \<leftarrow> map_message m; js \<leftarrow> map_messages ms; Some (j # js) }"

definition request_model :: "anthropic_provider \<Rightarrow> chat_request \<Rightarrow> string" where
  "request_model p req = (if crq_model req = [] then ap_default_model p else crq_model req)"

definition tool_choice_json :: "tool_choice \<Rightarrow> json" where
  "tool_choice_json tc =
     (case tc of
        TC_Auto \<Rightarrow> json_object [(''type'', JString ''auto'')]
      | TC_None \<Rightarrow> json_object [(''type'', JString ''none'')]
      | TC_Specific name \<Rightarrow> json_object [(''type'', JString ''tool''), (''name'', JString name)])"

definition build_request_body :: "anthropic_provider \<Rightarrow> chat_request \<Rightarrow> json option" where
  "build_request_body p req =
     (let system_text = join_with [CHR 0x0A] (map cm_content (filter (\<lambda>m. cm_role m = R_System) (crq_messages req)))
      in do {
        messages \<leftarrow> map_messages (filter (\<lambda>m. cm_role m \<noteq> R_System) (crq_messages req));
        let body = json_object [(''model'', JString (request_model p req)),
          (''max_tokens'', JInt (if crq_max_output_tokens req > 0 then uint (crq_max_output_tokens req) else 1024)),
          (''messages'', JArray messages)];
        let body = (if system_text \<noteq> [] then json_set body ''system'' (JString system_text) else body);
        Some (if crq_tools req \<noteq> []
              then json_set
                     (json_set body ''tools'' (JArray (map (\<lambda>t. json_object [(''name'', JString (td_name t)),
                        (''description'', JString (td_description t)), (''input_schema'', td_input_schema t)]) (crq_tools req))))
                     ''tool_choice'' (tool_choice_json (crq_tool_choice req))
              else body)
      })"

section \<open>Response parsing\<close>

definition str_or :: "string \<Rightarrow> json \<Rightarrow> string" where
  "str_or d j = (case json_as_str j of Some s \<Rightarrow> s | None \<Rightarrow> d)"

definition usage_tokens :: "json \<Rightarrow> string \<Rightarrow> u32" where
  "usage_tokens body k =
     ucast (case json_as_u64 (json_index (json_index body ''usage'') k) of Some n \<Rightarrow> n | None \<Rightarrow> 0)"

definition parse_block :: "json \<Rightarrow> string \<times> tool_use_block option \<Rightarrow> string \<times> tool_use_block option" where
  "parse_block block acc =
     (let ty = json_as_str (json_index block ''type'')
      in if ty = Some ''text''
         then (fst acc @ str_or [] (json_index block ''text''), snd acc)
         else if ty = Some ''tool_use''
         then (fst acc, Some \<lparr>tu_id = str_or [] (json_index block ''id''), tu_name = str_or [] (json_index block ''name''),
                              tu_input = json_index block ''input''\<rparr>)
         else acc)"

definition parse_response :: "anthropic_provider \<Rightarrow> json \<Rightarrow> string \<Rightarrow> (chat_response, llm_error) result" where
  "parse_response p body model =
     (let tokens_in = usage_tokens body ''input_tokens'';
          tokens_out = usage_tokens body ''output_tokens'';
          reason = str_or ''end_turn'' (json_index body ''stop_reason'');
          (content, tool_use) = (case json_as_array (json_index body ''content'') of
             Some blocks \<Rightarrow> fold parse_block blocks ([], None) | None \<Rightarrow> ([], None))
      in Ok \<lparr>crs_content = content, crs_tokens_in = tokens_in, crs_tokens_out = tokens_out,
             crs_cost_usd = calculate_cost (ap_pricing p) model tokens_in tokens_out, crs_model = model,
             crs_stop_reason = (if reason = ''tool_use'' then ToolUse else if reason = ''max_tokens'' then MaxTokens else EndTurn),
             crs_tool_use = tool_use\<rparr>)"

section \<open>Sending with retries\<close>

definition retryable :: "u16 \<Rightarrow> bool" where
  "retryable status \<longleftrightarrow> status = 429 \<or> status = 500 \<or> status = 502 \<or> status = 503 \<or> status = 529"

definition http_error :: "'w http_env \<Rightarrow> u16 \<Rightarrow> json \<Rightarrow> llm_error" where
  "http_error v status body = LE_Provider (''HTTP '' @ show_nat (unat status) @ '': '' @ he_to_string v body)"

text \<open>The base delay is a private field that the constructor sets to 1000 milliseconds and nothing changes, so the base is
  never zero. The product wraps here; with that base it overflows only from the fifty-fourth retry on, which the
  doubled delays before it put out of reach.\<close>

definition retry_delay :: "'w http_env \<Rightarrow> anthropic_provider \<Rightarrow> nat \<Rightarrow> 'w \<Rightarrow> u64" where
  "retry_delay v p attempt w =
     ap_retry_base_delay_ms p * 2 ^ attempt + he_nanos v w mod ap_retry_base_delay_ms p"

text \<open>The loop runs over the attempts still to come; the error after the loop is the empty case.\<close>

fun retry_loop ::
  "'w http_env \<Rightarrow> anthropic_provider \<Rightarrow> json \<Rightarrow> nat list \<Rightarrow> 'w \<Rightarrow> 'w \<times> (json, llm_error) result" where
  "retry_loop v p body [] w = (w, Err (LE_Provider ''max retries exceeded''))"
| "retry_loop v p body (attempt # later) w =
     (case he_send v w body of
        (w1, Inl e) \<Rightarrow> (w1, Err e)
      | (w1, Inr (status, resp)) \<Rightarrow>
          if status = 200 then (w1, Ok resp)
          else if status = 400 then (w1, Err (LE_InvalidRequest (he_to_string v resp)))
          else if status = 401 \<or> status = 403 then (w1, Err (LE_AuthError (he_to_string v resp)))
          else if retryable status
          then (if attempt \<ge> unat (ap_max_retries p)
                then (w1, Err (if status = 429 then LE_RateLimited 0 else http_error v status resp))
                else retry_loop v p body later (he_sleep v (retry_delay v p attempt w1) w1))
          else (w1, Err (http_error v status resp)))"

definition send_with_retry :: "'w http_env \<Rightarrow> anthropic_provider \<Rightarrow> json \<Rightarrow> 'w \<Rightarrow> 'w \<times> (json, llm_error) result" where
  "send_with_retry v p body w = retry_loop v p body [0..<Suc (unat (ap_max_retries p))] w"

text \<open>\<open>chat\<close>; no value is a panic in the request builder.\<close>

definition anthropic_chat ::
  "'w http_env \<Rightarrow> anthropic_provider \<Rightarrow> 'w \<Rightarrow> chat_request \<Rightarrow> ('w \<times> (chat_response, llm_error) result) option" where
  "anthropic_chat v p w req =
     (case build_request_body p req of
        None \<Rightarrow> None
      | Some body \<Rightarrow>
          Some (case send_with_retry v p body w of
                  (w', Inl e) \<Rightarrow> (w', Err e)
                | (w', Inr resp) \<Rightarrow> (w', parse_response p resp (request_model p req))))"

section \<open>What a call does\<close>

text \<open>The state before attempt \<open>k\<close> when every attempt before it is retried, and what that attempt
  receives.\<close>

fun world_at :: "'w http_env \<Rightarrow> anthropic_provider \<Rightarrow> json \<Rightarrow> 'w \<Rightarrow> nat \<Rightarrow> 'w" where
  "world_at v p body w 0 = w"
| "world_at v p body w (Suc k) =
     (let w1 = fst (he_send v (world_at v p body w k) body) in he_sleep v (retry_delay v p k w1) w1)"

definition response_at :: "'w http_env \<Rightarrow> anthropic_provider \<Rightarrow> json \<Rightarrow> 'w \<Rightarrow> nat \<Rightarrow> (u16 \<times> json, llm_error) result" where
  "response_at v p body w k = snd (he_send v (world_at v p body w k) body)"

definition transient :: "(u16 \<times> json, llm_error) result \<Rightarrow> bool" where
  "transient r = (case r of Inl _ \<Rightarrow> False | Inr (status, _) \<Rightarrow> retryable status)"

definition outcome_of :: "'w http_env \<Rightarrow> (u16 \<times> json, llm_error) result \<Rightarrow> (json, llm_error) result" where
  "outcome_of v r =
     (case r of
        Inl e \<Rightarrow> Err e
      | Inr (status, resp) \<Rightarrow>
          if status = 200 then Ok resp
          else if status = 400 then Err (LE_InvalidRequest (he_to_string v resp))
          else if status \<in> {401, 403} then Err (LE_AuthError (he_to_string v resp))
          else if status = 429 then Err (LE_RateLimited 0)
          else Err (http_error v status resp))"

lemma retryable_cases: "retryable status \<longleftrightarrow> status \<in> {429, 500, 502, 503, 529}"
  by (auto simp: retryable_def)

lemma retry_loop_Cons:
  "retry_loop v p body (a # later) w =
     (let (w1, r) = he_send v w body
      in if transient r \<and> a < unat (ap_max_retries p)
         then retry_loop v p body later (he_sleep v (retry_delay v p a w1) w1)
         else (w1, outcome_of v r))"
  by (auto simp: transient_def outcome_of_def retryable_cases Let_def not_le split: sum.splits prod.splits)

declare retry_loop.simps(2) [simp del]

lemma retry_loop_spec:
  assumes "a \<le> unat (ap_max_retries p)"
  shows "\<exists>k. a \<le> k \<and> k \<le> unat (ap_max_retries p)
    \<and> (\<forall>j. a \<le> j \<and> j < k \<longrightarrow> transient (response_at v p body w j))
    \<and> (k < unat (ap_max_retries p) \<longrightarrow> \<not> transient (response_at v p body w k))
    \<and> retry_loop v p body [a..<Suc (unat (ap_max_retries p))] (world_at v p body w a)
        = (fst (he_send v (world_at v p body w k) body), outcome_of v (response_at v p body w k))"
  using assms
proof (induction a rule: inc_induct)
  case base
  show ?case
    by (intro exI[of _ "unat (ap_max_retries p)"]) (auto simp: retry_loop_Cons response_at_def split: prod.splits)
next
  case (step a)
  let ?r = "response_at v p body w a" and ?w = "world_at v p body w"
  have list: "[a..<Suc (unat (ap_max_retries p))] = a # [Suc a..<Suc (unat (ap_max_retries p))]"
    using step.hyps by (simp add: upt_conv_Cons)
  show ?case
  proof (cases "transient ?r")
    case True
    then have "retry_loop v p body [a..<Suc (unat (ap_max_retries p))] (?w a)
        = retry_loop v p body [Suc a..<Suc (unat (ap_max_retries p))] (?w (Suc a))"
      unfolding list using step.hyps by (auto simp: retry_loop_Cons response_at_def Let_def split: prod.splits)
    with step.IH True show ?thesis by (metis Suc_leD Suc_leI le_neq_implies_less)
  next
    case False
    then have "retry_loop v p body [a..<Suc (unat (ap_max_retries p))] (?w a) = (fst (he_send v (?w a) body), outcome_of v ?r)"
      unfolding list by (auto simp: retry_loop_Cons response_at_def Let_def split: prod.splits)
    with step.hyps False show ?thesis by (intro exI[of _ a]) auto
  qed
qed

definition message_wf :: "chat_message \<Rightarrow> bool" where
  "message_wf m \<longleftrightarrow> (cm_role m = R_ToolUse \<longrightarrow> cm_tool_use m \<noteq> None) \<and> (cm_role m = R_ToolResult \<longrightarrow> cm_tool_result m \<noteq> None)"

lemma map_message_None: "map_message m = None \<longleftrightarrow> \<not> message_wf m"
  by (auto simp: map_message_def message_wf_def split: role.splits)

lemma map_messages_None: "map_messages ms = None \<longleftrightarrow> (\<exists>m \<in> set ms. \<not> message_wf m)"
proof (induction ms)
  case (Cons m ms)
  then show ?case using map_message_None[of m] by (cases "map_message m"; cases "map_messages ms") auto
qed simp

lemma build_request_body_None:
  "build_request_body p req = None \<longleftrightarrow> (\<exists>m \<in> set (crq_messages req). \<not> message_wf m)"
proof -
  have sys: "message_wf m" if "cm_role m = R_System" for m using that by (simp add: message_wf_def)
  let ?ms = "filter (\<lambda>m. cm_role m \<noteq> R_System) (crq_messages req)"
  have "build_request_body p req = None \<longleftrightarrow> map_messages ?ms = None"
    by (cases "map_messages ?ms") (auto simp: build_request_body_def Let_def)
  also have "\<dots> \<longleftrightarrow> (\<exists>m \<in> set (crq_messages req). \<not> message_wf m)"
    using sys by (auto simp: map_messages_None)
  finally show ?thesis .
qed

text \<open>Messages the framework builds with its constructors never make the provider panic.\<close>

lemma constructed_messages_wf:
  "message_wf (msg_system c)" "message_wf (msg_user c)" "message_wf (msg_assistant c)"
  "message_wf (tool_use_msg tu)" "message_wf (tool_result_msg tr)"
  by (simp_all add: message_wf_def msg_system_def msg_user_def msg_assistant_def tool_use_msg_def tool_result_msg_def)

text \<open>C37. A call of the Anthropic provider panics exactly when a message of role tool-use or tool-result
  lacks its block. Otherwise it sends one and the same body, to the first attempt whose answer is
  not transient (429, 500, 502, 503, 529) or to the last of its \<open>max_retries + 1\<close> attempts,
  sleeping after each transient answer before; the result is that answer: the parsed response for
  status 200 and the matching error for every other, so the error for running out of attempts is
  never returned.\<close>

theorem anthropic_chat_exact:
  "if \<exists>m \<in> set (crq_messages req). \<not> message_wf m then anthropic_chat v p w req = None
   else \<exists>body k. build_request_body p req = Some body \<and> k \<le> unat (ap_max_retries p)
     \<and> (\<forall>j < k. transient (response_at v p body w j))
     \<and> (k < unat (ap_max_retries p) \<longrightarrow> \<not> transient (response_at v p body w k))
     \<and> anthropic_chat v p w req = Some (fst (he_send v (world_at v p body w k) body),
          bind_result (outcome_of v (response_at v p body w k)) (\<lambda>resp. parse_response p resp (request_model p req)))"
proof (cases "build_request_body p req")
  case None
  then show ?thesis using build_request_body_None[of p req] by (simp add: anthropic_chat_def)
next
  case (Some body)
  from retry_loop_spec[of 0 p v body w] obtain k where k: "k \<le> unat (ap_max_retries p)"
    "\<forall>j < k. transient (response_at v p body w j)" "k < unat (ap_max_retries p) \<longrightarrow> \<not> transient (response_at v p body w k)"
    "send_with_retry v p body w = (fst (he_send v (world_at v p body w k) body), outcome_of v (response_at v p body w k))"
    by (auto simp: send_with_retry_def)
  have "anthropic_chat v p w req = Some (fst (he_send v (world_at v p body w k) body),
      bind_result (outcome_of v (response_at v p body w k)) (\<lambda>resp. parse_response p resp (request_model p req)))"
    using Some k(4) by (auto simp: anthropic_chat_def bind_result_def split: sum.splits)
  with Some k(1-3) build_request_body_None[of p req] show ?thesis by auto
qed

text \<open>A sender whose world is the list of answers still to come, over a request with two messages.\<close>

definition ex_http_env :: "(u16 \<times> json) list http_env" where
  "ex_http_env = \<lparr>he_send = (\<lambda>w body. case w of [] \<Rightarrow> ([], Err LE_Timeout) | r # rs \<Rightarrow> (rs, Ok r)),
     he_nanos = (\<lambda>w. 7), he_sleep = (\<lambda>d w. w), he_to_string = (\<lambda>j. ''{}'')\<rparr>"

definition ex_chat_request :: chat_request where
  "ex_chat_request = \<lparr>crq_model = [], crq_temperature = Fin 0, crq_max_output_tokens = 0,
     crq_messages = [msg_system ''be brief'', msg_user ''hello''], crq_tools = [], crq_tool_choice = TC_Auto\<rparr>"

theorem anthropic_chat_exact_witness:
  "(\<exists>resp. anthropic_chat ex_http_env anthropic_new [(503, JNull), (429, JNull), (200, JNull), (500, JNull)] ex_chat_request
      = Some ([(500, JNull)], Ok resp))
   \<and> (\<exists>body. build_request_body anthropic_new ex_chat_request = Some body)"
proof -
  let ?w = "[(503, JNull), (429, JNull), (200, JNull), (500, JNull)] :: (u16 \<times> json) list"
  have wf: "\<not> (\<exists>m \<in> set (crq_messages ex_chat_request). \<not> message_wf m)"
    by (simp add: ex_chat_request_def constructed_messages_wf)
  have run: "send_with_retry ex_http_env anthropic_new body ?w = ([(500, JNull)], Ok JNull)" for body
    by (simp add: send_with_retry_def anthropic_new_def ex_http_env_def retryable_def upt_conv_Cons retry_loop.simps)
  from anthropic_chat_exact[of ex_chat_request ex_http_env anthropic_new ?w] wf
  obtain body where "build_request_body anthropic_new ex_chat_request = Some body" by auto
  with run show ?thesis by (auto simp: anthropic_chat_def parse_response_def Let_def anthropic_new_def split: prod.splits)
qed

end
