(* ===== verification/Otel.thy ===== *)
theory Otel
  imports Trace
begin

text \<open>
  Export of a trace as an OpenTelemetry document (\<open>aaf-trace/src/export.rs\<close>). A cost and a confidence
  are printed with a fixed number of decimals, rounded half to even like the standard library.
  Timestamps stay within the 64-bit nanosecond range of the source.
\<close>

fun pad_left :: "nat \<Rightarrow> string \<Rightarrow> string" where
  "pad_left n s = replicate (n - length s) CHR ''0'' @ s"

definition fixed_digits :: "nat \<Rightarrow> nat \<Rightarrow> string" where
  "fixed_digits d n = show_nat (n div 10 ^ d) @ ''.'' @ pad_left d (show_nat (n mod 10 ^ d))"

fun format_fixed :: "nat \<Rightarrow> f64 \<Rightarrow> string" where
  "format_fixed d NaN = ''NaN''"
| "format_fixed d PInf = ''inf''"
| "format_fixed d NInf = ''-inf''"
| "format_fixed d (Fin x) =
     (if x < 0 then ''-'' @ fixed_digits d (nat (rne (- x * 10 ^ d))) else fixed_digits d (nat (rne (x * 10 ^ d))))"

record otel_attr =
  oa_key :: string
  oa_value :: string

record otel_status =
  os_code :: string
  os_message :: "string option"

record otel_span =
  osp_trace_id :: string
  osp_span_id :: string
  osp_name :: string
  osp_start_time_unix_nano :: int
  osp_end_time_unix_nano :: int
  osp_attributes :: "otel_attr list"
  osp_status :: otel_status

definition step_to_span :: "string \<Rightarrow> trace_step \<Rightarrow> otel_span" where
  "step_to_span trace_id s =
     (let end_ns = ob_recorded_at (tst_observation s);
          start_ns = end_ns - uint (tst_duration_ms s) * 1000000;
          attrs = [\<lparr>oa_key = ''aaf.step'', oa_value = show_nat (unat (tst_step s))\<rparr>,
                   \<lparr>oa_key = ''aaf.tokens_in'', oa_value = show_nat (unat (tst_tokens_in s))\<rparr>,
                   \<lparr>oa_key = ''aaf.tokens_out'', oa_value = show_nat (unat (tst_tokens_out s))\<rparr>,
                   \<lparr>oa_key = ''aaf.cost_usd'', oa_value = format_fixed 6 (tst_cost_usd s)\<rparr>,
                   \<lparr>oa_key = ''aaf.confidence'', oa_value = format_fixed 4 (ob_confidence (tst_observation s))\<rparr>]
                  @ (case tst_model s of Some m \<Rightarrow> [\<lparr>oa_key = ''aaf.model'', oa_value = m\<rparr>] | None \<Rightarrow> []);
          code = (case ob_outcome (tst_observation s) of
                    SO_Success \<Rightarrow> ''OK'' | SO_Failure \<Rightarrow> ''ERROR''
                  | SO_Skipped \<Rightarrow> ''UNSET'' | SO_Compensated \<Rightarrow> ''UNSET'' | SO_Pending \<Rightarrow> ''UNSET'')
      in \<lparr>osp_trace_id = trace_id, osp_span_id = ob_node_id (tst_observation s), osp_name = tst_step_type s,
          osp_start_time_unix_nano = start_ns, osp_end_time_unix_nano = end_ns, osp_attributes = attrs,
          osp_status = \<lparr>os_code = code, os_message = None\<rparr>\<rparr>)"

text \<open>The serialised span.\<close>

definition attr_json :: "string \<Rightarrow> string \<Rightarrow> json" where
  "attr_json k v = json_object [(''key'', JString k), (''value'', JString v)]"

definition span_json :: "otel_span \<Rightarrow> json" where
  "span_json s = json_object
     [(''traceId'', JString (osp_trace_id s)), (''spanId'', JString (osp_span_id s)), (''name'', JString (osp_name s)),
      (''startTimeUnixNano'', JInt (osp_start_time_unix_nano s)), (''endTimeUnixNano'', JInt (osp_end_time_unix_nano s)),
      (''attributes'', JArray (map (\<lambda>a. attr_json (oa_key a) (oa_value a)) (osp_attributes s))),
      (''status'', json_object ((''code'', JString (os_code (osp_status s)))
         # (case os_message (osp_status s) of Some m \<Rightarrow> [(''message'', JString m)] | None \<Rightarrow> [])))]"

definition otel_json_for :: "execution_trace \<Rightarrow> json" where
  "otel_json_for t =
     json_object [(''resourceSpans'', JArray [json_object
       [(''resource'', json_object [(''attributes'',
           JArray [attr_json ''service.name'' ''aaf'', attr_json ''aaf.intent_id'' (tr_intent_id t)])]),
        (''scopeSpans'', JArray [json_object
           [(''scope'', json_object [(''name'', JString ''aaf-trace'')]),
            (''spans'', JArray (map (span_json \<circ> step_to_span (tr_trace_id t)) (tr_steps t)))]])]])]"

text \<open>Every span lasts exactly the step's measured duration, and the document lists one span per step,
  in order.\<close>

lemma span_duration:
  "osp_end_time_unix_nano (step_to_span i s) - osp_start_time_unix_nano (step_to_span i s) = uint (tst_duration_ms s) * 1000000"
  by (simp add: step_to_span_def Let_def)

lemma otel_spans:
  "\<exists>resource scope. json_index (otel_json_for t) ''resourceSpans''
      = JArray [JObject [(''resource'', resource), (''scopeSpans'', JArray [JObject [(''scope'', scope),
          (''spans'', JArray (map (span_json \<circ> step_to_span (tr_trace_id t)) (tr_steps t)))]])]]"
  by (simp add: otel_json_for_def json_index_def json_object_def less_list_code less_char_def)

lemma span_status_exact:
  "os_code (osp_status (step_to_span i s)) = ''OK'' \<longleftrightarrow> ob_outcome (tst_observation s) = SO_Success"
  "os_code (osp_status (step_to_span i s)) = ''ERROR'' \<longleftrightarrow> ob_outcome (tst_observation s) = SO_Failure"
  by (simp_all add: step_to_span_def Let_def split: step_outcome.splits)

end
