(* ===== verification/Sbom.thy ===== *)
theory Sbom
  imports Identity
begin

text \<open>
  The agent software bill of materials and its exporters (\<open>aaf-identity/src/sbom\<close>). The exported
  documents are records; the pretty printer, the timestamp printer and the crate version are
  arguments.
\<close>

datatype sbom_entry_kind = SK_Model | SK_Prompt | SK_Tool | SK_Ontology | SK_EvalSuite | SK_TrainingData | SK_Other

record sbom_entry =
  sbe_kind :: sbom_entry_kind
  sbe_name :: string
  sbe_version :: string
  sbe_content_hash :: string
  sbe_locator :: "string option"

definition sbom_entry_from_bytes :: "crypto \<Rightarrow> sbom_entry_kind \<Rightarrow> string \<Rightarrow> string \<Rightarrow> u8 list \<Rightarrow> sbom_entry" where
  "sbom_entry_from_bytes c kind name version bytes =
     \<lparr>sbe_kind = kind, sbe_name = name, sbe_version = version, sbe_content_hash = hex c (sha256 c bytes),
      sbe_locator = None\<rparr>"

definition with_locator :: "sbom_entry \<Rightarrow> string \<Rightarrow> sbom_entry" where
  "with_locator e l = e\<lparr>sbe_locator := Some l\<rparr>"

record agent_sbom =
  sb_did :: string
  sb_generated_at :: timestamp
  sb_entries :: "sbom_entry list"

definition sbom_new :: "timestamp \<Rightarrow> string \<Rightarrow> agent_sbom" where
  "sbom_new now did = \<lparr>sb_did = did, sb_generated_at = now, sb_entries = []\<rparr>"

definition sbom_push :: "agent_sbom \<Rightarrow> sbom_entry \<Rightarrow> agent_sbom" where
  "sbom_push s e = s\<lparr>sb_entries := sb_entries s @ [e]\<rparr>"

definition sbom_count :: "agent_sbom \<Rightarrow> sbom_entry_kind \<Rightarrow> nat" where
  "sbom_count s k = length (filter (\<lambda>e. sbe_kind e = k) (sb_entries s))"

text \<open>The printer's failure becomes an error object.\<close>

definition render :: "('a \<Rightarrow> (string, string) result) \<Rightarrow> 'a \<Rightarrow> string" where
  "render pretty x = (case pretty x of Inr s \<Rightarrow> s | Inl e \<Rightarrow> ''{'' @ [CHR 0x22] @ ''error'' @ [CHR 0x22] @ '':'' @ [CHR 0x22] @ e @ [CHR 0x22] @ ''}'')"

definition sbom_to_json :: "(agent_sbom \<Rightarrow> (string, string) result) \<Rightarrow> agent_sbom \<Rightarrow> string" where
  "sbom_to_json pretty s = render pretty s"

definition sbom_content_hash :: "crypto \<Rightarrow> sbom_entry list serialiser \<Rightarrow> agent_sbom \<Rightarrow> string" where
  "sbom_content_hash c to_vec s = hex c (sha256 c (case to_vec (sb_entries s) of Inr bs \<Rightarrow> bs | Inl _ \<Rightarrow> []))"

section \<open>SPDX\<close>

record spdx_checksum =
  spc_algorithm :: string
  spc_checksum_value :: string

record spdx_package =
  spp_spdx_id :: string
  spp_name :: string
  spp_version_info :: string
  spp_download_location :: string
  spp_files_analyzed :: bool
  spp_checksums :: "spdx_checksum list"
  spp_license_concluded :: string
  spp_license_declared :: string
  spp_copyright_text :: string

record spdx_creation_info =
  spi_creators :: "string list"
  spi_created :: string

record spdx_document =
  spd_spdx_version :: string
  spd_data_license :: string
  spd_spdx_id :: string
  spd_name :: string
  spd_document_namespace :: string
  spd_creation_info :: spdx_creation_info
  spd_packages :: "spdx_package list"

section \<open>CycloneDX\<close>

record cyclonedx_hash =
  cdh_alg :: string
  cdh_content :: string

record cyclonedx_component =
  cdc_component_type :: string
  cdc_bom_ref :: string
  cdc_name :: string
  cdc_version :: string
  cdc_hashes :: "cyclonedx_hash list"

record cyclonedx_tool =
  cdt_vendor :: string
  cdt_name :: string
  cdt_version :: string

record cyclonedx_metadata =
  cdm_timestamp :: string
  cdm_tools :: "cyclonedx_tool list"
  cdm_component :: cyclonedx_component

record cyclonedx_document =
  cdd_bom_format :: string
  cdd_spec_version :: string
  cdd_version :: u32
  cdd_serial_number :: "string option"
  cdd_metadata :: cyclonedx_metadata
  cdd_components :: "cyclonedx_component list"

section \<open>The mapping\<close>

definition spdx_type_for :: "sbom_entry_kind \<Rightarrow> string" where
  "spdx_type_for k =
     (case k of SK_Model \<Rightarrow> ''LIBRARY'' | SK_Prompt \<Rightarrow> ''FILE'' | SK_Tool \<Rightarrow> ''APPLICATION'' | SK_Ontology \<Rightarrow> ''FILE''
      | SK_EvalSuite \<Rightarrow> ''FILE'' | SK_TrainingData \<Rightarrow> ''FILE'' | SK_Other \<Rightarrow> ''OTHER'')"

definition cyclonedx_type_for :: "sbom_entry_kind \<Rightarrow> string" where
  "cyclonedx_type_for k =
     (case k of SK_Model \<Rightarrow> ''machine-learning-model'' | SK_Prompt \<Rightarrow> ''data'' | SK_Tool \<Rightarrow> ''application''
      | SK_Ontology \<Rightarrow> ''data'' | SK_EvalSuite \<Rightarrow> ''data'' | SK_TrainingData \<Rightarrow> ''data'' | SK_Other \<Rightarrow> ''library'')"

definition is_ascii_alphanumeric :: "char \<Rightarrow> bool" where
  "is_ascii_alphanumeric ch \<longleftrightarrow>
     (CHR ''0'' \<le> ch \<and> ch \<le> CHR ''9'') \<or> (CHR ''A'' \<le> ch \<and> ch \<le> CHR ''Z'') \<or> (CHR ''a'' \<le> ch \<and> ch \<le> CHR ''z'')"

definition slug :: "string \<Rightarrow> string" where
  "slug name = map (\<lambda>ch. if is_ascii_alphanumeric ch \<or> ch = CHR ''-'' then ch else CHR ''-'') name"

definition spdx_package_of :: "nat \<Rightarrow> sbom_entry \<Rightarrow> spdx_package" where
  "spdx_package_of idx e =
     \<lparr>spp_spdx_id = ''SPDXRef-Package-'' @ show_nat idx @ ''-'' @ slug (sbe_name e), spp_name = sbe_name e,
      spp_version_info = sbe_version e,
      spp_download_location = (case sbe_locator e of Some l \<Rightarrow> l | None \<Rightarrow> ''NOASSERTION''),
      spp_files_analyzed = False,
      spp_checksums = [\<lparr>spc_algorithm = ''SHA256'', spc_checksum_value = sbe_content_hash e\<rparr>],
      spp_license_concluded = ''NOASSERTION'', spp_license_declared = ''NOASSERTION'',
      spp_copyright_text = ''NOASSERTION''\<rparr>"

definition cyclonedx_component_of :: "nat \<Rightarrow> sbom_entry \<Rightarrow> cyclonedx_component" where
  "cyclonedx_component_of idx e =
     \<lparr>cdc_component_type = cyclonedx_type_for (sbe_kind e), cdc_bom_ref = show_nat idx @ ''-'' @ slug (sbe_name e),
      cdc_name = sbe_name e, cdc_version = sbe_version e,
      cdc_hashes = [\<lparr>cdh_alg = ''SHA-256'', cdh_content = sbe_content_hash e\<rparr>]\<rparr>"

definition to_spdx :: "(timestamp \<Rightarrow> string) \<Rightarrow> agent_sbom \<Rightarrow> spdx_document" where
  "to_spdx rfc3339 s =
     \<lparr>spd_spdx_version = ''SPDX-2.3'', spd_data_license = ''CC0-1.0'', spd_spdx_id = ''SPDXRef-DOCUMENT'',
      spd_name = ''aaf-agent-sbom-'' @ sb_did s, spd_document_namespace = ''https://aaf.dev/sbom/'' @ sb_did s,
      spd_creation_info = \<lparr>spi_creators = [''Tool: aaf-identity''], spi_created = rfc3339 (sb_generated_at s)\<rparr>,
      spd_packages = map (\<lambda>(i, e). spdx_package_of i e) (enumerate 0 (sb_entries s))\<rparr>"

definition to_spdx_json :: "(spdx_document \<Rightarrow> (string, string) result) \<Rightarrow> (timestamp \<Rightarrow> string) \<Rightarrow> agent_sbom \<Rightarrow> string" where
  "to_spdx_json pretty rfc3339 s = render pretty (to_spdx rfc3339 s)"

definition to_cyclonedx :: "(timestamp \<Rightarrow> string) \<Rightarrow> string \<Rightarrow> agent_sbom \<Rightarrow> cyclonedx_document" where
  "to_cyclonedx rfc3339 pkg_version s =
     \<lparr>cdd_bom_format = ''CycloneDX'', cdd_spec_version = ''1.5'', cdd_version = 1, cdd_serial_number = None,
      cdd_metadata = \<lparr>cdm_timestamp = rfc3339 (sb_generated_at s),
        cdm_tools = [\<lparr>cdt_vendor = ''aaf.dev'', cdt_name = ''aaf-identity'', cdt_version = pkg_version\<rparr>],
        cdm_component = \<lparr>cdc_component_type = ''application'', cdc_bom_ref = sb_did s, cdc_name = sb_did s,
          cdc_version = ''1.0.0'', cdc_hashes = []\<rparr>\<rparr>,
      cdd_components = map (\<lambda>(i, e). cyclonedx_component_of i e) (enumerate 0 (sb_entries s))\<rparr>"

definition to_cyclonedx_json ::
  "(cyclonedx_document \<Rightarrow> (string, string) result) \<Rightarrow> (timestamp \<Rightarrow> string) \<Rightarrow> string \<Rightarrow> agent_sbom \<Rightarrow> string" where
  "to_cyclonedx_json pretty rfc3339 pkg_version s = render pretty (to_cyclonedx rfc3339 pkg_version s)"

section \<open>One package per entry\<close>

text \<open>Both exporters number the entries, and a numbered name determines its number. The shared
  argument is a locale over the prefix of the generated id.\<close>

locale numbered_export =
  fixes item_id :: "nat \<Rightarrow> sbom_entry \<Rightarrow> string" and pre :: string
  assumes item_id: "item_id i e = pre @ show_nat i @ ''-'' @ slug (sbe_name e)"
begin

lemma item_id_number: "item_id i e = item_id j e' \<Longrightarrow> i = j"
  using show_nat_followed[of i "CHR ''-''" "slug (sbe_name e)" j "slug (sbe_name e')"] by (simp add: item_id)

lemma item_ids_distinct: "distinct (map (\<lambda>(i, e). item_id i e) (enumerate n es))"
  by (auto simp: distinct_map inj_on_def distinct_enumerate in_set_enumerate_eq dest: item_id_number)

end

interpretation spdx: numbered_export "\<lambda>i e. spp_spdx_id (spdx_package_of i e)" "''SPDXRef-Package-''"
  by unfold_locales (simp add: spdx_package_of_def)

interpretation cyclonedx: numbered_export "\<lambda>i e. cdc_bom_ref (cyclonedx_component_of i e)" "[]"
  by unfold_locales (simp add: cyclonedx_component_of_def)

text \<open>C39. The exporters keep the promise of their documentation: in the SPDX and in the CycloneDX
  document every entry of the bill of materials appears as exactly one package or component, in
  order, with its name, its version and its SHA-256 content hash, and no two packages or components
  of a document share an identifier, also when entries share a name.\<close>

theorem sbom_export_exact:
  "map (\<lambda>p. (spp_name p, spp_version_info p, spp_checksums p)) (spd_packages (to_spdx fmt s))
     = map (\<lambda>e. (sbe_name e, sbe_version e, [\<lparr>spc_algorithm = ''SHA256'', spc_checksum_value = sbe_content_hash e\<rparr>])) (sb_entries s)
   \<and> map (\<lambda>q. (cdc_component_type q, cdc_name q, cdc_version q, cdc_hashes q)) (cdd_components (to_cyclonedx fmt ver s))
     = map (\<lambda>e. (cyclonedx_type_for (sbe_kind e), sbe_name e, sbe_version e,
         [\<lparr>cdh_alg = ''SHA-256'', cdh_content = sbe_content_hash e\<rparr>])) (sb_entries s)
   \<and> distinct (map spp_spdx_id (spd_packages (to_spdx fmt s)))
   \<and> distinct (map cdc_bom_ref (cdd_components (to_cyclonedx fmt ver s)))"
proof (intro conjI)
  show "distinct (map spp_spdx_id (spd_packages (to_spdx fmt s)))"
    using spdx.item_ids_distinct[of 0 "sb_entries s"] by (simp add: to_spdx_def comp_def case_prod_unfold)
  show "distinct (map cdc_bom_ref (cdd_components (to_cyclonedx fmt ver s)))"
    using cyclonedx.item_ids_distinct[of 0 "sb_entries s"] by (simp add: to_cyclonedx_def comp_def case_prod_unfold)
qed (auto intro!: nth_equalityI simp: to_spdx_def to_cyclonedx_def case_prod_unfold nth_enumerate_eq
      spdx_package_of_def cyclonedx_component_of_def)

end
