(* ===== verification/Lint.thy ===== *)
theory Lint
  imports Sbom
begin

text \<open>
  The ontology tools of the server (\<open>aaf-server/src/lint.rs\<close>, \<open>import.rs\<close>): the entity-declaration lint
  with its adoption ramp, and the import of an OpenAPI document as entity proposals. Reading a
  directory or a file and parsing YAML or JSON are arguments; a parsed \<open>BTreeMap\<close> is an association
  list in key order. Printing the report is not modelled.
\<close>

section \<open>Lint\<close>

datatype severity = Sev_Ok | Sev_Warn | Sev_Error

record lint_finding =
  lf_path :: string
  lf_capability_id :: string
  lf_severity :: severity
  lf_reason :: string

record lint_report =
  lrp_scanned :: nat
  lrp_with_declarations :: nat
  lrp_adoption_ratio :: f32
  lrp_strict :: bool
  lrp_findings :: "lint_finding list"

definition ADOPTION_STRICT_THRESHOLD :: f32 where
  "ADOPTION_STRICT_THRESHOLD = to_f32 (9 / 10)"

definition has_errors :: "lint_report \<Rightarrow> bool" where
  "has_errors r = list_ex (\<lambda>f. lf_severity f = Sev_Error) (lrp_findings r)"

definition count_severity :: "lint_report \<Rightarrow> severity \<Rightarrow> nat" where
  "count_severity r s = length (filter (\<lambda>f. lf_severity f = s) (lrp_findings r))"

definition side_effect_name :: "side_effect \<Rightarrow> string" where
  "side_effect_name s =
     (case s of SE_None \<Rightarrow> ''none'' | SE_Read \<Rightarrow> ''read'' | SE_Write \<Rightarrow> ''write'' | SE_Delete \<Rightarrow> ''delete''
      | SE_Send \<Rightarrow> ''send'' | SE_Payment \<Rightarrow> ''payment'')"

definition lint_classify :: "capability_contract \<Rightarrow> severity \<times> string" where
  "lint_classify cap =
     (let write_error = (Sev_Error, ''capability declares side_effect `'' @ side_effect_name (cap_side_effect cap)
            @ ''` but `writes:` is empty; the boundary rule and composition checker cannot reason about it'');
          read_warning = (Sev_Warn, ''capability has no entity declarations; add `reads:` to let the planner key memory retrieval off nouns'')
      in if cap_reads cap \<noteq> [] \<or> cap_writes cap \<noteq> [] \<or> cap_emits cap \<noteq> []
         then (Sev_Ok, ''has entity declarations'')
         else case cap_side_effect cap of
                SE_Write \<Rightarrow> write_error | SE_Delete \<Rightarrow> write_error | SE_Send \<Rightarrow> write_error | SE_Payment \<Rightarrow> write_error
              | SE_Read \<Rightarrow> read_warning | SE_None \<Rightarrow> read_warning)"

type_synonym file_reader = "string \<Rightarrow> (string, string) result"

definition lint_file :: "file_reader \<Rightarrow> (string \<Rightarrow> (capability_contract, string) result) \<Rightarrow> string \<Rightarrow> lint_finding" where
  "lint_file read_file parse path =
     (case read_file path of
        Inl err \<Rightarrow> \<lparr>lf_path = path, lf_capability_id = ''<read-error>'', lf_severity = Sev_Error,
                   lf_reason = ''could not read file: '' @ err\<rparr>
      | Inr raw \<Rightarrow>
          (case parse raw of
             Inl err \<Rightarrow> \<lparr>lf_path = path, lf_capability_id = ''<parse-error>'', lf_severity = Sev_Error,
                        lf_reason = ''could not parse as CapabilityContract: '' @ err\<rparr>
           | Inr cap \<Rightarrow>
               (let (sev, reason) = lint_classify cap
                in \<lparr>lf_path = path, lf_capability_id = cap_id cap, lf_severity = sev, lf_reason = reason\<rparr>)))"

text \<open>A directory entry: its path, its file name where that is text, and whether it is a file.\<close>

record dir_entry =
  de_path :: string
  de_name :: "string option"
  de_is_file :: bool

definition lint_selected :: "dir_entry \<Rightarrow> bool" where
  "lint_selected e =
     (let name = (case de_name e of Some n \<Rightarrow> n | None \<Rightarrow> [])
      in de_is_file e \<and> starts_with name ''capability-'' \<and> (ends_with name ''.yaml'' \<or> ends_with name ''.yml''))"

definition downgrade :: "lint_finding \<Rightarrow> lint_finding" where
  "downgrade f = (if lf_severity f = Sev_Error then f\<lparr>lf_severity := Sev_Warn\<rparr> else f)"

definition adoption :: "nat \<Rightarrow> nat \<Rightarrow> f32" where
  "adoption with_declarations scanned =
     (if scanned = 0 then Fin 0
      else case (to_f32 (of_nat with_declarations), to_f32 (of_nat scanned)) of
             (Fin a, Fin b) \<Rightarrow> to_f32 (a / b) | (a, b) \<Rightarrow> fdiv a b)"

definition lint_directory ::
  "(string \<Rightarrow> (dir_entry list, string) result) \<Rightarrow> file_reader \<Rightarrow> (string \<Rightarrow> (capability_contract, string) result)
     \<Rightarrow> string \<Rightarrow> (lint_report, string) result" where
  "lint_directory read_dir read_file parse dir =
     bind_result (read_dir dir) (\<lambda>entries.
       let paths = sort (map de_path (filter lint_selected entries));
           findings = map (lint_file read_file parse) paths;
           scanned = length findings;
           with_declarations = length (filter (\<lambda>f. lf_severity f = Sev_Ok) findings);
           ratio = adoption with_declarations scanned;
           strict = fle ADOPTION_STRICT_THRESHOLD ratio
       in Ok \<lparr>lrp_scanned = scanned, lrp_with_declarations = with_declarations, lrp_adoption_ratio = ratio,
              lrp_strict = strict, lrp_findings = (if strict then findings else map downgrade findings)\<rparr>)"

section \<open>OpenAPI import\<close>

record entity_proposal =
  ep_id :: string
  ep_description :: string
  ep_fields :: "(string \<times> string) list"

datatype import_error = ImportParse string | NotOpenApi

record openapi_property =
  op_type :: "string option"
  op_format :: "string option"

record openapi_schema =
  os_type :: "string option"
  os_description :: string
  os_properties :: "(string \<times> openapi_property) list"
  os_entity_id :: "string option"

record openapi_doc =
  od_title :: string
  od_schemas :: "(string \<times> openapi_schema) list option"

definition trim_matches :: "char \<Rightarrow> string \<Rightarrow> string" where
  "trim_matches ch s = rev (dropWhile (\<lambda>x. x = ch) (rev (dropWhile (\<lambda>x. x = ch) s)))"

definition slugify :: "string \<Rightarrow> string" where
  "slugify s = trim_matches (CHR ''_'')
     (map (\<lambda>ch. if is_ascii_alphanumeric ch then to_lower_char ch else CHR ''_'') (trim s))"

definition map_type :: "openapi_property \<Rightarrow> string" where
  "map_type p =
     (if op_type p = Some ''string''
      then (if op_format p = Some ''date-time'' then ''timestamp'' else ''string'')
      else if op_type p = Some ''integer'' then ''integer''
      else if op_type p = Some ''number'' then ''float''
      else if op_type p = Some ''boolean'' then ''boolean''
      else ''object'')"

definition proposal_of :: "string \<Rightarrow> string \<times> openapi_schema \<Rightarrow> entity_proposal" where
  "proposal_of title_slug ns =
     (let (schema_name, schema) = ns;
          fs = map (\<lambda>(n, p). (n, map_type p)) (os_properties schema)
      in \<lparr>ep_id = (case os_entity_id schema of Some i \<Rightarrow> i | None \<Rightarrow> title_slug @ ''.'' @ schema_name),
          ep_description = os_description schema,
          ep_fields = (if fs = [] \<and> os_type schema \<noteq> Some ''string'' then [(''(todo)'', ''object'')] else fs)\<rparr>)"

definition import_openapi ::
  "(string \<Rightarrow> (openapi_doc, string) result) \<Rightarrow> (string \<Rightarrow> (openapi_doc, string) result) \<Rightarrow> string
     \<Rightarrow> (entity_proposal list, import_error) result" where
  "import_openapi from_yaml from_json raw =
     bind_result
       (case from_yaml raw of
          Inr d \<Rightarrow> Ok d
        | Inl _ \<Rightarrow> (case from_json raw of Inr d \<Rightarrow> Ok d | Inl e \<Rightarrow> Err (ImportParse e)))
       (\<lambda>doc.
          case od_schemas doc of
            None \<Rightarrow> Err NotOpenApi
          | Some schemas \<Rightarrow>
              if schemas = [] then Err NotOpenApi
              else let title_slug = (if od_title doc = [] then ''imported'' else slugify (od_title doc))
                   in Ok (sort_key ep_id (map (proposal_of title_slug) schemas)))"

definition newline :: string where
  "newline = [CHR 0x0A]"

text \<open>The UTF-8 bytes of the dash in the generated comments.\<close>

definition dash :: string where
  "dash = [CHR '' '', CHR 0xE2, CHR 0x80, CHR 0x94, CHR '' '']"

definition render_proposal :: "entity_proposal \<Rightarrow> string" where
  "render_proposal p =
     ''  - id: '' @ ep_id p @ newline @ ''    version: 0.1.0'' @ newline
     @ ''    description: ''
     @ (if ep_description p = [] then ''(imported'' @ dash @ ''add a description)''
        else map (\<lambda>ch. if ch = CHR 0x0A then CHR '' '' else ch) (ep_description p)) @ newline
     @ ''    classification: internal   # review: may need to be confidential or pii'' @ newline
     @ ''    fields:'' @ newline
     @ concat (map (\<lambda>(fname, ftype). ''      - name: '' @ fname @ newline @ ''        field_type: '' @ ftype @ newline
         @ ''        required: false'' @ newline) (ep_fields p))"

definition render_yaml :: "entity_proposal list \<Rightarrow> string" where
  "render_yaml ps =
     ''# AUTO-GENERATED by `aaf-server ontology import`'' @ dash @ ''HUMAN REVIEW REQUIRED.'' @ newline
     @ ''# Classification defaults to `internal` for every entity. You MUST audit'' @ newline
     @ ''# and downgrade / upgrade per data-handling policy before merging.'' @ newline
     @ ''entities:'' @ newline @ concat (map render_proposal ps)"

section \<open>The ramp\<close>

lemma to_f32_unit:
  assumes "0 \<le> x" "x \<le> 1"
  shows "to_f32 x = Fin (round_to 24 (- 149) x)"
proof -
  have "round_to 24 (- 149) x \<le> round_to 24 (- 149) 1" by (intro round_to_mono assms) simp
  also have "\<dots> = 1" by (rule round_to_exact[where m = 1 and e = 0]) auto
  also have "\<dots> < 2 powi 128" by simp
  finally have "round_to 24 (- 149) x < 2 powi 128" .
  moreover have "0 \<le> round_to 24 (- 149) x" by (rule round_to_nonneg[OF assms(1)])
  moreover have "- (2 powi 128) < (0::rat)" by simp
  ultimately show ?thesis by (auto simp: to_f32_def pack_cases Let_def)
qed

lemma to_f32_of_nat:
  assumes "n < 2 ^ 24"
  shows "to_f32 (of_nat n) = Fin (of_nat n)"
proof -
  have n: "(of_nat n :: rat) < 2 powi 24" using assms by (simp add: power_int_def flip: of_nat_less_iff)
  have r: "round_to 24 (- 149) (of_nat n) = of_nat n"
    by (rule round_to_exact[where m = "int n" and e = 0]) (use n in auto)
  have "(2::rat) powi 24 \<le> 2 powi 128" by (intro power_int_increasing) auto
  with n have "(of_nat n :: rat) < 2 powi 128" by linarith
  moreover have "- (2 powi 128) < (of_nat n :: rat)" by (rule less_le_trans[of _ 0]) auto
  ultimately show ?thesis by (auto simp: to_f32_def pack_cases Let_def r)
qed

text \<open>Below a million files the rounding of the ratio never matters.\<close>

lemma threshold_gap: "round_to 24 (- 149) (9 / 10 - 1 / 10000000) < round_to 24 (- 149) (9 / 10)"
  by code_simp

lemma adoption_strict:
  assumes "w \<le> n" "n \<le> 1000000"
  shows "fle ADOPTION_STRICT_THRESHOLD (adoption w n) \<longleftrightarrow> 0 < n \<and> 9 * n \<le> 10 * w"
proof (cases "n = 0")
  case True
  have "\<not> fle (to_f32 (9 / 10)) (Fin 0)" by code_simp
  with True show ?thesis by (simp add: adoption_def ADOPTION_STRICT_THRESHOLD_def)
next
  case False
  let ?x = "of_nat w / of_nat n :: rat"
  have x: "0 \<le> ?x" "?x \<le> 1" using assms(1) False by (simp_all add: divide_le_eq_1)
  have "adoption w n = Fin (round_to 24 (- 149) ?x)"
    using False assms by (simp add: adoption_def to_f32_of_nat to_f32_unit[OF x])
  then have le: "fle ADOPTION_STRICT_THRESHOLD (adoption w n) \<longleftrightarrow> round_to 24 (- 149) (9 / 10) \<le> round_to 24 (- 149) ?x"
    by (simp add: ADOPTION_STRICT_THRESHOLD_def to_f32_unit)
  show ?thesis
  proof (cases "9 * n \<le> 10 * w")
    case True
    then have "(9 / 10 :: rat) \<le> ?x" using False by (simp add: field_simps flip: of_nat_mult of_nat_le_iff)
    then have "round_to 24 (- 149) (9 / 10) \<le> round_to 24 (- 149) ?x" by (intro round_to_mono) auto
    with True False show ?thesis by (simp add: le)
  next
    case less: False
    then have "of_nat (10 * w + 1) \<le> (of_nat (9 * n) :: rat)" by (intro of_nat_mono) simp
    then have "?x \<le> 9 / 10 - 1 / (10 * of_nat n)" using False by (simp add: field_simps)
    moreover have "1 / 10000000 \<le> (1 / (10 * of_nat n) :: rat)"
      using False assms(2) by (simp add: field_simps flip: of_nat_le_iff)
    ultimately have "?x \<le> 9 / 10 - 1 / 10000000" by linarith
    then have "round_to 24 (- 149) ?x \<le> round_to 24 (- 149) (9 / 10 - 1 / 10000000)" by (intro round_to_mono) auto
    with threshold_gap less show ?thesis by (simp add: le)
  qed
qed

text \<open>What the report says of each file, apart from how it is computed: which entries are capability files, which
  of them carry entity declarations, and which are material failures.\<close>

definition capability_file :: "dir_entry \<Rightarrow> bool" where
  "capability_file e \<longleftrightarrow> de_is_file e
     \<and> (\<exists>n. de_name e = Some n \<and> (\<exists>a. n = ''capability-'' @ a) \<and> (\<exists>b. n = b @ ''.yaml'' \<or> n = b @ ''.yml''))"

definition declares :: "file_reader \<Rightarrow> (string \<Rightarrow> (capability_contract, string) result) \<Rightarrow> string \<Rightarrow> bool" where
  "declares read_file parse path \<longleftrightarrow> (\<exists>raw cap. read_file path = Ok raw \<and> parse raw = Ok cap
     \<and> (cap_reads cap \<noteq> [] \<or> cap_writes cap \<noteq> [] \<or> cap_emits cap \<noteq> []))"

definition material :: "file_reader \<Rightarrow> (string \<Rightarrow> (capability_contract, string) result) \<Rightarrow> string \<Rightarrow> bool" where
  "material read_file parse path =
     (case read_file path of
        Inl _ \<Rightarrow> True
      | Inr raw \<Rightarrow> (case parse raw of
          Inl _ \<Rightarrow> True
        | Inr cap \<Rightarrow> cap_side_effect cap \<in> {SE_Write, SE_Delete, SE_Send, SE_Payment}
            \<and> cap_reads cap = [] \<and> cap_writes cap = [] \<and> cap_emits cap = []))"

lemma lint_selected_iff: "lint_selected e \<longleftrightarrow> capability_file e"
  by (auto simp: lint_selected_def capability_file_def Let_def starts_with_iff ends_with_iff split: option.splits)

lemma lint_file_path [simp]: "lf_path (lint_file read_file parse path) = path"
  by (simp add: lint_file_def split: sum.splits prod.splits)

lemma lint_file_severity:
  "lf_severity (lint_file read_file parse path) =
     (if declares read_file parse path then Sev_Ok else if material read_file parse path then Sev_Error else Sev_Warn)"
  by (auto simp: lint_file_def declares_def material_def lint_classify_def Let_def split: sum.splits side_effect.splits)

lemma not_declares_material: "material read_file parse path \<Longrightarrow> \<not> declares read_file parse path"
  by (auto simp: declares_def material_def split: sum.splits)

lemma downgrade_simps [simp]: "lf_path (downgrade f) = lf_path f"
  "lf_severity (downgrade f) = (if lf_severity f = Sev_Error then Sev_Warn else lf_severity f)"
  by (auto simp: downgrade_def)

text \<open>C38. The lint report is exact. It covers every capability file of the directory once, in path
  order, and counts those that carry an entity declaration; the mode is strict exactly when the scan is not empty and these are
  at least nine tenths of it (for up to a million files the rounding of the ratio never decides). A file with a declaration
  is reported Ok; one that cannot be read, cannot be parsed, or has a write-class side effect without any declaration
  is reported as an error in strict mode and as a warning otherwise; every other file is a warning.
  So the report has errors exactly in strict mode with a file of the second kind.\<close>

theorem lint_report_exact:
  assumes "read_dir dir = Ok entries" "length entries \<le> 1000000"
    and "lint_directory read_dir read_file parse dir = Ok r"
  shows "lrp_scanned r = length (filter capability_file entries)
    \<and> lrp_with_declarations r = length (filter (\<lambda>e. capability_file e \<and> declares read_file parse (de_path e)) entries)
    \<and> (lrp_strict r \<longleftrightarrow> 0 < lrp_scanned r \<and> 9 * lrp_scanned r \<le> 10 * lrp_with_declarations r)
    \<and> map (\<lambda>f. (lf_path f, lf_severity f)) (lrp_findings r) =
        map (\<lambda>p. (p, if declares read_file parse p then Sev_Ok
                     else if lrp_strict r \<and> material read_file parse p then Sev_Error else Sev_Warn))
          (sort (map de_path (filter capability_file entries)))
    \<and> (has_errors r \<longleftrightarrow> lrp_strict r \<and> (\<exists>e \<in> set entries. capability_file e \<and> material read_file parse (de_path e)))"
proof -
  let ?ps = "sort (map de_path (filter capability_file entries))"
  let ?fs = "map (lint_file read_file parse) ?ps"
  let ?w = "length (filter (\<lambda>f. lf_severity f = Sev_Ok) ?fs)"
  have len: "length ?fs \<le> 1000000" using le_trans[OF length_filter_le assms(2)] by simp
  have "?w \<le> length ?fs" by (rule length_filter_le)
  note strict = adoption_strict[OF this len]
  have r: "r = \<lparr>lrp_scanned = length ?fs, lrp_with_declarations = ?w, lrp_adoption_ratio = adoption ?w (length ?fs),
      lrp_strict = fle ADOPTION_STRICT_THRESHOLD (adoption ?w (length ?fs)),
      lrp_findings = (if fle ADOPTION_STRICT_THRESHOLD (adoption ?w (length ?fs)) then ?fs else map downgrade ?fs)\<rparr>"
    using assms(1,3) by (simp add: lint_directory_def bind_result_def Let_def lint_selected_iff[abs_def])
  have "?w = length (filter (declares read_file parse) ?ps)"
    by (simp add: filter_map comp_def lint_file_severity if_distrib[of "\<lambda>s. s = Sev_Ok"] cong: if_cong)
  also have "\<dots> = length (filter (\<lambda>e. declares read_file parse (de_path e)) (filter capability_file entries))"
    unfolding filter_sort length_sort by (simp add: filter_map comp_def del: filter_filter)
  finally have w: "lrp_with_declarations r = length (filter (\<lambda>e. capability_file e \<and> declares read_file parse (de_path e)) entries)"
    by (simp add: r)
  have "has_errors r \<longleftrightarrow> lrp_strict r \<and> (\<exists>p \<in> set ?ps. material read_file parse p)"
    by (auto simp: has_errors_def list_ex_iff r lint_file_severity not_declares_material)
  moreover have "map (\<lambda>f. (lf_path f, lf_severity f)) (lrp_findings r) =
      map (\<lambda>p. (p, if declares read_file parse p then Sev_Ok
                     else if lrp_strict r \<and> material read_file parse p then Sev_Error else Sev_Warn)) ?ps"
    by (simp add: r lint_file_severity)
  ultimately show ?thesis using strict w by (auto simp: r)
qed

definition ex_dir :: "dir_entry list" where
  "ex_dir = [\<lparr>de_path = ''d/capability-w.yaml'', de_name = Some ''capability-w.yaml'', de_is_file = True\<rparr>,
     \<lparr>de_path = ''d/notes.txt'', de_name = Some ''notes.txt'', de_is_file = True\<rparr>]"

theorem lint_report_exact_witness:
  "\<exists>r. lint_directory (\<lambda>_. Ok ex_dir) (\<lambda>_. Ok ''x'') (\<lambda>_. Err ''bad'') ''d'' = Ok r
     \<and> map (\<lambda>f. (lf_path f, lf_severity f)) (lrp_findings r) = [(''d/capability-w.yaml'', Sev_Warn)]
     \<and> \<not> lrp_strict r \<and> \<not> has_errors r"
proof -
  obtain r where r: "lint_directory (\<lambda>_. Ok ex_dir) (\<lambda>_. Ok ''x'') (\<lambda>_. Err ''bad'') ''d'' = Ok r"
    by (auto simp: lint_directory_def bind_result_def Let_def)
  have sel: "filter capability_file ex_dir = [\<lparr>de_path = ''d/capability-w.yaml'', de_name = Some ''capability-w.yaml'', de_is_file = True\<rparr>]"
    unfolding lint_selected_iff[abs_def, symmetric] by code_simp
  have "length ex_dir \<le> 1000000" by (simp add: ex_dir_def)
  note exact = lint_report_exact[OF refl this r]
  have "lrp_with_declarations r = 0" "lrp_scanned r = 1" using exact sel by (simp_all add: declares_def)
  with exact sel r show ?thesis by (auto simp: declares_def)
qed

section \<open>What an import yields\<close>

text \<open>One proposal per schema, in order of their ids; only a string schema without properties has no
  field.\<close>

lemma import_openapi_Ok:
  assumes "import_openapi from_yaml from_json raw = Ok ps"
  shows "\<exists>(doc :: openapi_doc) schemas. od_schemas doc = Some schemas \<and> schemas \<noteq> [] \<and> length ps = length schemas
    \<and> sorted (map ep_id ps)
    \<and> (\<forall>p \<in> set ps. \<exists>n s. (n, s) \<in> set schemas \<and> ep_description p = os_description s
         \<and> (ep_fields p = [] \<longleftrightarrow> os_properties s = [] \<and> os_type s = Some ''string''))"
proof -
  from assms obtain doc :: openapi_doc where "(case od_schemas doc of None \<Rightarrow> Err NotOpenApi | Some schemas \<Rightarrow>
      if schemas = [] then Err NotOpenApi
      else let sl = (if od_title doc = [] then ''imported'' else slugify (od_title doc))
           in Ok (sort_key ep_id (map (proposal_of sl) schemas))) = Ok ps"
    unfolding import_openapi_def bind_result_Ok_iff by blast
  then obtain schemas where d: "od_schemas doc = Some schemas" "schemas \<noteq> []"
    and "ps = sort_key ep_id (map (proposal_of (if od_title doc = [] then ''imported'' else slugify (od_title doc))) schemas)"
    by (simp add: Let_def split: option.splits if_splits)
  then obtain sl where ps: "ps = sort_key ep_id (map (proposal_of sl) schemas)" by blast
  have "\<exists>n s. (n, s) \<in> set schemas \<and> ep_description p = os_description s
      \<and> (ep_fields p = [] \<longleftrightarrow> os_properties s = [] \<and> os_type s = Some ''string'')" if "p \<in> set ps" for p
  proof -
    from that obtain n s where "(n, s) \<in> set schemas" "p = proposal_of sl (n, s)" by (auto simp: ps)
    then show ?thesis by (intro exI[of _ n] exI[of _ s]) (auto simp: proposal_of_def Let_def)
  qed
  with d show ?thesis by (intro exI[of _ doc] exI[of _ schemas]) (simp add: ps)
qed

end
