(* ===== verification/Server.thy ===== *)
theory Server
  imports Lint Intent Planner Executor
begin

text \<open>
  The reference server (\<open>aaf-server/src/main.rs\<close>, \<open>config.rs\<close>, \<open>identity.rs\<close>): configuration and seeding of
  the registry, the run command that takes a goal through compilation, planning and execution, the
  other subcommands, and the identity commands. Each command returns the values the source
  prints; files, YAML parsing and printing are arguments or left out. An \<open>Err\<close> result is a non-zero
  exit; a usage message is an \<open>Ok\<close> result of its own.
\<close>

section \<open>Configuration\<close>

record project_config =
  pc_name :: string
  pc_version :: string

definition project_config_default :: project_config where
  "project_config_default = \<lparr>pc_name = ''aaf-demo'', pc_version = ''0.1.0''\<rparr>"

text \<open>\<open>BudgetSection\<close> has the fields of a budget contract.\<close>

type_synonym budget_section = budget_contract

definition budget_section_default :: budget_section where
  "budget_section_default = \<lparr>max_tokens = 5000, max_cost_usd = to_f64 1, max_latency_ms = 30000\<rparr>"

record capability_seed =
  csd_id :: string
  csd_seed_name :: string
  csd_seed_description :: string
  csd_domains :: "string list"
  csd_required_scope :: string
  csd_side_effect :: string
  csd_deterministic :: bool

record demo_config =
  dm_goal :: string
  dm_domain :: string
  dm_role :: string
  dm_scopes :: "string list"

definition demo_config_default :: demo_config where
  "demo_config_default = \<lparr>dm_goal = ''show last month sales by region'', dm_domain = ''sales'', dm_role = ''analyst'',
     dm_scopes = [''sales:read'']\<rparr>"

record server_config =
  sc_project :: project_config
  sc_budget :: budget_section
  sc_capabilities :: "capability_seed list"
  sc_demo :: demo_config

definition server_config_default :: server_config where
  "server_config_default = \<lparr>sc_project = project_config_default, sc_budget = budget_section_default,
     sc_capabilities = [], sc_demo = demo_config_default\<rparr>"

datatype config_error = ConfigIo string | ConfigParse string

definition config_from_path :: "file_reader \<Rightarrow> (string \<Rightarrow> (server_config, string) result) \<Rightarrow> string \<Rightarrow> (server_config, config_error) result" where
  "config_from_path read_file parse path =
     (case read_file path of
        Inl e \<Rightarrow> Err (ConfigIo e)
      | Inr raw \<Rightarrow> (case parse raw of Inl e \<Rightarrow> Err (ConfigParse e) | Inr cfg \<Rightarrow> Ok cfg))"

definition load_config_at ::
  "(string \<Rightarrow> bool) \<Rightarrow> file_reader \<Rightarrow> (string \<Rightarrow> (server_config, string) result) \<Rightarrow> string \<Rightarrow> (server_config, config_error) result" where
  "load_config_at path_exists read_file parse path =
     (if path_exists path then config_from_path read_file parse path else Ok server_config_default)"

section \<open>Seeding the registry\<close>

definition parse_side_effect :: "string \<Rightarrow> side_effect" where
  "parse_side_effect s =
     (if s = ''none'' then SE_None else if s = ''write'' then SE_Write else if s = ''delete'' then SE_Delete
      else if s = ''send'' then SE_Send else if s = ''payment'' then SE_Payment else SE_Read)"

text \<open>The derived defaults: zeros, and an empty currency.\<close>

definition capability_sla_default :: capability_sla where
  "capability_sla_default = \<lparr>latency_p50_ms = 0, latency_p99_ms = 0, availability = Fin 0\<rparr>"

definition capability_cost_default :: capability_cost where
  "capability_cost_default = \<lparr>per_request = Fin 0, currency = []\<rparr>"

definition seed_to_capability :: "capability_seed \<Rightarrow> capability_contract" where
  "seed_to_capability sd =
     \<lparr>cap_id = csd_id sd, cap_name = csd_seed_name sd, cap_description = csd_seed_description sd,
      cap_version = ''1.0.0'', cap_provider_agent = ''seed'',
      cap_endpoint = \<lparr>ep_kind = InProcess, ep_address = csd_id sd, ep_method = None\<rparr>,
      cap_input_schema = JObject [], cap_output_schema = JObject [],
      cap_side_effect = parse_side_effect (csd_side_effect sd), cap_idempotent = True, cap_reversible = True,
      cap_deterministic = csd_deterministic sd,
      cap_compensation = (if requires_compensation (parse_side_effect (csd_side_effect sd))
        then Some \<lparr>comp_endpoint = csd_id sd @ ''-compensate''\<rparr> else None),
      cap_sla = capability_sla_default, cap_cost = capability_cost_default,
      cap_required_scope = csd_required_scope sd, cap_data_classification = DC_Internal, cap_degradation = [],
      cap_depends_on = [], cap_conflicts_with = [], cap_tags = [], cap_domains = csd_domains sd, cap_reads = [],
      cap_writes = [], cap_emits = [], cap_entity_scope = None, cap_required_attestation_level = None,
      cap_reputation = to_f32 (1 / 2), cap_learned_rules = []\<rparr>"

definition default_seed :: capability_seed where
  "default_seed = \<lparr>csd_id = ''cap-sales-monthly'', csd_seed_name = ''monthly sales report'',
     csd_seed_description = ''monthly sales report grouped by region'', csd_domains = [''sales''],
     csd_required_scope = ''sales:read'', csd_side_effect = ''read'', csd_deterministic = True\<rparr>"

definition config_seeds :: "server_config \<Rightarrow> capability_seed list" where
  "config_seeds cfg = (if sc_capabilities cfg = [] then [default_seed] else sc_capabilities cfg)"

fun register_seeds :: "capability_seed list \<Rightarrow> registry \<Rightarrow> (registry, registry_error) result" where
  "register_seeds [] g = Ok g"
| "register_seeds (sd # sds) g =
     (case registry_register g (seed_to_capability sd) of
        (g', Inl e) \<Rightarrow> Err e | (g', Inr _) \<Rightarrow> register_seeds sds g')"

definition seed_registry :: "server_config \<Rightarrow> (registry, registry_error) result" where
  "seed_registry cfg = register_seeds (config_seeds cfg) registry_in_memory"

section \<open>The run command\<close>

datatype server_error = SvConfig config_error | SvRegistry registry_error | SvIntent intent_error
  | SvPlanner planner_error | SvGraph graph_validation_error | SvRuntime runtime_error | SvRecorder recorder_error
  | SvIdentity identity_error | SvImport import_error | SvIo string | SvUsage string

text \<open>Fresh identifiers, the current time, the regular expressions, the JSON printer and the measured
  durations of one run.\<close>

record run_env =
  rv_crypto :: crypto
  rv_re_find :: "extractor_pattern \<Rightarrow> string \<Rightarrow> string option"
  rv_is_match :: "string \<Rightarrow> string \<Rightarrow> bool"
  rv_intent_id :: string
  rv_trace_id :: string
  rv_now :: timestamp
  rv_output_ids :: "nat \<Rightarrow> string"
  rv_to_string :: "json \<Rightarrow> string"
  rv_clock :: clock
  rv_latency :: u64
  rv_elapsed :: "string \<Rightarrow> u64"
  rv_agent_dur :: "string \<Rightarrow> u64 \<times> (nat \<Rightarrow> u64)"

definition default_compiler :: "run_env \<Rightarrow> compile_env" where
  "default_compiler v = \<lparr>ce_crypto = rv_crypto v, ce_classify = rule_classify, ce_extract = rule_extract (rv_re_find v),
     ce_fresh_id = rv_intent_id v, ce_fresh_trace = rv_trace_id v, ce_now = rv_now v\<rparr>"

text \<open>The demo executor: an in-process handler for every registered capability, under its name.\<close>

definition demo_handler :: "string \<Rightarrow> json \<Rightarrow> (json, string) result" where
  "demo_handler name input = Ok (json_object [(''service'', JString name), (''status'', JString ''ok''), (''input_received'', input)])"

definition demo_invoker :: "registry \<Rightarrow> in_process_invoker" where
  "demo_invoker g = fold (\<lambda>cap inv. ipi_register inv (cap_name cap) (demo_handler (cap_name cap))) (registry_list g) ipi_new"

definition demo_executor :: "run_env \<Rightarrow> registry \<Rightarrow> in_process_invoker tool_executor" where
  "demo_executor v g = governing_execute (rv_to_string v) g (ipi_invoke (rv_latency v))"

definition demo_node :: "run_env \<Rightarrow> registry \<Rightarrow> planned_step \<Rightarrow> in_process_invoker node" where
  "demo_node v g s =
     (let nid = pst_capability s
      in if pst_kind s = PK_Agent
         then node_of_agent (rv_agent_dur v nid)
                (with_tools
                  (agent_node_new nid (mock_chat ''mock'' (to_f64 (1 / 1000)))
                     ''You are an AAF agent. Use the tools provided to accomplish the goal.'' ''mock-model'' 1024)
                  (case registry_get g nid of Inr cap \<Rightarrow> [tool_of_capability cap] | Inl _ \<Rightarrow> [])
                  (demo_executor v g))
         else deterministic_node (rv_elapsed v nid) nid SE_Read (\<lambda>w _ _. (w, Ok (json_object [(''rows'', JInt 47)]))))"

fun materialise ::
  "run_env \<Rightarrow> registry \<Rightarrow> planned_step list \<Rightarrow> in_process_invoker node graph_builder \<Rightarrow> string option
     \<Rightarrow> in_process_invoker node graph_builder" where
  "materialise v g [] b prev = b"
| "materialise v g (s # ss) b prev =
     (let nid = pst_capability s;
          b1 = add_node nd_id b (demo_node v g s);
          b2 = (case prev of Some p \<Rightarrow> add_edge b1 p nid | None \<Rightarrow> b1)
      in materialise v g ss b2 (Some nid))"

datatype run_report =
    RunNeedsRefinement "clarification list"
  | RunFinished intent_envelope execution_plan execution_outcome execution_trace

definition run_bounds :: "server_config \<Rightarrow> bounded_autonomy" where
  "run_bounds cfg = \<lparr>ba_max_steps = 10, ba_max_depth = 5, ba_max_cost_usd = max_cost_usd (sc_budget cfg),
     ba_max_latency_ms = max_latency_ms (sc_budget cfg)\<rparr>"

definition demo_requester :: "server_config \<Rightarrow> requester" where
  "demo_requester cfg = \<lparr>rq_user_id = ''demo'', rq_role = dm_role (sc_demo cfg), rq_scopes = dm_scopes (sc_demo cfg),
     rq_tenant = None\<rparr>"

text \<open>From the plan on; no value is a graph build that does not end.\<close>

definition execute_plan ::
  "run_env \<Rightarrow> registry \<Rightarrow> intent_envelope \<Rightarrow> execution_plan \<Rightarrow> (run_report, server_error) result option" where
  "execute_plan v g intent plan =
     (case builder_build (materialise v g (plan_steps plan) builder_new None) of
        None \<Rightarrow> None
      | Some (Inl e) \<Rightarrow> Some (Err (SvGraph e))
      | Some (Inr graph) \<Rightarrow>
          Some (case executor_run (rv_to_string v) (rv_clock v) (executor_new (with_default_rules (rv_is_match v))) graph intent
                       \<lparr>xs_world = demo_invoker g, xs_recorder = recorder_in_memory,
                        xs_budget = budget_tracker_new (int_budget intent)\<rparr> of
                  (st, Inl e) \<Rightarrow> Err (SvRuntime e)
                | (st, Inr outcome) \<Rightarrow>
                    (case recorder_get (xs_recorder st) (int_trace_id intent) of
                       Inl e \<Rightarrow> Err (SvRecorder e)
                     | Inr t \<Rightarrow> Ok (RunFinished intent plan outcome t))))"

definition run_config :: "run_env \<Rightarrow> server_config \<Rightarrow> (run_report, server_error) result option" where
  "run_config v cfg =
     (case seed_registry cfg of
        Inl e \<Rightarrow> Some (Err (SvRegistry e))
      | Inr g \<Rightarrow>
          (case snd (compile (default_compiler v) [] (dm_goal (sc_demo cfg)) (demo_requester cfg) (dm_domain (sc_demo cfg)) (sc_budget cfg)) of
             Inl e \<Rightarrow> Some (Err (SvIntent e))
           | Inr (NeedsRefinement qs) \<Rightarrow> Some (Ok (RunNeedsRefinement qs))
           | Inr (Compiled intent) \<Rightarrow>
               (case snd (planner_plan (rv_crypto v) (rv_output_ids v) (planner_new g (run_bounds cfg) composition_default) intent) of
                  Inl e \<Rightarrow> Some (Err (SvPlanner e))
                | Inr plan \<Rightarrow> execute_plan v g intent plan)))"

definition cmd_run ::
  "run_env \<Rightarrow> (string \<Rightarrow> bool) \<Rightarrow> file_reader \<Rightarrow> (string \<Rightarrow> (server_config, string) result) \<Rightarrow> string list
     \<Rightarrow> (run_report, server_error) result option" where
  "cmd_run v path_exists read_file parse args =
     (case load_config_at path_exists read_file parse (case args of p # _ \<Rightarrow> p | [] \<Rightarrow> ''aaf.yaml'') of
        Inl e \<Rightarrow> Some (Err (SvConfig e))
      | Inr cfg \<Rightarrow> run_config v cfg)"

section \<open>Seeded registries\<close>

lemma cap_id_seed [simp]: "cap_id (seed_to_capability sd) = csd_id sd"
  by (simp add: seed_to_capability_def)

lemma registry_list_new [simp]: "registry_list registry_in_memory = []"
  by code_simp

lemma seed_valid: "validate_capability (seed_to_capability sd) = Ok () \<longleftrightarrow> trim (csd_seed_name sd) \<noteq> []"
proof -
  have "trim ''1.0.0'' \<noteq> []" by code_simp
  then show ?thesis by (simp add: validate_capability_Ok_iff seed_to_capability_def)
qed

text \<open>A seed is refused only for a blank name: its compensation is always filled in.\<close>

lemma register_seeds_ok: "is_ok (register_seeds sds g) \<longleftrightarrow> (\<forall>sd \<in> set sds. trim (csd_seed_name sd) \<noteq> [])"
proof (induction sds arbitrary: g)
  case (Cons sd sds)
  show ?case
  proof (cases "trim (csd_seed_name sd) = []")
    case True
    then have "validate_capability (seed_to_capability sd) \<noteq> Ok ()" by (simp add: seed_valid)
    then show ?thesis using True by (cases "validate_capability (seed_to_capability sd)") (auto simp: registry_register_def is_ok_def)
  next
    case False
    then have "validate_capability (seed_to_capability sd) = Ok ()" by (simp add: seed_valid)
    with False Cons show ?thesis by (simp add: registry_register_def)
  qed
qed (simp add: is_ok_def)

lemma register_seeds_reachable:
  assumes "register_seeds sds g = Ok g'" "registry_reachable g"
  shows "registry_reachable g' \<and> set (registry_list g') \<subseteq> set (registry_list g) \<union> seed_to_capability ` set sds"
  using assms
proof (induction sds arbitrary: g)
  case (Cons sd sds)
  let ?g = "fst (registry_register g (seed_to_capability sd))"
  have next_reg: "register_seeds sds ?g = Ok g'"
    using Cons.prems(1) by (simp split: prod.splits sum.splits)
  have reach: "registry_reachable ?g" by (rule rr_register[OF Cons.prems(2)])
  have "set (registry_list ?g) \<subseteq> insert (seed_to_capability sd) (set (registry_list g))"
    using registry_reachable_inv[OF Cons.prems(2)]
    by (auto simp: registry_register_def registry_list_def registry_inv_def capability_store.list_put split: sum.splits)
  with Cons.IH[OF next_reg reach] show ?case by auto
qed simp

section \<open>The demo graph is a chain\<close>

lemma nd_id_demo_node [simp]: "nd_id (demo_node v g s) = pst_capability s"
  by (simp add: demo_node_def Let_def node_of_agent_def with_tools_def agent_node_new_def deterministic_node_def)

text \<open>Whatever a capability declares, its node is built as a read or as an agent without side effect, so
  the side-effect gate of the executor never applies to a demo run.\<close>

lemma demo_node_not_gated: "\<not> is_write_class (nd_side_effect (demo_node v g s))"
  by (simp add: demo_node_def Let_def node_of_agent_def deterministic_node_def is_write_class_def)

definition chain_edges :: "string option \<Rightarrow> string list \<Rightarrow> edge list" where
  "chain_edges prev ks = (case prev of Some p \<Rightarrow> zip (p # ks) ks | None \<Rightarrow> zip ks (tl ks))"

lemma chain_edges_Cons:
  "chain_edges prev (k # ks) = (case prev of Some p \<Rightarrow> [(p, k)] | None \<Rightarrow> []) @ chain_edges (Some k) ks"
  by (simp add: chain_edges_def split: option.splits)

lemma update_new: "k \<notin> fst ` set m \<Longrightarrow> AList.update k v m = m @ [(k, v)]"
  by (induction m) auto

lemma materialise_eq:
  assumes "distinct (map pst_capability ss)" "pst_capability ` set ss \<inter> fst ` set (gb_nodes b) = {}"
  shows "materialise v g ss b prev =
    b\<lparr>gb_nodes := gb_nodes b @ map (\<lambda>s. (pst_capability s, demo_node v g s)) ss,
      gb_edges := gb_edges b @ chain_edges prev (map pst_capability ss)\<rparr>"
  using assms
proof (induction ss arbitrary: b prev)
  case Nil
  show ?case by (simp add: chain_edges_def split: option.splits)
next
  case (Cons s ss)
  let ?b = "case prev of Some p \<Rightarrow> add_edge (add_node nd_id b (demo_node v g s)) p (pst_capability s)
    | None \<Rightarrow> add_node nd_id b (demo_node v g s)"
  have b: "gb_nodes ?b = gb_nodes b @ [(pst_capability s, demo_node v g s)]"
    "gb_edges ?b = gb_edges b @ (case prev of Some p \<Rightarrow> [(p, pst_capability s)] | None \<Rightarrow> [])"
    "gb_compensators ?b = gb_compensators b"
    using Cons.prems by (auto simp: add_edge_def add_node_def update_new split: option.splits)
  have "materialise v g ss ?b (Some (pst_capability s)) =
    ?b\<lparr>gb_nodes := gb_nodes ?b @ map (\<lambda>s. (pst_capability s, demo_node v g s)) ss,
      gb_edges := gb_edges ?b @ chain_edges (Some (pst_capability s)) (map pst_capability ss)\<rparr>"
    using Cons.prems by (intro Cons.IH) (auto simp: b(1))
  then show ?case by (simp add: Let_def b chain_edges_Cons graph_builder.equality)
qed

lemma zip_tl_adjacent: "(a, b) \<in> set (zip ks (tl ks)) \<Longrightarrow> \<exists>xs zs. ks = xs @ a # b # zs"
proof (induction ks)
  case (Cons k ks)
  show ?case
  proof (cases ks)
    case (Cons k' r)
    with Cons.prems have "(a = k \<and> b = k') \<or> (a, b) \<in> set (zip ks (tl ks))" by auto
    with Cons.IH Cons show ?thesis by (metis append_Cons append_Nil)
  qed (use Cons.prems in simp)
qed simp

text \<open>A chain has only one topological order.\<close>

lemma chain_order:
  assumes "distinct ks" "distinct ord" "set ord = set ks"
    and "\<And>a b. (a, b) \<in> set (zip ks (tl ks)) \<Longrightarrow> \<exists>xs ys zs. ord = xs @ a # ys @ b # zs"
  shows "ord = ks"
proof -
  define pos where "pos = the_inv_into {..<length ord} (nth ord)"
  have pos: "pos (ord ! i) = i" if "i < length ord" for i
    unfolding pos_def using that assms(2) by (intro the_inv_into_f_f) (auto simp: inj_on_nth)
  have less: "pos a < pos b" if ab: "(a, b) \<in> set (zip ks (tl ks))" for a b
  proof -
    from assms(4)[OF ab] obtain xs ys zs where o: "ord = xs @ a # ys @ b # zs" by blast
    have "pos (ord ! length xs) = length xs" "pos (ord ! (length xs + 1 + length ys)) = length xs + 1 + length ys"
      by (intro pos; simp add: o)+
    then show ?thesis by (simp add: o nth_append)
  qed
  have "sorted_wrt (<) (map pos ks)"
  proof (subst sorted_wrt_iff_nth_Suc_transp, simp, intro allI impI)
    fix i assume i: "Suc i < length (map pos ks)"
    then have "(ks ! i, ks ! Suc i) \<in> set (zip ks (tl ks))" by (auto simp: set_zip nth_tl intro!: exI[of _ i])
    with less i show "map pos ks ! i < map pos ks ! Suc i" by simp
  qed
  moreover have upt: "map pos ord = [0..<length ord]" by (rule nth_equalityI) (simp_all add: pos)
  moreover have "set (map pos ord) = set (map pos ks)" using assms(3) by simp
  ultimately have "map pos ord = map pos ks"
    by (intro sorted_distinct_set_unique) (simp_all add: strict_sorted_iff)
  moreover have "inj_on pos (set ord \<union> set ks)"
    unfolding assms(3) Un_absorb unfolding assms(3)[symmetric] by (metis distinct_map distinct_upt upt)
  ultimately show ?thesis using inj_on_map_eq_map by blast
qed

lemma validate_chain:
  fixes nodes :: "(string \<times> 'n) list"
  assumes "map fst nodes = ks" "nodes \<noteq> []" "distinct ks"
  shows "\<exists>graph. validate_with_compensators nodes (zip ks (tl ks)) [] = Some (Ok graph)
    \<and> gr_nodes graph = nodes \<and> gr_order graph = ks \<and> gr_compensators graph = []"
proof -
  let ?es = "zip ks (tl ks)"
  have d: "distinct (map fst nodes)" and ids: "fst ` set nodes = set ks" using assms by (auto simp flip: assms(1))
  have adj: "\<exists>xs ys zs. ks = xs @ a # ys @ b # zs" if "(a, b) \<in> set ?es" for a b
    using zip_tl_adjacent[OF that] by (metis append_Nil)
  have sub: "set ?es \<subseteq> set ks \<times> set ks"
  proof (rule subrelI)
    fix a b assume "(a, b) \<in> set ?es"
    from adj[OF this] obtain xs ys zs where "ks = xs @ a # ys @ b # zs" by blast
    then show "(a, b) \<in> set ks \<times> set ks" by simp
  qed
  have "acyclic (set ?es)" by (rule before_acyclic[OF assms(3) adj])
  with sub assms(2) have ok: "nodes \<noteq> [] \<and> set ?es \<subseteq> fst ` set nodes \<times> fst ` set nodes
      \<and> fst ` set ([] :: (string \<times> 'n) list) \<subseteq> fst ` set nodes \<and> acyclic (set ?es)" by (simp add: ids)
  from validate_unfold[OF d, of ?es "[]"] obtain r where r: "validate_with_compensators nodes ?es [] = Some r" and
    c: "case r of
       Inl e \<Rightarrow> \<not> (nodes \<noteq> [] \<and> set ?es \<subseteq> fst ` set nodes \<times> fst ` set nodes \<and> fst ` set ([] :: (string \<times> 'n) list) \<subseteq> fst ` set nodes \<and> acyclic (set ?es))
     | Inr g \<Rightarrow> nodes \<noteq> [] \<and> set ?es \<subseteq> fst ` set nodes \<times> fst ` set nodes \<and> fst ` set ([] :: (string \<times> 'n) list) \<subseteq> fst ` set nodes
         \<and> kahn_inv (fst ` set nodes) ?es [] (gr_order g) \<and> set (gr_order g) = fst ` set nodes
         \<and> gr_nodes g = nodes \<and> gr_edges g = ?es \<and> gr_compensators g = []" by blast
  from c ok obtain graph where gr: "r = Ok graph" "kahn_inv (set ks) ?es [] (gr_order graph)"
    "set (gr_order graph) = set ks" "gr_nodes graph = nodes" "gr_compensators graph = []"
    by (cases r) (simp_all add: ids)
  have "gr_order graph = ks"
  proof (rule chain_order[OF assms(3) _ gr(3)])
    show "distinct (gr_order graph)" using gr(2) by (simp add: kahn_inv_def)
    show "\<exists>xs ys zs. gr_order graph = xs @ a # ys @ b # zs" if "(a, b) \<in> set ?es" for a b
      using kahn_inv_before[OF gr(2) that] that sub unfolding gr(3) by blast
  qed
  with gr r show ?thesis by simp
qed

lemma chain_build:
  assumes "ss \<noteq> []" "distinct (map pst_capability ss)"
  shows "\<exists>graph. builder_build (materialise v g ss builder_new None) = Some (Ok graph)
    \<and> gr_nodes graph = map (\<lambda>s. (pst_capability s, demo_node v g s)) ss \<and> gr_order graph = map pst_capability ss
    \<and> gr_compensators graph = []"
proof -
  have "materialise v g ss builder_new None = \<lparr>gb_nodes = map (\<lambda>s. (pst_capability s, demo_node v g s)) ss,
      gb_edges = zip (map pst_capability ss) (tl (map pst_capability ss)), gb_compensators = []\<rparr>"
    using assms(2) by (subst materialise_eq) (simp_all add: builder_new_def chain_edges_def)
  then show ?thesis
    using validate_chain[of "map (\<lambda>s. (pst_capability s, demo_node v g s)) ss", OF _ _ assms(2)] assms(1)
    by (simp add: builder_build_def comp_def)
qed

section \<open>What a run guarantees\<close>

lemma compile_Compiled:
  assumes "compile v [] raw req domain budget = (cache, Ok (Compiled e))"
  shows "validate_intent e = Ok () \<and> int_requester e = req \<and> int_domain e = domain \<and> int_budget e = budget
    \<and> int_id e = ce_fresh_id v \<and> int_depth e = 0"
  using assms
  by (auto simp: compile_def icache_get_def Let_def enrich_keeps split: option.splits if_splits sum.splits)

lemma new_planner_miss: "cache_get (pl_cache (planner_new g b k)) key = None"
  by (simp add: planner_new_def cache_new_def cache_with_capacity_def cache_get_def)

lemma new_planner_plan:
  assumes "planner_plan cr fresh (planner_new g b k) i = (p', Ok plan)"
  shows "plan_steps plan \<noteq> [] \<and> distinct (map pst_capability (plan_steps plan))
    \<and> pst_capability ` set (plan_steps plan) \<subseteq> cap_id ` set (registry_list g)
    \<and> plan_intent_id plan = int_id i \<and> bounds_validate b i plan = Ok ()"
proof -
  let ?hits = "planner_hits g i" and ?ord = "topo_sort (choose_caps (planner_hits g i))"
  note miss = planner_plan_miss[OF new_planner_miss assms]
  have pl: "pl_registry (planner_new g b k) = g" "pl_bounds (planner_new g b k) = b" by (simp_all add: planner_new_def)
  have names: "map pst_capability (plan_steps plan) = map cap_id ?ord"
    using plan_steps_capabilities[of fresh 0 ?ord] by (simp add: miss(1) pl)
  have "?hits \<noteq> []"
    using assms new_planner_miss[of g b k] by (auto simp: planner_plan_def Let_def pl)
  then have "choose_caps ?hits \<noteq> []" by (simp add: choose_caps_def split: list.splits)
  then have "?ord \<noteq> []" using topo_sort_perm(2)[of "choose_caps ?hits"] by auto
  then have ne: "plan_steps plan \<noteq> []" using names by auto
  have "pst_capability ` set (plan_steps plan) = cap_id ` set ?ord" using names by (metis set_map)
  also have "\<dots> \<subseteq> cap_id ` set (registry_list g)" using chosen_registered by blast
  finally have "pst_capability ` set (plan_steps plan) \<subseteq> cap_id ` set (registry_list g)" .
  moreover have "distinct (map pst_capability (plan_steps plan))" unfolding names by (rule topo_sort_perm(3))
  ultimately show ?thesis using ne miss(1,4) by (simp add: pl)
qed

lemma fresh_budget_within:
  assumes "validate_intent i = Ok ()"
  shows "within_budget (budget_tracker_new (int_budget i))"
proof -
  have "is_finite_f (max_cost_usd (int_budget i)) \<and> \<not> flt (max_cost_usd (int_budget i)) (Fin 0)"
    using assms by (auto simp: validate_intent_def validate_budget_def split: if_splits)
  then show ?thesis by (simp add: within_budget_def budget_tracker_new_def)
qed

text \<open>What the report of a finished run says of its trace, for a graph executed in the order \<open>ks\<close>.\<close>

definition traced :: "string list \<Rightarrow> execution_outcome \<Rightarrow> execution_trace \<Rightarrow> bool" where
  "traced ks outcome t \<longleftrightarrow> tr_status t \<noteq> Tr_Running \<and> (\<exists>k. map tst_node_id (tr_steps t) = take k ks)
     \<and> (tr_status t = Tr_Completed \<longleftrightarrow> (\<exists>outs n. outcome = Completed outs n))
     \<and> (\<forall>outs n. outcome = Completed outs n \<longrightarrow> map tst_node_id (tr_steps t) = ks \<and> fst ` set outs = set ks)"

lemma execute_plan_spec:
  assumes "plan_steps plan \<noteq> []" "distinct (map pst_capability (plan_steps plan))" "validate_intent intent = Ok ()"
  shows "\<exists>r. execute_plan v g intent plan = Some r \<and> (\<forall>e. r = Err e \<longrightarrow> (\<exists>re. e = SvRuntime re))
    \<and> (\<forall>rep. r = Ok rep \<longrightarrow> (\<exists>outcome t. rep = RunFinished intent plan outcome t
         \<and> traced (map pst_capability (plan_steps plan)) outcome t))"
proof -
  let ?st = "\<lparr>xs_world = demo_invoker g, xs_recorder = recorder_in_memory, xs_budget = budget_tracker_new (int_budget intent)\<rparr>"
  let ?x = "executor_new (with_default_rules (rv_is_match v))"
  from chain_build[OF assms(1,2), of v g] obtain graph where
    b: "builder_build (materialise v g (plan_steps plan) builder_new None) = Some (Ok graph)"
    and gr: "gr_nodes graph = map (\<lambda>s. (pst_capability s, demo_node v g s)) (plan_steps plan)"
      "gr_order graph = map pst_capability (plan_steps plan)" by blast
  obtain st r where run: "executor_run (rv_to_string v) (rv_clock v) ?x graph intent ?st = (st, r)" by fastforce
  have "set (gr_order graph) \<subseteq> fst ` set (gr_nodes graph)" by (force simp: gr)
  moreover have "True \<longrightarrow> within_budget (xs_budget ?st)" using fresh_budget_within[OF assms(3)] by simp
  moreover have "\<not> revocation_check ?x intent" by (simp add: revocation_check_def executor_new_def)
  ultimately have "run_post graph intent (bt_initial (xs_budget ?st)) True (st, r)"
    unfolding run[symmetric] by (rule executor_run_post)
  then obtain t where t: "rc_open (xs_recorder st) (int_trace_id intent) = Some t"
    and post: "(\<exists>k. map tst_node_id (tr_steps t) = take k (gr_order graph))
      \<and> (tr_status t = Tr_Running \<longrightarrow> (\<exists>s e. r = Err (CompensationFailed s e)))
      \<and> (tr_status t = Tr_Completed \<longleftrightarrow> (\<exists>outs n. r = Ok (Completed outs n)))
      \<and> (\<forall>outs n. r = Ok (Completed outs n) \<longrightarrow> map tst_node_id (tr_steps t) = gr_order graph
           \<and> fst ` set outs = set (gr_order graph) \<and> n = of_nat (length (gr_order graph)))"
    unfolding run_post_def prod.case by (elim exE conjE) auto
  have "traced (gr_order graph) outcome t" if "r = Ok outcome" for outcome
    using post unfolding that traced_def by simp
  then show ?thesis
    using b run t by (cases r) (simp_all add: execute_plan_def recorder_get_def gr(2))
qed

text \<open>A run stops before execution, or executes the plan of the compiled intent.\<close>

lemma run_config_cases:
  obtains (error) e where "run_config v cfg = Some (Err e)" "\<And>x. e \<noteq> SvGraph x" "\<And>x. e \<noteq> SvRecorder x"
  | (refine) qs where "run_config v cfg = Some (Ok (RunNeedsRefinement qs))"
  | (execute) g cache i p' plan where "seed_registry cfg = Ok g"
      "compile (default_compiler v) [] (dm_goal (sc_demo cfg)) (demo_requester cfg) (dm_domain (sc_demo cfg)) (sc_budget cfg) = (cache, Ok (Compiled i))"
      "planner_plan (rv_crypto v) (rv_output_ids v) (planner_new g (run_bounds cfg) composition_default) i = (p', Ok plan)"
      "run_config v cfg = execute_plan v g i plan"
proof (cases "seed_registry cfg")
  case (Inl e)
  then show ?thesis by (intro error) (auto simp: run_config_def)
next
  case (Inr g)
  obtain cache r where c: "compile (default_compiler v) [] (dm_goal (sc_demo cfg)) (demo_requester cfg) (dm_domain (sc_demo cfg)) (sc_budget cfg) = (cache, r)"
    by fastforce
  consider (err) e where "r = Err e" | (ask) qs where "r = Ok (NeedsRefinement qs)" | (go) i where "r = Ok (Compiled i)"
    by (metis compile_outcome.exhaust sum.exhaust)
  then show ?thesis
  proof cases
    case err
    with Inr c show ?thesis by (intro error) (auto simp: run_config_def)
  next
    case ask
    with Inr c show ?thesis by (intro refine) (auto simp: run_config_def)
  next
    case (go i)
    obtain p' q where p: "planner_plan (rv_crypto v) (rv_output_ids v) (planner_new g (run_bounds cfg) composition_default) i = (p', q)"
      by fastforce
    show ?thesis
    proof (cases q)
      case (Inl e)
      with Inr c go p show ?thesis by (intro error) (auto simp: run_config_def)
    next
      case plan: (Inr plan)
      with Inr c go p show ?thesis by (intro execute) (auto simp: run_config_def)
    qed
  qed
qed

lemma run_config_total: "\<exists>r. run_config v cfg = Some r"
proof (cases rule: run_config_cases[of v cfg])
  case (execute g cache i p' plan)
  from execute_plan_spec[of plan i v g] new_planner_plan[OF execute(3)] compile_Compiled[OF execute(2)]
  show ?thesis by (auto simp: execute(4))
qed auto

text \<open>C13. A run of the server is sound from configuration to trace. It always ends with a result; a
  plan that was made is always executed, because the graph built from it is a valid chain and its
  trace is found again. When it finishes, the intent carries the configured requester and budget,
  the plan has one to ten steps and every step names a seeded capability, at most once; the trace
  is closed and its steps are a prefix of the plan in plan order, and it is closed as completed
  exactly when the run reports completion, with a recorded step for every step of the plan.\<close>

theorem server_run_sound:
  "\<exists>r. run_config v cfg = Some r \<and> (\<forall>e. r \<noteq> Err (SvGraph e)) \<and> (\<forall>e. r \<noteq> Err (SvRecorder e))
     \<and> (\<forall>intent plan outcome t. r = Ok (RunFinished intent plan outcome t) \<longrightarrow>
          int_requester intent = demo_requester cfg \<and> int_budget intent = sc_budget cfg
          \<and> plan_intent_id plan = int_id intent \<and> plan_steps plan \<noteq> []
          \<and> (of_nat (length (plan_steps plan)) :: u32) \<le> 10 \<and> distinct (map pst_capability (plan_steps plan))
          \<and> pst_capability ` set (plan_steps plan) \<subseteq> csd_id ` set (config_seeds cfg)
          \<and> traced (map pst_capability (plan_steps plan)) outcome t)"
proof (cases rule: run_config_cases[of v cfg])
  case (execute g cache i p' plan)
  from register_seeds_reachable[OF execute(1)[unfolded seed_registry_def] rr_new]
  have "set (registry_list g) \<subseteq> seed_to_capability ` set (config_seeds cfg)" by simp
  then have seeded: "cap_id ` set (registry_list g) \<subseteq> csd_id ` set (config_seeds cfg)" by fastforce
  note i = compile_Compiled[OF execute(2)] and pl = new_planner_plan[OF execute(3)]
  from execute_plan_spec[of plan i v g] pl i obtain r where "execute_plan v g i plan = Some r"
    "\<forall>e. r = Err e \<longrightarrow> (\<exists>re. e = SvRuntime re)"
    "\<forall>rep. r = Ok rep \<longrightarrow> (\<exists>outcome t. rep = RunFinished i plan outcome t
       \<and> traced (map pst_capability (plan_steps plan)) outcome t)" by blast
  with execute(4) pl i seeded show ?thesis by (fastforce simp: bounds_validate_Ok run_bounds_def)
qed auto

text \<open>The built-in demonstration with a zero cost budget, over concrete times and identifiers.\<close>

definition ex_run_env :: run_env where
  "ex_run_env = \<lparr>rv_crypto = ex_crypto, rv_re_find = (\<lambda>_ _. None), rv_is_match = (\<lambda>_ _. False), rv_intent_id = ''int-1'',
     rv_trace_id = ''trace-1'', rv_now = 0, rv_output_ids = ex_fresh, rv_to_string = (\<lambda>_. []), rv_clock = ex_clock,
     rv_latency = 1, rv_elapsed = (\<lambda>_. 1), rv_agent_dur = (\<lambda>_. (1, \<lambda>_. 1))\<rparr>"

definition ex_server_config :: server_config where
  "ex_server_config = server_config_default\<lparr>sc_budget := \<lparr>max_tokens = 1000, max_cost_usd = Fin 0, max_latency_ms = 5000\<rparr>\<rparr>"

definition ex_seeded :: registry where
  "ex_seeded = fst (registry_register registry_in_memory (seed_to_capability default_seed))"

definition ex_demo_intent :: intent_envelope where
  "ex_demo_intent = ex_intent\<lparr>int_id := ''int-1'', int_type := AnalyticalIntent, int_requester := demo_requester ex_server_config,
     int_goal := ''show last month sales by region'', int_domain := ''sales'',
     int_constraints := [(''dimension'', JString ''region'')],
     int_budget := \<lparr>max_tokens = 1000, max_cost_usd = Fin 0, max_latency_ms = 5000\<rparr>,
     int_risk_tier := RT_Read, int_approval_policy := ''none'', int_trace_id := ''trace-1'', int_created_at := 0\<rparr>"

lemma ex_seed_valid: "validate_capability (seed_to_capability default_seed) = Ok ()"
  by (simp add: seed_valid default_seed_def trim_def is_whitespace_def)

lemma ex_seed_registry: "seed_registry ex_server_config = Ok ex_seeded"
  by (simp add: seed_registry_def config_seeds_def ex_server_config_def server_config_default_def ex_seeded_def
      registry_register_def ex_seed_valid)

lemma ex_compile:
  "snd (compile (default_compiler ex_run_env) [] (dm_goal (sc_demo ex_server_config)) (demo_requester ex_server_config)
     (dm_domain (sc_demo ex_server_config)) (sc_budget ex_server_config)) = Ok (Compiled ex_demo_intent)"
proof -
  let ?v = "default_compiler ex_run_env" and ?raw = "''show last month sales by region''"
  have cfg: "dm_goal (sc_demo ex_server_config) = ?raw" "dm_domain (sc_demo ex_server_config) = ''sales''"
    "sc_budget ex_server_config = \<lparr>max_tokens = 1000, max_cost_usd = Fin 0, max_latency_ms = 5000\<rparr>"
    "rq_role (demo_requester ex_server_config) = ''analyst''"
    by (simp_all add: ex_server_config_def server_config_default_def demo_config_default_def demo_requester_def)
  have c: "ce_classify ?v ?raw = Some AnalyticalIntent" unfolding default_compiler_def compile_env.simps by code_simp
  have t: "trim ?raw = ?raw" "trim ''sales'' = ''sales''" by (simp_all add: trim_def is_whitespace_def)
  have draft: "draft_envelope ?v ?raw (demo_requester ex_server_config) ''sales'' (sc_budget ex_server_config) AnalyticalIntent
      = ex_demo_intent"
    by (simp add: draft_envelope_def enrich_def t cfg default_compiler_def ex_run_env_def rule_extract_def btree_entry.simps
        ex_demo_intent_def ex_intent_def Let_def)
  have "validate_intent ex_demo_intent = Ok ()"
    by (simp add: validate_intent_def ex_demo_intent_def ex_intent_def t validate_budget_def MAX_DEPTH_def fle_def is_finite_f_def)
  then show ?thesis
    using compile_miss(1)[where v = ?v and cache = "[]", OF _ c, of "demo_requester ex_server_config" "''sales''" "sc_budget ex_server_config"]
    by (simp add: icache_get_def t cfg(1,2) draft)
qed

lemma ex_plan:
  "case snd (planner_plan ex_crypto ex_fresh (planner_new ex_seeded (run_bounds ex_server_config) composition_default) ex_demo_intent) of
     Inr plan \<Rightarrow> map (\<lambda>s. (pst_capability s, pst_kind s)) (plan_steps plan) = [(''cap-sales-monthly'', PK_Deterministic)]
   | Inl _ \<Rightarrow> False"
proof -
  let ?c = "seed_to_capability default_seed" and ?p = "planner_new ex_seeded (run_bounds ex_server_config) composition_default"
  have c: "cap_domains ?c = [''sales'']" "cap_depends_on ?c = []" "cap_id ?c = ''cap-sales-monthly''" "cap_deterministic ?c"
    "cap_side_effect ?c = SE_Read"
    "csd_id default_seed = ''cap-sales-monthly''"
    by (simp_all add: seed_to_capability_def default_seed_def parse_side_effect_def)
  have i: "int_goal ex_demo_intent = ''show last month sales by region''" "int_domain ex_demo_intent = ''sales''"
    "int_depth ex_demo_intent = 0"
    "int_budget ex_demo_intent = \<lparr>max_tokens = 1000, max_cost_usd = Fin 0, max_latency_ms = 5000\<rparr>"
    by (simp_all add: ex_demo_intent_def ex_intent_def)
  have reg: "registry_list ex_seeded = [?c]"
    by (simp add: ex_seeded_def registry_register_def ex_seed_valid registry_in_memory_def
        rs_upsert_def store_insert_def registry_list_def rs_list_def store_values_def)
  have "fle (Fin (1 / 2)) (to_f64 (2 / 3))" using to_f64_mono[of "1 / 2" "2 / 3"] by (simp add: half_exact)
  then have "flt (Fin 0) (to_f64 (2 / 3))" by (cases "to_f64 (2 / 3)") (auto simp: fle_def)
  moreover have "lexical_score ''show last month sales by region'' (haystack_of ?c) = to_f64 (2 / 3)"
    by (simp add: lexical_score_def haystack_of_def seed_to_capability_def default_seed_def split_whitespace_def to_lowercase_def
        to_lower_char_bits is_whitespace_def Let_def f64_of_nat_def to_f64_of_nat[of 4, simplified] to_f64_of_nat[of 6, simplified])
  ultimately have "map dr_capability (planner_hits ex_seeded ex_demo_intent) = [?c]"
    by (simp add: planner_hits_def discover_def reg stable_sort_by_def i c Let_def)
  then have hits: "planner_hits ex_seeded ex_demo_intent \<noteq> []" "choose_caps (planner_hits ex_seeded ex_demo_intent) = [?c]"
    by (auto simp: choose_caps_def map_eq_Cons_conv)
  have pl: "pl_registry ?p = ex_seeded" "pl_composition ?p = composition_default" "pl_entity_composition ?p = None"
    "pl_bounds ?p = run_bounds ex_server_config"
    by (simp_all add: planner_new_def)
  have bounds: "ba_max_steps (run_bounds ex_server_config) = 10" "ba_max_depth (run_bounds ex_server_config) = 5"
    "ba_max_cost_usd (run_bounds ex_server_config) = Fin 0" "ba_max_latency_ms (run_bounds ex_server_config) = 5000"
    by (simp_all add: run_bounds_def ex_server_config_def)
  have "is_safe composition_default [?c]" "topo_sort [?c] = [?c]"
    by (simp_all add: is_safe_def composition_default_def writes_class_def c topo_sort_def visit_def caps_by_id_def)
  then show ?thesis
    by (simp add: planner_plan_def new_planner_miss pl hits plan_step_of_def c i bounds_validate_def bounds Let_def
        enumerate_eq_zip)
qed

text \<open>Without a cost budget, patterns that match or a write, the default rules stay silent.\<close>

lemma quiet_engine:
  assumes "max_cost_usd (int_budget i) = Fin 0" "se = None \<or> se = Some SE_Read"
  shows "engine_evaluate (with_default_rules (\<lambda>_ _. False)) h (exec_context i b p out se w) = Allow"
proof -
  have "rule_evaluate r (exec_context i b p out se w) = None" if "r \<in> set (with_default_rules (\<lambda>_ _. False))" for r
    using that assms
    by (auto simp: with_default_rules_def mk_rule_def exec_context_def scope_check_evaluate_def side_effect_gate_evaluate_def
        budget_control_evaluate_def pii_guard_evaluate_def pii_hits_def injection_guard_evaluate_def find_None_iff
        composition_safety_evaluate_def boundary_enforcement_evaluate_def boundary_tenant_def boundary_classification_def
        effective_side_effect_def is_write_class_def INJECTION_PATTERNS_def Let_def split: option.splits)
  then have "collect_violations rs h (exec_context i b p out se w) = []"
    if "set rs \<subseteq> set (with_default_rules (\<lambda>_ _. False))" for rs
    using that by (induction rs) auto
  then show ?thesis by (simp add: engine_evaluate_def decide_def)
qed

lemma ex_execution:
  assumes "gr_nodes gr = [(pst_capability s, demo_node ex_run_env ex_seeded s)]" "gr_order gr = [pst_capability s]"
    and "gr_compensators gr = []" "pst_kind s = PK_Deterministic"
  shows "\<exists>outs n. snd (executor_run (\<lambda>_. []) ex_clock (executor_new (with_default_rules (\<lambda>_ _. False))) gr ex_demo_intent
     \<lparr>xs_world = w, xs_recorder = recorder_in_memory, xs_budget = budget_tracker_new (int_budget ex_demo_intent)\<rparr>) = Ok (Completed outs n)"
proof -
  have b: "int_budget ex_demo_intent = \<lparr>max_tokens = 1000, max_cost_usd = Fin 0, max_latency_ms = 5000\<rparr>"
    by (simp add: ex_demo_intent_def)
  then have c: "max_cost_usd (int_budget ex_demo_intent) = Fin 0" by simp
  show ?thesis
    by (simp add: executor_run_def revocation_check_def executor_new_def recorder_open_def run_steps.simps(2)
        step_node_def run_node_def after_node_def charge_def budget_tracker_new_def saturating_add_def record_node_run_def
        record_observation_def record_step_def notify_subscribers_def step_observation_def trace_open_def pre_artifact_def
        close_and_return_def close_trace_def recorder_close_def trace_record_def node_output_default_def stop_def
        quiet_engine[OF c] assms demo_node_def ex_run_env_def deterministic_node_def ex_clock_def Let_def is_write_class_def)
      (simp add: b)
qed

theorem server_run_sound_witness:
  "\<exists>intent plan outs n t. run_config ex_run_env ex_server_config = Some (Ok (RunFinished intent plan (Completed outs n) t))
     \<and> map pst_capability (plan_steps plan) = [''cap-sales-monthly''] \<and> map tst_node_id (tr_steps t) = [''cap-sales-monthly'']
     \<and> tr_status t = Tr_Completed"
proof -
  let ?p = "planner_plan ex_crypto ex_fresh (planner_new ex_seeded (run_bounds ex_server_config) composition_default) ex_demo_intent"
  from ex_plan obtain plan where plan: "snd ?p = Ok plan"
    "map (\<lambda>s. (pst_capability s, pst_kind s)) (plan_steps plan) = [(''cap-sales-monthly'', PK_Deterministic)]"
    by (cases "snd ?p") simp_all
  then obtain s where s: "plan_steps plan = [s]" "pst_capability s = ''cap-sales-monthly''" "pst_kind s = PK_Deterministic"
    by (auto simp: map_eq_Cons_conv)
  have env: "rv_crypto ex_run_env = ex_crypto" "rv_output_ids ex_run_env = ex_fresh" "rv_to_string ex_run_env = (\<lambda>_. [])"
    "rv_clock ex_run_env = ex_clock" "rv_is_match ex_run_env = (\<lambda>_ _. False)" by (simp_all add: ex_run_env_def)
  have run: "run_config ex_run_env ex_server_config = execute_plan ex_run_env ex_seeded ex_demo_intent plan"
    by (simp only: run_config_def ex_seed_registry sum.case ex_compile compile_outcome.case env plan(1))
  from chain_build[of "[s]" ex_run_env ex_seeded] obtain graph where
    gr: "builder_build (materialise ex_run_env ex_seeded (plan_steps plan) builder_new None) = Some (Ok graph)"
      "gr_nodes graph = [(pst_capability s, demo_node ex_run_env ex_seeded s)]" "gr_order graph = [pst_capability s]"
      "gr_compensators graph = []" by (auto simp: s(1))
  from ex_execution[OF gr(2-4) s(3), of "demo_invoker ex_seeded"] obtain outs n where
    "snd (executor_run (\<lambda>_. []) ex_clock (executor_new (with_default_rules (\<lambda>_ _. False))) graph ex_demo_intent
       \<lparr>xs_world = demo_invoker ex_seeded, xs_recorder = recorder_in_memory,
        xs_budget = budget_tracker_new (int_budget ex_demo_intent)\<rparr>) = Ok (Completed outs n)" by blast
  then have "(\<exists>e. run_config ex_run_env ex_server_config = Some (Err (SvRecorder e)))
      \<or> (\<exists>t. run_config ex_run_env ex_server_config = Some (Ok (RunFinished ex_demo_intent plan (Completed outs n) t)))"
    unfolding run by (auto simp: execute_plan_def gr(1) env split: prod.splits sum.splits)
  with server_run_sound[of ex_run_env ex_server_config] obtain t where
    t: "run_config ex_run_env ex_server_config = Some (Ok (RunFinished ex_demo_intent plan (Completed outs n) t))" by auto
  with server_run_sound[of ex_run_env ex_server_config] have "traced (map pst_capability (plan_steps plan)) (Completed outs n) t" by auto
  with t s show ?thesis by (auto simp: traced_def)
qed

end
