(* ===== verification/Cli.thy ===== *)
theory Cli
  imports Server
begin

text \<open>
  The command line of the server (\<open>aaf-server/src/main.rs\<close>, \<open>identity.rs\<close>): the dispatch of the
  subcommands, the commands around the run command and the identity commands. A command returns
  what the source prints; help and usage texts are reduced to a constructor. Files, parsers, the
  clock and the printers are arguments, gathered in two records.
\<close>

section \<open>The environment\<close>

record manifest_input =
  mi_display_name :: string
  mi_source_hash :: string
  mi_capability_allow_list :: "string list"
  mi_ontology_slices :: "string list"
  mi_eval_suite_refs :: "string list"
  mi_prompt_hashes :: "string list"
  mi_seed :: "string option"

record sbom_entry_input =
  sei_kind :: string
  sei_name :: string
  sei_version :: string
  sei_content_hash :: string
  sei_locator :: "string option"

record sbom_input =
  sbi_did :: string
  sbi_entries :: "sbom_entry_input list"

text \<open>The file system and the parsers of the file formats.\<close>

record file_env =
  fe_exists :: "string \<Rightarrow> bool"
  fe_is_dir :: "string \<Rightarrow> bool"
  fe_read :: file_reader
  fe_write :: "string \<Rightarrow> string \<Rightarrow> (unit, string) result"
  fe_read_dir :: "string \<Rightarrow> (dir_entry list, string) result"
  fe_config :: "string \<Rightarrow> (server_config, string) result"
  fe_capability :: "string \<Rightarrow> (capability_contract, string) result"
  fe_openapi_yaml :: "string \<Rightarrow> (openapi_doc, string) result"
  fe_openapi_json :: "string \<Rightarrow> (openapi_doc, string) result"
  fe_manifest :: "string \<Rightarrow> (manifest_input, string) result"
  fe_sbom :: "string \<Rightarrow> (sbom_input, string) result"

text \<open>The hash functions, serialisers and printers, and the clock: the time, and its nanoseconds as bytes.\<close>

record id_env =
  ie_crypto :: crypto
  ie_manifest_vec :: "manifest_body serialiser"
  ie_revocation_vec :: "revocation_body serialiser"
  ie_spdx_pretty :: "spdx_document \<Rightarrow> (string, string) result"
  ie_cyclonedx_pretty :: "cyclonedx_document \<Rightarrow> (string, string) result"
  ie_rfc3339 :: "timestamp \<Rightarrow> string"
  ie_pkg_version :: string
  ie_now :: timestamp
  ie_nanos_le :: "u8 list"

datatype command_output =
    OutHelp | OutUsage string | OutUnknown string
  | OutConfig server_config
  | OutHits string "discovery_result list"
  | OutCompile compile_outcome
  | OutRun run_report
  | OutNotDir string
  | OutLint lint_report nat
  | OutImport string "string option"
  | OutDid string string
  | OutRevocation revocation_entry
  | OutManifest agent_manifest
  | OutVerified string string
  | OutSbom string

type_synonym command = "(command_output, server_error) result"

definition args_first :: "string \<Rightarrow> string list \<Rightarrow> string" where
  "args_first d args = (case args of p # _ \<Rightarrow> p | [] \<Rightarrow> d)"

definition map_err :: "('e \<Rightarrow> 'f) \<Rightarrow> ('a, 'e) result \<Rightarrow> ('a, 'f) result" where
  "map_err f r = (case r of Inl e \<Rightarrow> Err (f e) | Inr x \<Rightarrow> Ok x)"

section \<open>Commands around the pipeline\<close>

definition cmd_validate :: "file_env \<Rightarrow> string list \<Rightarrow> command" where
  "cmd_validate f args =
     bind_result (map_err SvConfig (config_from_path (fe_read f) (fe_config f) (args_first ''aaf.yaml'' args)))
       (\<lambda>cfg. Ok (OutConfig cfg))"

definition cmd_discover :: "file_env \<Rightarrow> string list \<Rightarrow> command" where
  "cmd_discover f args =
     (let query = join_with '' '' args
      in if trim query = [] then Ok (OutUsage ''aaf-server discover <query>'')
         else bind_result (map_err SvConfig (load_config_at (fe_exists f) (fe_read f) (fe_config f) ''aaf.yaml'')) (\<lambda>cfg.
              bind_result (map_err SvRegistry (seed_registry cfg)) (\<lambda>g.
                Ok (OutHits query (discover g (discovery_query_new query))))))"

definition cmd_compile :: "run_env \<Rightarrow> string list \<Rightarrow> command" where
  "cmd_compile v args =
     (let goal = join_with '' '' args
      in if trim goal = [] then Ok (OutUsage ''aaf-server compile <text>'')
         else bind_result
                (map_err SvIntent (snd (compile (default_compiler v) [] goal
                   \<lparr>rq_user_id = ''cli'', rq_role = ''analyst'', rq_scopes = [''sales:read''], rq_tenant = None\<rparr>
                   ''sales'' \<lparr>max_tokens = 5000, max_cost_usd = to_f64 1, max_latency_ms = 30000\<rparr>)))
                (\<lambda>outcome. Ok (OutCompile outcome)))"

definition cmd_ontology_lint :: "file_env \<Rightarrow> string list \<Rightarrow> command" where
  "cmd_ontology_lint f args =
     (let dir = args_first ''spec/examples'' args
      in if \<not> fe_is_dir f dir then Ok (OutNotDir dir)
         else bind_result (map_err SvIo (lint_directory (fe_read_dir f) (fe_read f) (fe_capability f) dir))
                (\<lambda>report. Ok (OutLint report (if has_errors report then 1 else 0))))"

definition cmd_ontology_import :: "file_env \<Rightarrow> string list \<Rightarrow> command" where
  "cmd_ontology_import f args =
     (case args of
        [] \<Rightarrow> Ok (OutUsage ''aaf-server ontology import <openapi.yaml|openapi.json>'')
      | path # rest \<Rightarrow>
          bind_result (map_err SvIo (fe_read f path)) (\<lambda>raw.
          bind_result (map_err SvImport (import_openapi (fe_openapi_yaml f) (fe_openapi_json f) raw)) (\<lambda>proposals.
            let out = render_yaml proposals
            in case rest of
                 target # _ \<Rightarrow> bind_result (map_err SvIo (fe_write f target out)) (\<lambda>_. Ok (OutImport out (Some target)))
               | [] \<Rightarrow> Ok (OutImport out None))))"

definition cmd_ontology :: "file_env \<Rightarrow> string list \<Rightarrow> command" where
  "cmd_ontology f args =
     (case args of
        sub # rest \<Rightarrow>
          if sub = ''lint'' then cmd_ontology_lint f rest
          else if sub = ''import'' then cmd_ontology_import f rest
          else Ok (OutUsage ''aaf-server ontology <lint|import> [args]'')
      | [] \<Rightarrow> Ok (OutUsage ''aaf-server ontology <lint|import> [args]''))"

section \<open>Identity commands\<close>

definition display_seed :: "id_env \<Rightarrow> string \<Rightarrow> u8 list" where
  "display_seed e display = as_bytes display @ ie_nanos_le e"

definition cmd_generate :: "id_env \<Rightarrow> string list \<Rightarrow> command" where
  "cmd_generate e args =
     (let display = args_first ''cli-agent'' args;
          (ks, did) = ks_generate (ie_crypto e) Map.empty (display_seed e display)
      in Ok (OutDid did display))"

definition cmd_revoke :: "id_env \<Rightarrow> string list \<Rightarrow> command" where
  "cmd_revoke e args =
     (case args of
        did # r # rs \<Rightarrow>
          (let reason = join_with '' '' (r # rs);
               (ks, revoker) = ks_generate (ie_crypto e) Map.empty (display_seed e ''cli-revoker'')
           in bind_result
                (map_err SvIdentity (revocation_issue (ie_crypto e) (ie_revocation_vec e) (ie_now e) RK_Did did reason revoker
                   (ks_sign (ie_crypto e) ks)))
                (\<lambda>entry. Ok (OutRevocation entry)))
      | _ \<Rightarrow> Ok (OutUsage ''aaf-server identity revoke <did> <reason>''))"

definition manifest_seed :: "manifest_input \<Rightarrow> u8 list" where
  "manifest_seed i = as_bytes (case mi_seed i of Some s \<Rightarrow> s | None \<Rightarrow> ''did-seed-'' @ mi_display_name i)"

definition build_signed_manifest :: "id_env \<Rightarrow> manifest_input \<Rightarrow> (keystore \<times> string \<times> agent_manifest, identity_error) result" where
  "build_signed_manifest e i =
     (let (ks, did) = ks_generate (ie_crypto e) Map.empty (manifest_seed i);
          b = manifest_builder_new did (mi_display_name i) (mi_source_hash i);
          b = foldl builder_allow b (mi_capability_allow_list i);
          b = foldl builder_ontology_slice b (mi_ontology_slices i);
          b = foldl builder_eval_ref b (mi_eval_suite_refs i);
          b = foldl builder_prompt_hash b (mi_prompt_hashes i)
      in bind_result (manifest_build (ie_crypto e) (ie_manifest_vec e) (ie_now e) b (ks_sign (ie_crypto e) ks))
           (\<lambda>m. Ok (ks, did, m)))"

definition read_manifest :: "file_env \<Rightarrow> string \<Rightarrow> string list \<Rightarrow> (manifest_input, server_error) result" where
  "read_manifest f usage args =
     (case args of
        [] \<Rightarrow> Err (SvUsage usage)
      | path # _ \<Rightarrow> bind_result (map_err SvIo (fe_read f path)) (\<lambda>raw. map_err SvIo (fe_manifest f raw)))"

definition cmd_sign_manifest :: "id_env \<Rightarrow> file_env \<Rightarrow> string list \<Rightarrow> command" where
  "cmd_sign_manifest e f args =
     bind_result (read_manifest f ''usage: aaf-server identity sign-manifest <manifest.yaml>'' args) (\<lambda>i.
     bind_result (map_err SvIdentity (build_signed_manifest e i)) (\<lambda>(ks, did, m). Ok (OutManifest m)))"

definition cmd_verify :: "id_env \<Rightarrow> file_env \<Rightarrow> string list \<Rightarrow> command" where
  "cmd_verify e f args =
     bind_result (read_manifest f ''usage: aaf-server identity verify <manifest.yaml>'' args) (\<lambda>i.
     bind_result (map_err SvIdentity (build_signed_manifest e i)) (\<lambda>(ks, did, m).
     bind_result (map_err SvIdentity (manifest_verify (ie_crypto e) (ie_manifest_vec e) m (ks_verify (ie_crypto e) ks)))
       (\<lambda>_. Ok (OutVerified did (mb_display_name (am_body m))))))"

definition parse_sbom_kind :: "string \<Rightarrow> sbom_entry_kind" where
  "parse_sbom_kind s =
     (let k = to_lowercase s
      in if k = ''model'' then SK_Model else if k = ''prompt'' then SK_Prompt else if k = ''tool'' then SK_Tool
         else if k = ''ontology'' then SK_Ontology
         else if k = ''eval_suite'' \<or> k = ''eval-suite'' then SK_EvalSuite
         else if k = ''training_data'' \<or> k = ''training-data'' then SK_TrainingData
         else SK_Other)"

text \<open>The scan for \<open>--format\<close> over the arguments after the path: the value after the flag, two at a time.\<close>

fun scan_format :: "string list \<Rightarrow> string \<Rightarrow> string" where
  "scan_format (a # b # rest) format = (if a = ''--format'' then scan_format rest b else scan_format (b # rest) format)"
| "scan_format _ format = format"

definition sbom_entry_of :: "sbom_entry_input \<Rightarrow> sbom_entry" where
  "sbom_entry_of x =
     (let entry = \<lparr>sbe_kind = parse_sbom_kind (sei_kind x), sbe_name = sei_name x, sbe_version = sei_version x,
                   sbe_content_hash = sei_content_hash x, sbe_locator = None\<rparr>
      in case sei_locator x of Some l \<Rightarrow> with_locator entry l | None \<Rightarrow> entry)"

definition cmd_export_sbom :: "id_env \<Rightarrow> file_env \<Rightarrow> string list \<Rightarrow> command" where
  "cmd_export_sbom e f args =
     (case args of
        [] \<Rightarrow> Err (SvUsage ''usage: aaf-server identity export-sbom <sbom.yaml> [--format spdx|cyclonedx]'')
      | path # rest \<Rightarrow>
          let format = scan_format rest ''spdx''
          in bind_result (map_err SvIo (fe_read f path)) (\<lambda>raw.
             bind_result (map_err SvIo (fe_sbom f raw)) (\<lambda>i.
               let sbom = foldl (\<lambda>s x. sbom_push s (sbom_entry_of x)) (sbom_new (ie_now e) (sbi_did i)) (sbi_entries i)
               in if format = ''spdx'' then Ok (OutSbom (to_spdx_json (ie_spdx_pretty e) (ie_rfc3339 e) sbom))
                  else if format = ''cyclonedx''
                  then Ok (OutSbom (to_cyclonedx_json (ie_cyclonedx_pretty e) (ie_rfc3339 e) (ie_pkg_version e) sbom))
                  else Err (SvUsage (''unknown --format `'' @ format @ ''` (use spdx or cyclonedx)'')))))"

definition identity_dispatch :: "id_env \<Rightarrow> file_env \<Rightarrow> string list \<Rightarrow> command" where
  "identity_dispatch e f args =
     (case args of
        [] \<Rightarrow> Ok OutHelp
      | sub # rest \<Rightarrow>
          if sub = ''generate'' \<or> sub = ''generate-did'' then cmd_generate e rest
          else if sub = ''sign-manifest'' then cmd_sign_manifest e f rest
          else if sub = ''verify'' then cmd_verify e f rest
          else if sub = ''export-sbom'' then cmd_export_sbom e f rest
          else if sub = ''revoke'' then cmd_revoke e rest
          else if sub = ''help'' \<or> sub = ''--help'' \<or> sub = ''-h'' then Ok OutHelp
          else Ok (OutUnknown sub))"

section \<open>Dispatch\<close>

definition run_command :: "run_env \<Rightarrow> file_env \<Rightarrow> string list \<Rightarrow> command option" where
  "run_command v f args =
     map_option (\<lambda>r. bind_result r (\<lambda>rep. Ok (OutRun rep))) (cmd_run v (fe_exists f) (fe_read f) (fe_config f) args)"

definition server_main :: "run_env \<Rightarrow> id_env \<Rightarrow> file_env \<Rightarrow> string list \<Rightarrow> command option" where
  "server_main v e f args =
     (case args of
        [] \<Rightarrow> run_command v f []
      | sub # rest \<Rightarrow>
          if sub = ''run'' then run_command v f rest
          else if sub = ''validate'' then Some (cmd_validate f rest)
          else if sub = ''discover'' then Some (cmd_discover f rest)
          else if sub = ''compile'' then Some (cmd_compile v rest)
          else if sub = ''ontology'' then Some (cmd_ontology f rest)
          else if sub = ''identity'' then Some (identity_dispatch e f rest)
          else if sub = ''help'' \<or> sub = ''--help'' \<or> sub = ''-h'' then Some (Ok OutHelp)
          else if fe_exists f sub then run_command v f (sub # rest)
          else Some (Ok (OutUnknown sub)))"

section \<open>What the commands guarantee\<close>

definition manifest_of :: "string \<Rightarrow> manifest_input \<Rightarrow> manifest_body" where
  "manifest_of did i = \<lparr>mb_did = did, mb_display_name = mi_display_name i, mb_source_hash = mi_source_hash i, mb_model_pins = [],
     mb_prompt_hashes = mi_prompt_hashes i, mb_tool_bindings = [], mb_ontology_slices = mi_ontology_slices i,
     mb_capability_allow_list = mi_capability_allow_list i, mb_eval_suite_refs = mi_eval_suite_refs i, mb_issued_at = 0,
     mb_expires_at = None\<rparr>"

lemma build_signed_manifest_eq:
  assumes "ks_generate (ie_crypto e) Map.empty (manifest_seed i) = (ks, did)"
  shows "build_signed_manifest e i =
    bind_result (manifest_build (ie_crypto e) (ie_manifest_vec e) (ie_now e) (manifest_of did i) (ks_sign (ie_crypto e) ks))
      (\<lambda>m. Ok (ks, did, m))"
proof -
  have allow: "foldl builder_allow b xs = b\<lparr>mb_capability_allow_list := mb_capability_allow_list b @ xs\<rparr>" for b xs
    by (induction xs arbitrary: b) (simp_all add: builder_allow_def)
  have slices: "foldl builder_ontology_slice b xs = b\<lparr>mb_ontology_slices := mb_ontology_slices b @ xs\<rparr>" for b xs
    by (induction xs arbitrary: b) (simp_all add: builder_ontology_slice_def)
  have evals: "foldl builder_eval_ref b xs = b\<lparr>mb_eval_suite_refs := mb_eval_suite_refs b @ xs\<rparr>" for b xs
    by (induction xs arbitrary: b) (simp_all add: builder_eval_ref_def)
  have prompts: "foldl builder_prompt_hash b xs = b\<lparr>mb_prompt_hashes := mb_prompt_hashes b @ xs\<rparr>" for b xs
    by (induction xs arbitrary: b) (simp_all add: builder_prompt_hash_def)
  show ?thesis
    by (simp add: build_signed_manifest_def assms Let_def allow slices evals prompts manifest_builder_new_def manifest_of_def)
qed

lemma generated_did:
  assumes "\<And>bs. length (hex c (sha256 c bs)) = 64" "ks_generate c ks seed = (ks', did)"
  shows "did_is_well_formed did \<and> ks_knows ks' did"
  using assms by (auto simp: ks_generate_def Let_def did_from_verifying_key_def did_is_well_formed_def ks_knows_def starts_with_iff)

lemma ks_sign_known: "ks_knows ks did \<Longrightarrow> \<exists>s. ks_sign c ks did m = Ok s"
  by (auto simp: ks_knows_def ks_sign_def)

lemma manifest_build_Err:
  assumes "\<And>msg. \<exists>s. sign (mb_did b) msg = Ok s" "manifest_build c to_vec now b sign = Err er"
  shows "\<exists>err. er = Serialisation err"
proof (cases "to_vec (b\<lparr>mb_issued_at := now\<rparr>)")
  case (Inr bytes)
  obtain s where "sign (mb_did b) (as_bytes (hex c (sha256 c bytes))) = Ok s" using assms(1) by blast
  with assms(2) Inr show ?thesis by (simp add: manifest_build_def Let_def)
qed (use assms(2) in \<open>auto simp: manifest_build_def Let_def\<close>)

text \<open>C40. The verify command never finds a bad signature: with a 256-bit hash, every manifest file that can
  be read and parsed verifies, unless its content cannot be serialised. The command signs the
  description it has read with a key made from it and then verifies that signature; nothing in the
  file is compared with a signature made earlier.\<close>

theorem cli_verify_accepts:
  assumes "\<And>bs. length (hex (ie_crypto e) (sha256 (ie_crypto e) bs)) = 64"
    and "fe_read f path = Ok raw" "fe_manifest f raw = Ok i"
  shows "(\<exists>did. cmd_verify e f (path # rest) = Ok (OutVerified did (mi_display_name i)))
    \<or> (\<exists>err. cmd_verify e f (path # rest) = Err (SvIdentity (Serialisation err)))"
proof -
  let ?c = "ie_crypto e"
  obtain ks did where ks: "ks_generate ?c Map.empty (manifest_seed i) = (ks, did)" by fastforce
  note did = generated_did[OF assms(1) ks] and build = build_signed_manifest_eq[OF ks]
  have read: "read_manifest f u (path # rest) = Ok i" for u
    using assms(2,3) by (simp add: read_manifest_def map_err_def)
  let ?m = "manifest_build ?c (ie_manifest_vec e) (ie_now e) (manifest_of did i) (ks_sign ?c ks)"
  show ?thesis
  proof (cases ?m)
    case (Inl er)
    have "\<exists>s. ks_sign ?c ks (mb_did (manifest_of did i)) msg = Ok s" for msg
      using ks_sign_known did by (simp add: manifest_of_def)
    then have "\<exists>err. er = Serialisation err" using Inl by (rule manifest_build_Err)
    with Inl show ?thesis by (auto simp: cmd_verify_def read build map_err_def)
  next
    case (Inr m)
    then have "mb_display_name (am_body m) = mi_display_name i"
      by (auto simp: manifest_build_def Let_def manifest_of_def bind_result_Ok_iff split: sum.splits)
    moreover have "manifest_verify ?c (ie_manifest_vec e) m (ks_verify ?c ks) = Ok ()"
      by (rule in_memory.manifest_build_verify[OF Inr]) (use did in \<open>simp add: manifest_of_def\<close>)
    ultimately show ?thesis using Inr by (simp add: cmd_verify_def read build map_err_def)
  qed
qed

text \<open>A hash of 32 equal bytes, printed as 64 digits, and a file whose source hash is anything.\<close>

definition ex_id_env :: id_env where
  "ex_id_env = \<lparr>ie_crypto = \<lparr>sha256 = (\<lambda>_. replicate 32 0), hex = (\<lambda>bs. concat (map (\<lambda>_. ''00'') bs))\<rparr>,
     ie_manifest_vec = (\<lambda>_. Ok []), ie_revocation_vec = (\<lambda>_. Ok []), ie_spdx_pretty = (\<lambda>_. Ok []),
     ie_cyclonedx_pretty = (\<lambda>_. Ok []), ie_rfc3339 = (\<lambda>_. []), ie_pkg_version = ''0.1.0'', ie_now = 0, ie_nanos_le = []\<rparr>"

definition ex_manifest_input :: manifest_input where
  "ex_manifest_input = \<lparr>mi_display_name = ''order-agent'', mi_source_hash = ''tampered'', mi_capability_allow_list = [],
     mi_ontology_slices = [], mi_eval_suite_refs = [], mi_prompt_hashes = [], mi_seed = None\<rparr>"

definition ex_files :: file_env where
  "ex_files = \<lparr>fe_exists = (\<lambda>_. True), fe_is_dir = (\<lambda>_. True), fe_read = (\<lambda>_. Ok ''x''), fe_write = (\<lambda>_ _. Ok ()),
     fe_read_dir = (\<lambda>_. Ok []), fe_config = (\<lambda>_. Ok server_config_default), fe_capability = (\<lambda>_. Ok ex_capability),
     fe_openapi_yaml = (\<lambda>_. Err ''x''), fe_openapi_json = (\<lambda>_. Err ''x''), fe_manifest = (\<lambda>_. Ok ex_manifest_input),
     fe_sbom = (\<lambda>_. Err ''x'')\<rparr>"

theorem cli_verify_accepts_witness:
  "\<exists>did. cmd_verify ex_id_env ex_files [''m.yaml''] = Ok (OutVerified did ''order-agent'')"
proof -
  have "length (hex (ie_crypto ex_id_env) (sha256 (ie_crypto ex_id_env) bs)) = 64" for bs
    by (simp add: ex_id_env_def length_concat comp_def map_replicate_const[symmetric] sum_list_replicate)
  note len = this
  have "fe_read ex_files ''m.yaml'' = Ok ''x''" "fe_manifest ex_files ''x'' = Ok ex_manifest_input" by (simp_all add: ex_files_def)
  from cli_verify_accepts[OF len this, of "[]"] have "(\<exists>did. cmd_verify ex_id_env ex_files [''m.yaml''] = Ok (OutVerified did ''order-agent''))
     \<or> (\<exists>err. cmd_verify ex_id_env ex_files [''m.yaml''] = Err (SvIdentity (Serialisation err)))"
    by (simp add: ex_manifest_input_def)
  moreover have "\<not> (\<exists>err. cmd_verify ex_id_env ex_files [''m.yaml''] = Err (SvIdentity (Serialisation err)))"
    by (auto simp: cmd_verify_def read_manifest_def ex_files_def ex_id_env_def map_err_def bind_result_def
        build_signed_manifest_def manifest_build_def manifest_verify_def ks_sign_def ks_verify_def Let_def split: prod.splits sum.splits option.splits if_splits)
  ultimately show ?thesis by blast
qed

text \<open>Every command line of the server comes to an end with a result, an error or a usage message;
  in particular the graph the run command builds is always validated in finitely many steps.\<close>

theorem server_main_total: "\<exists>r. server_main v e f args = Some r"
proof -
  have "\<exists>r. run_command v f as = Some r" for as
    using run_config_total[of v] by (auto simp: run_command_def cmd_run_def split: sum.splits)
  then show ?thesis by (auto simp: server_main_def split: list.splits)
qed

end
