(* ===== verification/Ids.thy ===== *)
theory Ids
  imports AAF_Prelude
begin

text \<open>
  Identifiers (\<open>aaf-contracts/src/ids.rs\<close>). The macro \<open>id_type!\<close> is expanded for fifteen identifier
  types; a constructor of \<open>id_type\<close> names each of them and \<open>id_prefix\<close> is the literal of its expansion.
  The text of the random UUID that \<open>new\<close> takes twelve characters of is an argument. The operations of
  the other theories receive identifiers as strings, which is what \<open>from_raw\<close>, \<open>From\<close>, \<open>as_str\<close> and
  \<open>Display\<close> make of them.
\<close>

datatype id_type = IntentId | TaskId | TraceId | ArtifactId | CapabilityId | NodeId | HandoffId | CheckpointId
  | AgentId | TenantId | EventId | ProposalId | ProjectionId | SessionId | UserId

fun id_prefix :: "id_type \<Rightarrow> string" where
  "id_prefix IntentId = ''int''"
| "id_prefix TaskId = ''task''"
| "id_prefix TraceId = ''trace''"
| "id_prefix ArtifactId = ''art''"
| "id_prefix CapabilityId = ''cap''"
| "id_prefix NodeId = ''node''"
| "id_prefix HandoffId = ''handoff''"
| "id_prefix CheckpointId = ''cp''"
| "id_prefix AgentId = ''agent''"
| "id_prefix TenantId = ''tenant''"
| "id_prefix EventId = ''evt''"
| "id_prefix ProposalId = ''prop''"
| "id_prefix ProjectionId = ''proj''"
| "id_prefix SessionId = ''sess''"
| "id_prefix UserId = ''usr''"

definition id_new :: "id_type \<Rightarrow> string \<Rightarrow> string" where
  "id_new k uuid_simple = id_prefix k @ ''-'' @ take 12 uuid_simple"

section \<open>Facts\<close>

lemma id_prefix_no_dash: "CHR ''-'' \<notin> set (id_prefix k)"
  by (cases k) simp_all

lemma id_prefix_inj [simp]: "id_prefix k = id_prefix k' \<longleftrightarrow> k = k'"
  by (cases k; cases k') simp_all

lemma takeWhile_id_new: "takeWhile (\<lambda>c. c \<noteq> CHR ''-'') (id_new k u) = id_prefix k"
proof -
  have "\<forall>c \<in> set (id_prefix k). c \<noteq> CHR ''-''" using id_prefix_no_dash by metis
  then show ?thesis by (simp add: id_new_def takeWhile_append2)
qed

text \<open>Identifiers of two types are never equal, whatever the random text: the prefix is read back from
  the identifier. Two identifiers of one type are equal exactly when their random texts agree on the
  twelve characters kept.\<close>

lemma id_new_eq_iff: "id_new k u = id_new k' u' \<longleftrightarrow> k = k' \<and> take 12 u = take 12 u'"
  by (metis takeWhile_id_new id_new_def id_prefix_inj append_same_eq same_append_eq)

end
