(* ===== verification/Spec2Isabelle.thy ===== *)
theory Spec2Isabelle
  imports Policy Scope Identity Trust Breaker Storage Registry Trace Graph LLM Nodes Executor Saga Planner Federation Intent Ontology Surface Sidecar Learn Eval Anthropic Otel Cli Ids
begin

text \<open>
  A verification library for the Rust core of the agentic application framework
  (\<open>src/core/crates\<close>): the governed path from a request in natural language to an executed plan, and
  the services around it.

  \<^bold>\<open>The program.\<close> A request text is compiled to an intent envelope (aaf-intent). The planner looks up
  capabilities in the registry (aaf-registry, over aaf-storage), orders them, checks composition and
  bounds, and caches the plan (aaf-planner). The runtime turns the steps into a graph, validates it and
  runs it node by node; before the plan, before each step, after each step and before the artifact it
  asks the policy engine (aaf-policy), charges the budget, records the trace (aaf-trace) and rolls back
  by compensation when a node fails (aaf-runtime). A saga is a second execution model, with recovery
  rules per step (aaf-saga). Nodes call language models (aaf-llm) and tools. Agents have identities,
  signed manifests and tokens (aaf-identity) and a trust score that sets their autonomy (aaf-trust).
  Calls to another organisation pass the federation router (aaf-federation); applications are attached
  through events and proposals (aaf-surface), a sidecar or an in-process wrapper (aaf-sidecar,
  aaf-wrapper, aaf-transport). Entities live in the ontology (aaf-ontology), traces feed the learning
  subscribers and the evaluation tools (aaf-learn, aaf-eval), and the reference server puts the parts
  together behind a command line (aaf-server).

  \<^bold>\<open>Theories and sources.\<close>
  \<^item> AAF_Prelude: machine integers, results, strings, sorting, hash maps; shared lemmas and the
    collections of simplification rules. Float64: \<open>f64\<close> and \<open>f32\<close> as IEEE values with rounding.
  \<^item> Contracts: \<open>aaf-contracts\<close> (capabilities, intents, tasks, observations, artifacts, JSON values).
    Ids: the identifier types of \<open>aaf-contracts/src/ids.rs\<close>.
  \<^item> Policy: \<open>aaf-policy\<close> engine, the seven rules under \<open>rules/\<close>, the guards, the approval workflow.
    Scope: \<open>aaf-policy/src/scope.rs\<close>.
  \<^item> Identity: \<open>aaf-identity\<close> (DIDs, keystore, tokens, manifests, attestations, revocation). Sbom:
    \<open>aaf-identity/src/sbom\<close>. Trust: \<open>aaf-trust\<close>; its artifact signing is in Federation.
  \<^item> Storage: \<open>aaf-storage\<close>, \<open>aaf-memory\<close>. Registry: \<open>aaf-registry\<close>; Breaker: its circuit breakers,
    degradation and health.
  \<^item> Trace: \<open>aaf-trace\<close>; Otel: \<open>aaf-trace/src/export.rs\<close>.
  \<^item> Graph: \<open>aaf-runtime/src/graph.rs\<close> and \<open>scheduler.rs\<close>; Nodes: the node kinds, budget tracker, tool
    and service invocation, compensation chain and checkpoints; Executor: \<open>aaf-runtime/src/executor.rs\<close>,
    the loop body cut into the definitions \<open>step_node\<close>, \<open>run_node\<close>, \<open>after_node\<close>, \<open>fail_step\<close> and
    \<open>pre_artifact\<close> along its phases.
  \<^item> LLM: \<open>aaf-llm\<close>; Anthropic: \<open>aaf-llm/src/anthropic.rs\<close>.
  \<^item> Saga: \<open>aaf-saga\<close>. Planner: \<open>aaf-planner\<close>. Intent: \<open>aaf-intent\<close>. Ontology: \<open>aaf-ontology\<close>.
    Federation: \<open>aaf-federation\<close>. Surface: \<open>aaf-surface\<close>. Sidecar: \<open>aaf-sidecar\<close>, \<open>aaf-wrapper\<close>,
    \<open>aaf-transport\<close>. Learn: \<open>aaf-learn\<close>. Eval: \<open>aaf-eval\<close>.
  \<^item> Lint, Server, Cli: \<open>aaf-server\<close> (ontology tools; configuration, seeding and the run command; the
    command line and the identity commands).

  A struct is a record, an enum a datatype, a method a function of the state that returns the updated
  state, an error a value of a result type. Code with effects outside the program (node bodies, tool and
  step runners, providers, the HTTP sender, the timer) is a function on a world of a free type, so a
  property quantifies over every behaviour of that code. \<open>Utc::now()\<close> and fresh identifiers are
  arguments. Third-party code is a parameter: the hash function and hexadecimal encoding (\<open>crypto\<close>), the
  serialisers, the YAML and JSON parsers and printers, the regular expressions of the policy guards and
  of the extractor.

  \<^bold>\<open>What is shown.\<close>
  \<^item> Governance: with the default rules a write-class step is denied or needs approval unless the caller
    may approve automatically, and the scope, boundary, PII and injection rules deny; the executor
    never runs a node the gate did not clear, records each step that ran, stays within the budget, and
    on failure undoes exactly the committed write steps, last one first; where the hooks allow every
    step and the budget lasts, a run is the plain sequential execution of its order. The rule laws are the locales
    \<open>rule_family\<close> and \<open>blocking_rule_family\<close>, interpreted for all seven rules.
  \<^item> Refinement: a saga run implements an abstract specification over its journal (\<open>saga_spec\<close>); an
    executor run and its rollback are described by plainly running named nodes (\<open>runs_all\<close>), and the recorder
    by what a history of calls says of one trace (\<open>log_of\<close>); the scope intersection equals its set-theoretic reading; storage backends implement the locale
    \<open>keyed_store\<close>; the recorder implements \<open>trace_recorder\<close>; the keystore implements
    \<open>signature_scheme\<close>, from which the token and co-signing results follow.
  \<^item> State machines: circuit breakers (no call before the cool-down, and recovery afterwards), trust
    and promotion, approval requests, proposals, recorder, registry and ontology, each with an invariant
    over every sequence of its operations.
  \<^item> Planning: plans name registered, distinct capabilities within the bounds and pass the composition
    checks; graph validation accepts exactly the acyclic, closed graphs and yields a topological order.
  \<^item> Exactness of interfaces: federation checks, request and response of the Anthropic provider with its
    retries, lint report, exported bills of materials, discovery and search.
  \<^item> Composition, here and in Server: from request text to plan, from configuration to trace, and sagas
    over the registry.

  \<^bold>\<open>Bounds and fuel.\<close> Kahn's algorithm has one unit of fuel per node; a run that used it up is the value
  None, and theory Graph shows that this never happens. The planner's depth-first visit
  carries the set of visited capabilities and terminates by the number of unvisited ones. The agent
  loop is bounded by the configured number of steps, the retry loops by their list of attempts; the
  remaining loops recurse over a list. Counters keep the width of the source and wrap or saturate as
  there: where wrap-around could matter a property states the bound (fewer than 2\<open>^\<close>64 observed events).
  Arithmetic the source leaves unchecked wraps, as in a release build.

  \<^bold>\<open>Not modelled.\<close> Parsing of YAML and JSON and the printing of reports and help texts; the module and
  prelude files that only re-export; serde attributes and derived instances; locks and the async
  runtime (an operation under one lock is one step; trace subscribers, which the code spawns, are
  functions of the observation they receive); the step timeout helper, which is one call of the
  runtime's timer; \<open>explain\<close> of composition violations, a message only.
\<close>

section \<open>From request to plan\<close>

text \<open>From a request to a plan. A text compiled by a compiler with an empty cache and then planned by a
  new planner over a registry reached by its own operations gives a plan for the caller's own
  intent, of no more steps than the bounds allow, in which every step names a registered capability,
  each at most once, and every capability with a write-class side effect carries a compensation.\<close>

theorem request_to_plan_sound:
  assumes "registry_reachable g" "compile v [] raw req domain budget = (cache, Ok (Compiled e))"
    and "planner_plan (ce_crypto v) fresh (planner_new g b k) e = (p', Ok plan)"
  shows "plan_intent_id plan = ce_fresh_id v \<and> int_requester e = req \<and> validate_intent e = Ok ()
    \<and> of_nat (length (plan_steps plan)) \<le> ba_max_steps b
    \<and> \<not> flt (ba_max_cost_usd b) (max_cost_usd budget) \<and> max_latency_ms budget \<le> ba_max_latency_ms b
    \<and> distinct (map pst_capability (plan_steps plan))
    \<and> (\<forall>s \<in> set (plan_steps plan). \<exists>c. registry_get g (pst_capability s) = Ok c
         \<and> (requires_compensation (cap_side_effect c) \<longrightarrow> cap_compensation c \<noteq> None))"
proof -
  let ?ord = "topo_sort (choose_caps (planner_hits g e))"
  note e = compile_Compiled[OF assms(2)]
  note miss = planner_plan_miss[OF new_planner_miss assms(3)]
  have pl: "pl_registry (planner_new g b k) = g" "pl_bounds (planner_new g b k) = b" by (simp_all add: planner_new_def)
  have inv: "registry_inv g" by (rule registry_reachable_inv[OF assms(1)])
  have names: "map pst_capability (plan_steps plan) = map cap_id ?ord"
    using plan_steps_capabilities[of fresh 0 ?ord] by (simp add: miss(1) pl)
  have good: "\<exists>c. registry_get g (pst_capability s) = Ok c
      \<and> (requires_compensation (cap_side_effect c) \<longrightarrow> cap_compensation c \<noteq> None)" if "s \<in> set (plan_steps plan)" for s
  proof -
    from that have "pst_capability s \<in> set (map cap_id ?ord)" unfolding names[symmetric] by simp
    then obtain c where c: "c \<in> set ?ord" "cap_id c = pst_capability s" by auto
    then have "c \<in> set (registry_list g)" using chosen_registered by blast
    with inv c(2) have "registry_get g (pst_capability s) = Ok c" "validate_capability c = Ok ()"
      by (auto simp: registry_get_Ok_iff registry_inv_def registry_list_def capability_store.get_list)
    then show ?thesis by (auto simp: validate_capability_Ok_iff)
  qed
  have "distinct (map pst_capability (plan_steps plan))" unfolding names by (rule topo_sort_perm(3))
  moreover have "plan_intent_id plan = ce_fresh_id v" using e by (simp add: miss(1))
  ultimately show ?thesis using e good miss(4) by (auto simp: bounds_validate_Ok pl)
qed

section \<open>Sagas over the registry\<close>

text \<open>A property of the world that every call keeps is kept by a whole saga run.\<close>

lemma saga_compensate_keeps:
  assumes "\<And>w s. P w \<Longrightarrow> s \<in> set steps \<Longrightarrow> P (fst (undo w s))"
  shows "P w \<Longrightarrow> P (fst (saga_compensate undo steps act keep ds w cs ps))"
proof (induction ds arbitrary: w cs ps)
  case (Cons d ds)
  have "s \<in> set steps" if "find (\<lambda>s. ss_step s = d) steps = Some s" for s
    using that by (auto simp: find_Some_iff)
  then have "P (fst (undo w s))" if "find (\<lambda>s. ss_step s = d) steps = Some s" for s
    using that assms Cons.prems by blast
  with Cons show ?case by (auto split: option.splits sum.splits prod.splits)
qed simp

lemma saga_loop_keeps:
  assumes "\<And>w s. P w \<Longrightarrow> s \<in> set steps \<Longrightarrow> P (fst (runner w s))"
    and "\<And>w s. P w \<Longrightarrow> s \<in> set steps \<Longrightarrow> P (fst (undo w s))"
  shows "set rest \<subseteq> set steps \<Longrightarrow> P w \<Longrightarrow> P (fst (saga_loop runner undo steps rest completed st w))"
proof (induction rest arbitrary: completed st w)
  case (Cons s rest)
  obtain w1 r where r: "runner w s = (w1, r)" by fastforce
  with assms(1)[of w s] Cons.prems have w1: "P w1" by simp
  obtain w2 r2 where r2: "runner w1 s = (w2, r2)" by fastforce
  with assms(1)[of w1 s] w1 Cons.prems(1) have w2: "P w2" by simp
  have un: "P (fst (saga_compensate undo steps act keep ds w1 [] []))" for act keep ds
    using saga_compensate_keeps[of P steps undo, OF assms(2)] w1 by blast
  have IH: "P w \<Longrightarrow> P (fst (saga_loop runner undo steps rest completed st w))" for completed st w
    using Cons by simp
  show ?case
  proof (cases r)
    case StepOk
    with r IH[OF w1] show ?thesis by simp
  next
    case (FailedWithTag tag)
    let ?dec = "recovery_decide tag (ss_on_failure s)"
    obtain w3 res where c: "saga_compensate undo steps (decision_action ?dec) (preserve_set ?dec) (rev completed) w1 [] [] = (w3, res)"
      by fastforce
    with un have "P w3" by (metis fst_conv)
    with FailedWithTag r r2 c w1 IH[OF w1] IH[OF w2] w2 show ?thesis
      by (cases res; cases r2; cases "decision_action ?dec") (auto simp: Let_def)
  qed
qed simp

text \<open>C14. A saga run through the registry bridge invokes only what was declared: from an invoker with an
  empty log, every capability it invokes is the capability of a step and registered, or the
  compensation a step declares. A step whose capability is not registered is never invoked.\<close>

theorem saga_bridge_invokes_declared:
  assumes "imi_log i = []"
    and "saga_run (bridge_step_runner g in_memory_invoke) (bridge_compensation_runner in_memory_invoke) d i = (i', st, res)"
  shows "\<forall>c \<in> set (imi_log i').
    (\<exists>s \<in> set (sd_steps d). ss_capability s = c \<and> is_ok (registry_get g c)) \<or> (\<exists>s \<in> set (sd_steps d). ss_compensation s = Some c)"
proof -
  define P where "P w \<longleftrightarrow> (\<forall>c \<in> set (imi_log w). (\<exists>s \<in> set (sd_steps d). ss_capability s = c \<and> is_ok (registry_get g c))
      \<or> (\<exists>s \<in> set (sd_steps d). ss_compensation s = Some c))" for w :: in_memory_invoker
  have step: "P (fst (bridge_step_runner g in_memory_invoke w s))" if "P w" "s \<in> set (sd_steps d)" for w s
    using that by (auto simp: P_def bridge_step_runner_def in_memory_invoke_def)
  have undo: "P (fst (bridge_compensation_runner in_memory_invoke w s))" if "P w" "s \<in> set (sd_steps d)" for w s
    using that by (auto simp: P_def bridge_compensation_runner_def in_memory_invoke_def split: option.splits)
  have "P i" using assms(1) by (simp add: P_def)
  then have "P (fst (saga_run (bridge_step_runner g in_memory_invoke)
      (bridge_compensation_runner in_memory_invoke) d i))"
    unfolding saga_run_def
    by (intro saga_loop_keeps[where P = P and steps = "sd_steps d" and runner = "bridge_step_runner g in_memory_invoke"
          and undo = "bridge_compensation_runner in_memory_invoke"] subset_refl) (erule (1) step, erule (1) undo)
  then have "P i'" using assms(2) by simp
  then show ?thesis by (simp add: P_def)
qed

theorem saga_bridge_invokes_declared_witness:
  "\<exists>i' st res. saga_run (bridge_step_runner ex_registry in_memory_invoke) (bridge_compensation_runner in_memory_invoke)
       \<lparr>sd_name = ''s'', sd_description = None,
        sd_steps = [ex_saga_step 1 ''cap-1'' (Some ''undo-1''), ex_saga_step 2 ''ghost'' None]\<rparr> invoker_new = (i', st, res)
     \<and> imi_log i' = [''cap-1'', ''undo-1''] \<and> ''ghost'' \<notin> set (imi_log i')"
proof -
  let ?d = "\<lparr>sd_name = ''s'', sd_description = None,
     sd_steps = [ex_saga_step 1 ''cap-1'' (Some ''undo-1''), ex_saga_step 2 ''ghost'' None]\<rparr>"
  let ?run = "saga_run (bridge_step_runner ex_registry in_memory_invoke) (bridge_compensation_runner in_memory_invoke) ?d invoker_new"
  have ghost: "\<not> is_ok (registry_get ex_registry ''ghost'')" by (simp add: registry_get_ex)
  have "is_ok (registry_get ex_registry ''cap-1'')" by (simp add: registry_get_ex)
  with ghost have log: "imi_log (fst ?run) = [''cap-1'', ''undo-1'']"
    by (simp add: saga_run_def bridge_step_runner_def bridge_compensation_runner_def in_memory_invoke_def
        ex_saga_step_def invoker_new_def recovery_decide_def Let_def)
  obtain i' st res where run: "?run = (i', st, res)" by (metis prod_cases3)
  have "imi_log invoker_new = []" by (simp add: invoker_new_def)
  from saga_bridge_invokes_declared[OF this run] ghost have "''ghost'' \<notin> set (imi_log i')"
    by (auto simp: ex_saga_step_def)
  with run log show ?thesis by auto
qed

end
